(* ===== verification/Prelude.thy ===== *)
theory Prelude
  imports Main "HOL-Library.Word" "HOL-Library.Monad_Syntax"
begin

text \<open>
  Shared vocabulary of the development: the machine's integer types, the
  little-endian byte encodings every on-disc, on-card and on-wire structure of
  the repository uses, byte-string slices with an explicit bound, and the
  generic invariant argument for state machines.
\<close>

unbundle bit_operations_syntax

type_synonym u8 = "8 word"
type_synonym u16 = "16 word"
type_synonym u32 = "32 word"

named_theorems codec \<open>round-trip and length facts of byte encodings\<close>
named_theorems frame \<open>what an operation leaves unchanged\<close>

section \<open>Little-endian words\<close>

definition le32_decode :: "u8 \<Rightarrow> u8 \<Rightarrow> u8 \<Rightarrow> u8 \<Rightarrow> u32" where
  "le32_decode b0 b1 b2 b3 =
     (ucast b0) OR (push_bit 8 (ucast b1)) OR (push_bit 16 (ucast b2)) OR (push_bit 24 (ucast b3))"

definition le32_encode :: "u32 \<Rightarrow> u8 list" where
  "le32_encode v = [ucast v, ucast (drop_bit 8 v), ucast (drop_bit 16 v), ucast (drop_bit 24 v)]"

definition le16_encode :: "u16 \<Rightarrow> u8 list" where
  "le16_encode v = [ucast v, ucast (drop_bit 8 v)]"

definition le16_decode :: "u8 \<Rightarrow> u8 \<Rightarrow> u16" where
  "le16_decode b0 b1 = (ucast b0) OR (push_bit 8 (ucast b1))"

text \<open>The word stored at offset \<open>i\<close> of a byte string.\<close>

definition le32_at :: "u8 list \<Rightarrow> nat \<Rightarrow> u32" where
  "le32_at bs i = le32_decode (bs ! i) (bs ! (i + 1)) (bs ! (i + 2)) (bs ! (i + 3))"

definition le16_at :: "u8 list \<Rightarrow> nat \<Rightarrow> u16" where
  "le16_at bs i = le16_decode (bs ! i) (bs ! (i + 1))"

lemma length_le32_encode [simp, codec]: "length (le32_encode v) = 4"
  by (simp add: le32_encode_def)

lemma length_le16_encode [simp, codec]: "length (le16_encode v) = 2"
  by (simp add: le16_encode_def)

lemma le32_decode_encode [simp, codec]:
  "le32_decode (ucast v) (ucast (drop_bit 8 v)) (ucast (drop_bit 16 v)) (ucast (drop_bit 24 v)) = v"
  by (rule bit_word_eqI, auto simp: le32_decode_def bit_simps) (rule ccontr, simp)

lemma le16_decode_encode [simp, codec]:
  "le16_decode (ucast v) (ucast (drop_bit 8 v)) = v"
  by (rule bit_word_eqI) (auto simp: le16_decode_def bit_simps)

lemma le32_encode_decode [codec]:
  "le32_encode (le32_decode b0 b1 b2 b3) = [b0, b1, b2, b3]"
  by (auto simp: le32_encode_def le32_decode_def bit_simps intro!: bit_word_eqI)
     (auto dest!: bit_imp_le_length)

lemma le32_at_append1 [codec]:
  "i + 3 < length xs \<Longrightarrow> le32_at (xs @ ys) i = le32_at xs i"
  by (simp add: le32_at_def nth_append)

lemma le32_at_append2 [codec]:
  "length xs \<le> i \<Longrightarrow> le32_at (xs @ ys) i = le32_at ys (i - length xs)"
  by (simp add: le32_at_def nth_append Suc_diff_le)

lemma le32_at_encode [codec, simp]:
  "le32_at (le32_encode v @ ys) 0 = v"
  by (simp add: le32_at_def le32_encode_def)

lemma le32_at_encode_only [codec, simp]:
  "le32_at (le32_encode v) 0 = v"
  by (simp add: le32_at_def le32_encode_def)

section \<open>Bounds of machine integers\<close>

lemma uint_u8_less [simp]: "uint (c :: u8) < 256"
proof -
  have "uint c < 2 ^ LENGTH(8)" by (rule unsigned_less)
  then show ?thesis by simp
qed

lemma unat_u8_less [simp]: "unat (c :: u8) < 256"
proof -
  have "unat c < 2 ^ LENGTH(8)" by (rule unsigned_less)
  then show ?thesis by simp
qed

lemma uint_u8_le [simp]: "uint (c :: u8) \<le> 255"
  using uint_u8_less [of c] by linarith

lemma unat_u8_le [simp]: "unat (c :: u8) \<le> 255"
  using unat_u8_less [of c] by linarith

section \<open>State machines and their invariants\<close>

text \<open>
  The contract between a state machine and the argument that a property holds
  in every state it reaches: a step function indexed by events, a set of
  initial states, and an invariant that both respect. Components instantiate it
  with their own handlers.
\<close>

locale step_system =
  fixes init :: "'s \<Rightarrow> bool"
    and step :: "'e \<Rightarrow> 's \<Rightarrow> 's"
    and inv :: "'s \<Rightarrow> bool"
  assumes inv_init: "init s \<Longrightarrow> inv s"
    and inv_step: "inv s \<Longrightarrow> inv (step e s)"
begin

lemma run_inv: "inv s \<Longrightarrow> inv (fold step es s)"
  by (induction es arbitrary: s) (auto intro: inv_step)

lemma reachable_inv: "init s \<Longrightarrow> inv (fold step es s)"
  by (rule run_inv) (rule inv_init)

lemma prefix_inv: "init s \<Longrightarrow> inv (fold step (take n es) s)"
  by (rule reachable_inv)

end

text \<open>
  A component whose every step, on the operations its client may use, is a step
  of an abstract machine. The client then reasons on the abstract machine for
  any sequence of operations.
\<close>

locale forward_sim =
  fixes inv :: "'s \<Rightarrow> bool" and view :: "'s \<Rightarrow> 'a" and step :: "'op \<Rightarrow> 's \<Rightarrow> 's option"
    and allowed :: "'op \<Rightarrow> 'a \<Rightarrow> bool" and spec :: "'op \<Rightarrow> 'a \<Rightarrow> 'a"
  assumes sim: "inv s \<Longrightarrow> allowed c (view s) \<Longrightarrow> \<exists>s'. step c s = Some s' \<and> inv s' \<and> view s' = spec c (view s)"
begin

fun run :: "'op list \<Rightarrow> 's \<Rightarrow> 's option" where
  "run [] s = Some s"
| "run (c # cs) s = Option.bind (step c s) (run cs)"

fun allowed_seq :: "'op list \<Rightarrow> 'a \<Rightarrow> bool" where
  "allowed_seq [] a \<longleftrightarrow> True"
| "allowed_seq (c # cs) a \<longleftrightarrow> allowed c a \<and> allowed_seq cs (spec c a)"

lemma run_sim:
  "inv s \<Longrightarrow> allowed_seq cs (view s) \<Longrightarrow> \<exists>s'. run cs s = Some s' \<and> inv s' \<and> view s' = fold spec cs (view s)"
proof (induction cs arbitrary: s)
  case (Cons c cs)
  then obtain t where "step c s = Some t" "inv t" "view t = spec c (view s)"
    using sim by fastforce
  then show ?case
    using Cons.IH [of t] Cons.prems by simp
qed simp

end

lemma ucast_u8_u32 [simp]: "ucast (ucast (x :: u8) :: u32) = x"
  by (rule bit_word_eqI) (auto simp: bit_simps)

end
