(* ===== verification/Bus.thy ===== *)
theory Bus
  imports Prelude
begin

text \<open>
  The memory-mapped bus. The console's hardware is not part of the repository,
  so it is a parameter: an arbitrary function from the history of bus accesses
  to the value the next read returns. A driver's state extends the record
  \<open>hw\<close>; every volatile access appends an event to \<open>hw_trace\<close> (newest first),
  and \<open>hw_env\<close> decides what reads see. Nothing is assumed of \<open>hw_env\<close>: a theorem
  that holds for every \<open>hw_env\<close> holds for every device, broken ones included.
\<close>

datatype bus_event =
    Rd u32 u32  \<comment> \<open>address, value read\<close>
  | Wr u32 u32  \<comment> \<open>address, value written\<close>
  | Delay nat   \<comment> \<open>\<^verbatim>\<open>udelay\<close> or a counted busy loop\<close>

type_synonym bus_trace = "bus_event list"

record hw =
  hw_env :: "bus_trace \<Rightarrow> u32 \<Rightarrow> u32"
  hw_trace :: bus_trace

definition emit :: "bus_event \<Rightarrow> 'a hw_scheme \<Rightarrow> 'a hw_scheme" where
  "emit e s = s\<lparr>hw_trace := e # hw_trace s\<rparr>"

definition in32 :: "u32 \<Rightarrow> 'a hw_scheme \<Rightarrow> u32 \<times> 'a hw_scheme" where
  "in32 a s = (let v = hw_env s (hw_trace s) a in (v, emit (Rd a v) s))"

definition in16 :: "u32 \<Rightarrow> 'a hw_scheme \<Rightarrow> u16 \<times> 'a hw_scheme" where
  "in16 a s = (let v = ucast (hw_env s (hw_trace s) a) in (v, emit (Rd a (ucast v)) s))"

definition in8 :: "u32 \<Rightarrow> 'a hw_scheme \<Rightarrow> u8 \<times> 'a hw_scheme" where
  "in8 a s = (let v = ucast (hw_env s (hw_trace s) a) in (v, emit (Rd a (ucast v)) s))"

definition out32 :: "u32 \<Rightarrow> u32 \<Rightarrow> 'a hw_scheme \<Rightarrow> 'a hw_scheme" where
  "out32 a v = emit (Wr a v)"

definition out16 :: "u32 \<Rightarrow> u16 \<Rightarrow> 'a hw_scheme \<Rightarrow> 'a hw_scheme" where
  "out16 a v = emit (Wr a (ucast v))"

definition out8 :: "u32 \<Rightarrow> u8 \<Rightarrow> 'a hw_scheme \<Rightarrow> 'a hw_scheme" where
  "out8 a v = emit (Wr a (ucast v))"

definition delay :: "nat \<Rightarrow> 'a hw_scheme \<Rightarrow> 'a hw_scheme" where
  "delay n = emit (Delay n)"

text \<open>The values written to one address, oldest first.\<close>

definition writes :: "u32 \<Rightarrow> bus_trace \<Rightarrow> u32 list" where
  "writes a t = rev (List.map_filter (\<lambda>e. case e of Wr b v \<Rightarrow> if b = a then Some v else None | _ \<Rightarrow> None) t)"

text \<open>The values read from one address, oldest first.\<close>

definition reads :: "u32 \<Rightarrow> bus_trace \<Rightarrow> u32 list" where
  "reads a t = rev (List.map_filter (\<lambda>e. case e of Rd b v \<Rightarrow> if b = a then Some v else None | _ \<Rightarrow> None) t)"

text \<open>Whether an event is a write to one of a set of addresses.\<close>

fun rd_in :: "u32 set \<Rightarrow> bus_event \<Rightarrow> bool" where
  "rd_in A (Rd a v) = (a \<in> A)"
| "rd_in A _ = False"

fun wr_in :: "u32 set \<Rightarrow> bus_event \<Rightarrow> bool" where
  "wr_in A (Wr a v) = (a \<in> A)"
| "wr_in A _ = False"

lemma wr_in_mono: "\<not> wr_in UNIV e \<Longrightarrow> \<not> wr_in A e"
  by (cases e) auto

section \<open>What a bus operation may do\<close>

text \<open>
  \<open>emits P s s'\<close>: between \<open>s\<close> and \<open>s'\<close> only bus events satisfying \<open>P\<close> were
  added, the device is the same device, and the driver's own fields are
  unchanged.
\<close>

definition emits :: "(bus_event \<Rightarrow> bool) \<Rightarrow> 'a hw_scheme \<Rightarrow> 'a hw_scheme \<Rightarrow> bool" where
  "emits P s s' \<longleftrightarrow> (\<exists>es. hw_trace s' = es @ hw_trace s \<and> (\<forall>e\<in>set es. P e)) \<and>
     hw_env s' = hw_env s \<and> hw.more s' = hw.more s"

lemma emits_refl [simp]: "emits P s s"
  by (auto simp: emits_def)

lemma emits_emit [simp]: "P e \<Longrightarrow> emits P s (emit e s)"
  by (auto simp: emits_def emit_def intro: exI [of _ "[e]"])

lemma emits_trans [trans]:
  assumes "emits P s s'" "emits P s' s''"
  shows "emits P s s''"
proof -
  obtain es es' where "hw_trace s' = es @ hw_trace s" "hw_trace s'' = es' @ hw_trace s'"
      "\<forall>e\<in>set es. P e" "\<forall>e\<in>set es'. P e"
    using assms unfolding emits_def by blast
  then have "hw_trace s'' = (es' @ es) @ hw_trace s" "\<forall>e\<in>set (es' @ es). P e"
    by auto
  then show ?thesis
    using assms unfolding emits_def by (metis (no_types))
qed

lemma emits_mono: "emits P s s' \<Longrightarrow> (\<And>e. P e \<Longrightarrow> Q e) \<Longrightarrow> emits Q s s'"
  by (auto simp: emits_def)

lemma emits_more [frame]: "emits P s s' \<Longrightarrow> hw.more s' = hw.more s"
  by (simp add: emits_def)

lemma emits_env [frame]: "emits P s s' \<Longrightarrow> hw_env s' = hw_env s"
  by (simp add: emits_def)

lemma emits_traceE:
  assumes "emits P s s'"
  obtains es where "hw_trace s' = es @ hw_trace s" "\<forall>e\<in>set es. P e"
  using assms by (auto simp: emits_def)

lemma emit_fields [simp]:
  "hw_env (emit e s) = hw_env s" "hw_trace (emit e s) = e # hw_trace s"
  "hw.more (emit e s) = hw.more s"
  by (simp_all add: emit_def)

lemmas bus_defs = in8_def in16_def in32_def out8_def out16_def out32_def delay_def Let_def

section \<open>Writes in a trace\<close>

lemma writes_Nil [simp]: "writes a [] = []"
  by (simp add: writes_def map_filter_def)

lemma writes_Cons [simp]:
  "writes a (e # t) = writes a t @ (case e of Wr b v \<Rightarrow> if b = a then [v] else [] | _ \<Rightarrow> [])"
  by (auto simp: writes_def map_filter_def split: bus_event.split)

lemma writes_append [simp]: "writes a (t @ u) = writes a u @ writes a t"
  by (induction t) auto

lemma writes_none: "\<forall>e\<in>set es. \<not> wr_in {a} e \<Longrightarrow> writes a es = []"
proof (induction es)
  case (Cons e es)
  then show ?case by (cases e) auto
qed simp

lemma emits_writes [frame]:
  assumes "emits P s s'" "\<And>e. P e \<Longrightarrow> \<not> wr_in {a} e"
  shows "writes a (hw_trace s') = writes a (hw_trace s)"
proof -
  obtain es where "hw_trace s' = es @ hw_trace s" "\<forall>e\<in>set es. P e"
    using assms(1) by (rule emits_traceE)
  then show ?thesis
    using assms(2) by (simp add: writes_none)
qed

lemma reads_Nil [simp]: "reads a [] = []"
  by (simp add: reads_def map_filter_def)

lemma reads_Cons [simp]:
  "reads a (e # t) = reads a t @ (case e of Rd b v \<Rightarrow> if b = a then [v] else [] | _ \<Rightarrow> [])"
  by (auto simp: reads_def map_filter_def split: bus_event.split)

lemma reads_append [simp]: "reads a (t @ u) = reads a u @ reads a t"
  by (induction t) auto

lemma reads_none: "\<forall>e\<in>set es. \<not> rd_in {a} e \<Longrightarrow> reads a es = []"
proof (induction es)
  case (Cons e es)
  then show ?case by (cases e) auto
qed simp

lemma emits_reads [frame]:
  assumes "emits P s s'" "\<And>e. P e \<Longrightarrow> \<not> rd_in {a} e"
  shows "reads a (hw_trace s') = reads a (hw_trace s)"
proof -
  obtain es where "hw_trace s' = es @ hw_trace s" "\<forall>e\<in>set es. P e"
    using assms(1) by (rule emits_traceE)
  then show ?thesis
    using assms(2) by (simp add: reads_none)
qed

section \<open>Sharing the bus\<close>

text \<open>
  A non-blocking lock on a bus. \<open>traffic\<close> is what a holder may do between taking
  and returning it.
\<close>

locale bus_arbiter =
  fixes try_take :: "'s \<Rightarrow> bool \<times> 's"
    and give_back :: "'s \<Rightarrow> 's"
    and held :: "'s \<Rightarrow> bool"
    and traffic :: "'s \<Rightarrow> 's \<Rightarrow> bool"
  assumes take_free: "\<not> held s \<Longrightarrow> fst (try_take s)"
    and take_held: "held s \<Longrightarrow> try_take s = (False, s)"
    and give_frees: "\<not> held s \<Longrightarrow> traffic (snd (try_take s)) s' \<Longrightarrow> \<not> held (give_back s')"
begin

lemma turn_skipped: "held s \<Longrightarrow> (case try_take s of (True, s) \<Rightarrow> f s | (False, s) \<Rightarrow> g s) = g s"
  by (simp add: take_held)

lemma turn_taken: "\<not> held s \<Longrightarrow> (case try_take s of (True, s) \<Rightarrow> f s | (False, s) \<Rightarrow> g s) = f (snd (try_take s))"
  using take_free [of s] by (cases "try_take s") auto

end

section \<open>Exchanging bytes\<close>

text \<open>
  A port that exchanges one byte at a time and may time out: before the byte is
  sent, or after it while waiting for the answer.
\<close>

locale byte_port =
  fixes xfer :: "u8 \<Rightarrow> 's \<Rightarrow> u8 option \<times> 's"
    and sent :: "'s \<Rightarrow> u32 list"
    and got :: "'s \<Rightarrow> u32 list"
  assumes xfer_some: "xfer b s = (Some v, s') \<Longrightarrow> sent s' = sent s @ [ucast b] \<and> got s' = got s @ [ucast v]"
    and xfer_none: "xfer b s = (None, s') \<Longrightarrow> (sent s' = sent s \<or> sent s' = sent s @ [ucast b]) \<and> got s' = got s"

text \<open>
  A protocol as a list of steps: the byte to send and the test on the answer
  (\<open>None\<close>: it timed out). The run stops at the first failing test; the answers
  seen are returned.
\<close>

fun port_steps :: "(u8 \<Rightarrow> 's \<Rightarrow> u8 option \<times> 's) \<Rightarrow> (u8 \<times> (u8 option \<Rightarrow> bool)) list \<Rightarrow> 's \<Rightarrow> bool \<times> u8 option list \<times> 's" where
  "port_steps xfer [] s = (True, [], s)"
| "port_steps xfer ((b, test) # ps) s =
    (case xfer b s of (r, s) \<Rightarrow>
       if test r then case port_steps xfer ps s of (ok, rs, s) \<Rightarrow> (ok, r # rs, s) else (False, [r], s))"

context byte_port
begin

lemma steps_got: "port_steps xfer ps s = (ok, rs, s') \<Longrightarrow> got s' = got s @ map ucast (List.map_filter id rs)"
proof (induction ps arbitrary: s rs)
  case (Cons p ps)
  obtain b test r s1 where p: "p = (b, test)" "xfer b s = (r, s1)"
    by (cases p; cases "xfer (fst p) s") auto
  have "got s1 = got s @ map ucast (List.map_filter id [r])"
    using p(2) xfer_some xfer_none by (cases r) (auto simp: List.map_filter_simps)
  then show ?case
    using Cons p by (auto simp: List.map_filter_simps split: if_splits prod.splits option.splits)
qed (simp add: List.map_filter_simps)

lemma steps_tests: "port_steps xfer ps s = (True, rs, s') \<Longrightarrow> length rs = length ps \<and> (\<forall>i<length ps. snd (ps ! i) (rs ! i))"
  by (induction ps arbitrary: s rs) (auto simp: less_Suc_eq_0_disj split: if_splits prod.splits)

lemma steps_sent:
  "port_steps xfer ps s = (True, map Some vs, s') \<Longrightarrow> sent s' = sent s @ map (ucast \<circ> fst) ps \<and> got s' = got s @ map ucast vs"
proof (induction ps arbitrary: s vs)
  case (Cons p ps)
  obtain b test r s1 where p: "p = (b, test)" "xfer b s = (r, s1)"
    by (cases p; cases "xfer (fst p) s") auto
  then obtain v ws where "vs = v # ws" "r = Some v" "port_steps xfer ps s1 = (True, map Some ws, s')"
    using Cons.prems by (cases vs) (auto split: if_splits prod.splits)
  then show ?case
    using Cons.IH [of s1 ws] xfer_some p by simp
qed simp

end

end
