(* ===== verification/Blkreq.thy ===== *)
theory Blkreq
  imports Bus
begin

text \<open>
  The part of the 2.4 block layer the two BlackRoo block drivers stand on: a
  queue of requests, each a chain of buffer heads, and \<^verbatim>\<open>end_request\<close>, which
  completes the first buffer head of the first request and either advances the
  request to its next buffer or dequeues it.
  (\<^verbatim>\<open>include/linux/blk.h\<close>, \<^verbatim>\<open>drivers/block/ll_rw_blk.c\<close>)
\<close>

datatype rq_cmd = READ | WRITE | READA

record buffer_head =
  b_size :: u32
  b_data :: u32

record request =
  rq_cmd :: rq_cmd
  rq_minor :: u8
  rq_sector :: u32
  rq_hard_sector :: u32
  rq_nr_sectors :: u32
  rq_hard_nr_sectors :: u32
  rq_current_nr_sectors :: u32
  rq_buffer :: u32
  rq_bh :: "buffer_head list"

text \<open>
  The queue of one major, first request first, and the completions delivered by
  \<^verbatim>\<open>b_end_io\<close>, oldest first.
\<close>

record blkq = hw +
  rq_queue :: "request list"
  rq_done :: "(buffer_head \<times> bool) list"

text \<open>
  \<^verbatim>\<open>end_that_request_first\<close>: complete the first buffer, advance the request.
  The result is the updated request, the completed buffer, and whether there is
  more to do.
\<close>

definition end_that_request_first :: "request \<Rightarrow> bool \<Rightarrow> bool \<times> request \<times> (buffer_head \<times> bool) list" where
  "end_that_request_first req uptodate =
    (case rq_bh req of
       [] \<Rightarrow> (False, req, [])
     | bh # rest \<Rightarrow>
         (let nsect = drop_bit 9 (b_size bh); req = req\<lparr>rq_bh := rest\<rparr> in
          case rest of
            [] \<Rightarrow> (False, req, [(bh, uptodate)])
          | bh' # _ \<Rightarrow>
              (let hs = rq_hard_sector req + nsect;
                   hn = rq_hard_nr_sectors req - nsect;
                   cur = drop_bit 9 (b_size bh');
                   nr = (if hn < cur then cur else hn)
               in (True, req\<lparr>rq_hard_sector := hs, rq_hard_nr_sectors := hn, rq_sector := hs,
                             rq_nr_sectors := nr, rq_current_nr_sectors := cur,
                             rq_buffer := b_data bh'\<rparr>, [(bh, uptodate)]))))"

definition end_request :: "bool \<Rightarrow> 'a blkq_scheme \<Rightarrow> 'a blkq_scheme" where
  "end_request uptodate s =
    (case rq_queue s of
       [] \<Rightarrow> s
     | req # rest \<Rightarrow>
         (case end_that_request_first req uptodate of
            (again, req', fin) \<Rightarrow>
              s\<lparr>rq_queue := (if again then req' # rest else rest), rq_done := rq_done s @ fin\<rparr>))"

section \<open>What a completion does to the queue\<close>

text \<open>The buffers still waiting, in the order they will be completed.\<close>

definition pending :: "'a blkq_scheme \<Rightarrow> buffer_head list" where
  "pending s = concat (map rq_bh (rq_queue s))"

text \<open>A bound on the number of completions that empties the queue.\<close>

definition rq_work :: "'a blkq_scheme \<Rightarrow> nat" where
  "rq_work s = sum_list (map (\<lambda>r. Suc (length (rq_bh r))) (rq_queue s))"

lemma end_request_pending:
  "rq_queue s \<noteq> [] \<Longrightarrow>
     map fst (rq_done (end_request up s)) @ pending (end_request up s) = map fst (rq_done s) @ pending s"
  by (auto simp: end_request_def end_that_request_first_def pending_def Let_def
      split: list.splits)

lemma end_request_work:
  "rq_queue s \<noteq> [] \<Longrightarrow> rq_work (end_request up s) < rq_work s"
  by (auto simp: end_request_def end_that_request_first_def rq_work_def Let_def
      split: list.splits)

lemma end_request_hw [simp, frame]:
  "hw_env (end_request up s) = hw_env s" "hw_trace (end_request up s) = hw_trace s"
  "blkq.more (end_request up s) = blkq.more s"
  by (auto simp: end_request_def split: list.splits prod.splits)

lemma end_request_done:
  "\<exists>ds. rq_done (end_request up s) = rq_done s @ ds \<and> (\<forall>d\<in>set ds. snd d = up)"
  by (auto simp: end_request_def end_that_request_first_def Let_def split: list.splits prod.splits)

lemma end_request_current:
  assumes "rq_queue s = r # rest" "rq_bh r = b # bs"
  shows "rq_done (end_request up s) = rq_done s @ [(b, up)]"
    and "rq_queue (end_request up s) \<noteq> [] \<Longrightarrow> bs \<noteq> [] \<Longrightarrow>
           rq_buffer (hd (rq_queue (end_request up s))) = b_data (hd bs) \<and>
           rq_sector (hd (rq_queue (end_request up s))) = rq_hard_sector r + drop_bit 9 (b_size b)"
  using assms by (auto simp: end_request_def end_that_request_first_def Let_def split: list.splits)

end
