(* ===== verification/Psxcd.thy ===== *)
theory Psxcd
  imports Blkreq
begin

text \<open>
  The CD-ROM driver's hardware layer, \<^verbatim>\<open>drivers/block/psxcd.c\<close> lines 60-471: the
  command/acknowledge protocol of the controller, the streaming state kept
  between reads, the interrupt mask that is taken and given back around every
  access, and the DMA that delivers a sector. Every register access is a bus
  event; the two drain loops of \<^verbatim>\<open>psxcd_hw_stop\<close> have no bound in the source and
  are partial functions whose value \<open>None\<close> means that they do not return.
\<close>

abbreviation (input) CD0 :: u32 where "CD0 \<equiv> 0xbf801800"
abbreviation (input) CD1 :: u32 where "CD1 \<equiv> 0xbf801801"
abbreviation (input) CD2 :: u32 where "CD2 \<equiv> 0xbf801802"
abbreviation (input) CD3 :: u32 where "CD3 \<equiv> 0xbf801803"
abbreviation (input) CD_BUS_CFG :: u32 where "CD_BUS_CFG \<equiv> 0xbf801018"
abbreviation (input) CD_COM_DELAY :: u32 where "CD_COM_DELAY \<equiv> 0xbf801020"
abbreviation (input) IRQ_STAT :: u32 where "IRQ_STAT \<equiv> 0xbf801070"
abbreviation (input) IRQ_MASK :: u32 where "IRQ_MASK \<equiv> 0xbf801074"
abbreviation (input) D3_MADR :: u32 where "D3_MADR \<equiv> 0xbf8010b0"
abbreviation (input) D3_BCR :: u32 where "D3_BCR \<equiv> 0xbf8010b4"
abbreviation (input) D3_CHCR :: u32 where "D3_CHCR \<equiv> 0xbf8010b8"
abbreviation (input) DMA_DPCR :: u32 where "DMA_DPCR \<equiv> 0xbf8010f0"

abbreviation (input) CHCR_BUSY :: u32 where "CHCR_BUSY \<equiv> 0x01000000"
abbreviation (input) CHCR_CD_READ :: u32 where "CHCR_CD_READ \<equiv> 0x11000000"
abbreviation (input) HSTS_RSLRRDY :: u8 where "HSTS_RSLRRDY \<equiv> 0x20"
abbreviation (input) HSTS_DRQSTS :: u8 where "HSTS_DRQSTS \<equiv> 0x40"
abbreviation (input) HSTS_BUSYSTS :: u8 where "HSTS_BUSYSTS \<equiv> 0x80"
abbreviation (input) IRQ_CD :: u32 where "IRQ_CD \<equiv> 0x0004"

abbreviation (input) CDC_NOP :: u8 where "CDC_NOP \<equiv> 0x01"
abbreviation (input) CDC_SETLOC :: u8 where "CDC_SETLOC \<equiv> 0x02"
abbreviation (input) CDC_READN :: u8 where "CDC_READN \<equiv> 0x06"
abbreviation (input) CDC_PAUSE :: u8 where "CDC_PAUSE \<equiv> 0x09"
abbreviation (input) CDC_INIT :: u8 where "CDC_INIT \<equiv> 0x0a"
abbreviation (input) CDC_DEMUTE :: u8 where "CDC_DEMUTE \<equiv> 0x0c"
abbreviation (input) CDC_SETMODE :: u8 where "CDC_SETMODE \<equiv> 0x0e"

abbreviation (input) PSXCD_SECTOR :: nat where "PSXCD_SECTOR \<equiv> 2048"

text \<open>
  The driver's globals, beside the request queue and the bus. \<open>cd_mem\<close> is main
  memory by physical address; \<open>cd_dma\<close> is what the drive's DMA channel delivers
  for byte \<open>i\<close> of the block, given the bus history (\<open>None\<close>: that byte was not
  transferred). \<open>psxcd_probe_buf\<close> is the address of the scratch sector.
\<close>

record cd = blkq +
  psxcd_saved_mask :: u32
  psxcd_streaming :: bool
  psxcd_next_lba :: u32
  psxcd_present :: bool
  psxcd_base_lba :: u32
  psxcd_len_kb :: u32
  psxcd_base_forced :: bool
  psxcd_file_name :: "u8 list"
  psxcd_probe :: int
  psxcd_probe_buf :: u32
  cd_mem :: "u32 \<Rightarrow> u8"
  cd_dma :: "bus_trace \<Rightarrow> nat \<Rightarrow> u8 option"
  cd_listing :: "(u8 list \<times> bool \<times> u32 \<times> u32) list"
  psxcd_sizes :: u32
  psxcd_blocksizes :: u32
  psxcd_hardsects :: u32
  psxcd_use :: int

section \<open>The command protocol\<close>

definition cd_take_irq :: "'a cd_scheme \<Rightarrow> 'a cd_scheme" where
  "cd_take_irq s =
    (let (m, s) = in32 IRQ_MASK s;
         s = s\<lparr>psxcd_saved_mask := m\<rparr>
     in out32 IRQ_MASK (psxcd_saved_mask s AND NOT IRQ_CD) s)"

definition cd_release_irq :: "'a cd_scheme \<Rightarrow> 'a cd_scheme" where
  "cd_release_irq s =
    (let s = out32 IRQ_STAT (NOT IRQ_CD) s
     in out32 IRQ_MASK (psxcd_saved_mask s) s)"

fun cd_wait_busy_loop :: "nat \<Rightarrow> 'a hw_scheme \<Rightarrow> bool \<times> 'a hw_scheme" where
  "cd_wait_busy_loop n s =
    (if n = 0 then (False, s)
     else let (st, s) = in8 CD0 s in
          if st AND HSTS_BUSYSTS = 0 then (True, s) else cd_wait_busy_loop (n - 1) s)"

definition cd_wait_busy :: "'a hw_scheme \<Rightarrow> bool \<times> 'a hw_scheme" where
  "cd_wait_busy s = cd_wait_busy_loop 200000 s"

definition cd_int :: "'a hw_scheme \<Rightarrow> int \<times> 'a hw_scheme" where
  "cd_int s =
    (let s = out8 CD0 1 s;
         (v, s) = in8 CD3 s
     in (uint (v AND 7), s))"

definition cd_ack :: "'a hw_scheme \<Rightarrow> 'a hw_scheme" where
  "cd_ack s =
    (let s = out32 IRQ_STAT (NOT IRQ_CD) s;
         s = out8 CD0 1 s
     in out8 CD3 0x1f s)"

fun cd_wait_int :: "nat \<Rightarrow> 'a hw_scheme \<Rightarrow> int \<times> 'a hw_scheme" where
  "cd_wait_int spins s =
    (if spins = 0 then (- 1, s)
     else let (t, s) = cd_int s in
          if t \<noteq> 0 then (t, s) else cd_wait_int (spins - 1) s)"

fun cd_result :: "nat \<Rightarrow> 'a hw_scheme \<Rightarrow> u8 list \<times> 'a hw_scheme" where
  "cd_result mx s =
    (let (st, s) = in8 CD0 s in
     if st AND HSTS_RSLRRDY \<noteq> 0 \<and> mx \<noteq> 0
     then let (b, s) = in8 CD1 s; (bs, s) = cd_result (mx - 1) s in (b # bs, s)
     else ([], s))"

text \<open>
  \<^verbatim>\<open>cd_do\<close>: the interrupt number, or -1; the response bytes are \<open>None\<close> where the
  source leaves \<^verbatim>\<open>res\<close> and \<^verbatim>\<open>*nres\<close> untouched.
\<close>

definition cd_do :: "u8 \<Rightarrow> u8 list \<Rightarrow> nat \<Rightarrow> 'a hw_scheme \<Rightarrow> (int \<times> u8 list option) \<times> 'a hw_scheme" where
  "cd_do cmd par spins s =
    (let (ok, s) = cd_wait_busy s in
     if \<not> ok then ((- 1, None), s)
     else let s = out8 CD0 0 s;
              s = fold (out8 CD2) par s;
              s = out8 CD1 cmd s;
              (t, s) = cd_wait_int spins s in
          if t < 0 then ((- 1, None), s)
          else let (res, s) = cd_result 16 s;
                   s = cd_ack s
               in ((t, Some res), s))"

definition psxcd_hw_cmd :: "u8 \<Rightarrow> u8 list \<Rightarrow> 'a cd_scheme \<Rightarrow> (int \<times> u8 list option) \<times> 'a cd_scheme" where
  "psxcd_hw_cmd cmd par s =
    (let s = cd_take_irq s;
         (r, s) = cd_do cmd par 400000 s;
         s = cd_release_irq s
     in (r, s))"

definition psxcd_hw_init :: "'a cd_scheme \<Rightarrow> bool \<times> 'a cd_scheme" where
  "psxcd_hw_init s =
    (let s = cd_take_irq s;
         s = out32 CD_BUS_CFG 0x00020943 s;
         s = out32 CD_COM_DELAY 0x0000132c s;
         (d, s) = in32 DMA_DPCR s;
         s = out32 DMA_DPCR (d OR 0x00008000) s;
         s = out32 D3_CHCR 0 s;
         s = out8 CD0 0 s;
         s = out8 CD3 0 s;
         s = out8 CD0 1 s;
         s = out8 CD3 0x1f s;
         s = out8 CD2 0x1f s;
         ((t, _), s) = cd_do CDC_NOP [] 400000 s in
     if t < 0 then (False, cd_release_irq s)
     else let ((t, _), s) = cd_do CDC_NOP [] 400000 s in
     if t < 0 then (False, cd_release_irq s)
     else let ((t, _), s) = cd_do CDC_INIT [] 2000000 s;
              s = (if t = 3
                   then let (t2, s) = cd_wait_int 4000000 s in
                        if t2 > 0 then let (_, s) = cd_result 16 s in cd_ack s else s
                   else s);
              (_, s) = cd_do CDC_DEMUTE [] 400000 s;
              (_, s) = cd_do CDC_SETMODE [0x80] 400000 s;
              s = cd_release_irq s
          in (True, s\<lparr>psxcd_streaming := False, psxcd_present := True\<rparr>))"

section \<open>Stopping the drive\<close>

partial_function (option) cd_drain :: "'a hw_scheme \<Rightarrow> 'a hw_scheme option" where
  "cd_drain s =
    (case cd_int s of (t, s1) \<Rightarrow>
       if t = 0 then Some s1
       else cd_drain (cd_ack (snd (cd_result 16 s1))))"

definition psxcd_pause :: "'a hw_scheme \<Rightarrow> 'a hw_scheme" where
  "psxcd_pause s =
    (let ((t, _), s) = cd_do CDC_PAUSE [] 400000 s in
     if t = 3
     then let (_, s) = cd_wait_int 4000000 s; (_, s) = cd_result 16 s in cd_ack s
     else if t > 0
     then let (_, s) = cd_result 16 s;
              s = cd_ack s;
              (t2, s) = cd_wait_int 4000000 s in
          if t2 > 0 then let (_, s) = cd_result 16 s in cd_ack s else s
     else s)"

fun cd_cooldown :: "nat \<Rightarrow> 'a hw_scheme \<Rightarrow> 'a hw_scheme" where
  "cd_cooldown n s = (if n = 0 then s else cd_cooldown (n - 1) (delay 1000 s))"

definition psxcd_hw_stop :: "'a cd_scheme \<Rightarrow> 'a cd_scheme option" where
  "psxcd_hw_stop s =
    (if \<not> psxcd_streaming s then Some s
     else do {
       s \<leftarrow> cd_drain (cd_take_irq s);
       let s = cd_release_irq (psxcd_pause s);
       let s = s\<lparr>psxcd_streaming := False\<rparr>;
       let s = cd_cooldown (1300000 div 1000) s;
       s \<leftarrow> cd_drain (cd_take_irq s);
       Some (cd_release_irq s)
     })"

section \<open>Reading a sector\<close>

definition cd_bcd :: "u32 \<Rightarrow> u8" where
  "cd_bcd v = ucast (push_bit 4 (v div 10) OR (v mod 10))"

definition cd_lba_to_msf :: "u32 \<Rightarrow> u8 list" where
  "cd_lba_to_msf lba =
    (let t = lba + 150; m = t div (75 * 60); s = (t div 75) mod 60; f = t mod 75
     in [cd_bcd m, cd_bcd s, cd_bcd f])"

text \<open>The \<^verbatim>\<open>for (...) if (CD0 & HSTS_DRQSTS) break;\<close> loop, and its DMA sibling.\<close>

fun cd_wait_drq :: "nat \<Rightarrow> 'a hw_scheme \<Rightarrow> 'a hw_scheme" where
  "cd_wait_drq n s =
    (if n = 0 then s
     else let (st, s) = in8 CD0 s in
          if st AND HSTS_DRQSTS \<noteq> 0 then s else cd_wait_drq (n - 1) s)"

fun cd_wait_dma :: "nat \<Rightarrow> 'a hw_scheme \<Rightarrow> 'a hw_scheme" where
  "cd_wait_dma n s =
    (if n = 0 then s
     else let (st, s) = in32 D3_CHCR s in
          if st AND CHCR_BUSY = 0 then s else cd_wait_dma (n - 1) s)"

text \<open>
  The effect of DMA channel 3 on memory once the driver has finished polling
  it: byte \<open>i\<close> of the 2048-byte block lands at \<open>MADR + i\<close> if the device
  delivered it.
\<close>

definition dma3_deliver :: "u32 \<Rightarrow> 'a cd_scheme \<Rightarrow> 'a cd_scheme" where
  "dma3_deliver madr s =
    s\<lparr>cd_mem := (\<lambda>a. if unat (a - madr) < PSXCD_SECTOR
                     then (case cd_dma s (hw_trace s) (unat (a - madr)) of
                             None \<Rightarrow> cd_mem s a | Some b \<Rightarrow> b)
                     else cd_mem s a)\<rparr>"

text \<open>Lines 389-393: leave the old position, giving the mask back around the stop.\<close>

definition psxcd_unstream :: "'a cd_scheme \<Rightarrow> 'a cd_scheme option" where
  "psxcd_unstream s =
    (if psxcd_streaming s
     then do { s \<leftarrow> psxcd_hw_stop (cd_release_irq s); Some (cd_take_irq s) }
     else Some s)"

text \<open>Lines 395-412: Setloc, then ReadN.\<close>

definition psxcd_setloc_readn :: "u32 \<Rightarrow> 'a cd_scheme \<Rightarrow> bool \<times> 'a cd_scheme" where
  "psxcd_setloc_readn lba s =
    (let ((t, _), s) = cd_do CDC_SETLOC (cd_lba_to_msf lba) 400000 s in
     if t \<noteq> 3 then (False, cd_release_irq s)
     else let ((t, _), s) = cd_do CDC_READN [] 400000 s in
          if t \<noteq> 3 then (False, cd_release_irq s)
          else (True, s\<lparr>psxcd_streaming := True\<rparr>))"

text \<open>Lines 389-413: bring the drive to stream from \<open>lba\<close>, unless it already does.\<close>

definition psxcd_seek :: "u32 \<Rightarrow> 'a cd_scheme \<Rightarrow> (bool \<times> 'a cd_scheme) option" where
  "psxcd_seek lba s =
    (if \<not> psxcd_streaming s \<or> lba \<noteq> psxcd_next_lba s
     then do { s \<leftarrow> psxcd_unstream s; Some (psxcd_setloc_readn lba s) }
     else Some (True, s))"

text \<open>Lines 426-440: request the sector, wait for the FIFO, and look at the status once more.\<close>

definition cd_request_data :: "'a hw_scheme \<Rightarrow> u8 \<times> 'a hw_scheme" where
  "cd_request_data s =
    (let (_, s) = cd_result 16 s;
         s = out8 CD0 0 s; (_, s) = in8 CD0 s;
         s = out8 CD3 0 s; (_, s) = in8 CD3 s;
         s = out8 CD0 0 s;
         s = out8 CD3 0x80 s;
         s = cd_wait_drq 200000 s
     in in8 CD0 s)"

text \<open>Lines 449-456: start channel 3 and poll it; the channel control word read last.\<close>

definition cd_dma_read :: "u32 \<Rightarrow> 'a hw_scheme \<Rightarrow> u32 \<times> 'a hw_scheme" where
  "cd_dma_read madr s =
    (let s = out32 D3_MADR madr s;
         s = out32 D3_BCR 0x00010200 s;
         s = out32 D3_CHCR CHCR_CD_READ s;
         s = cd_wait_dma 2000000 s
     in in32 D3_CHCR s)"

text \<open>Lines 419-471: wait for the sector, request it, transfer it by DMA.\<close>

definition psxcd_fetch :: "u32 \<Rightarrow> u32 \<Rightarrow> 'a cd_scheme \<Rightarrow> bool \<times> 'a cd_scheme" where
  "psxcd_fetch lba buf s =
    (let (t, s) = cd_wait_int 8000000 s in
     if t \<noteq> 1 then (False, cd_release_irq (s\<lparr>psxcd_streaming := False\<rparr>))
     else
     let (st, s) = cd_request_data s in
     if st AND HSTS_DRQSTS = 0
     then (False, cd_release_irq ((cd_ack s)\<lparr>psxcd_streaming := False\<rparr>))
     else
     let (c, s) = cd_dma_read (buf AND 0x00ffffff) s;
         s = dma3_deliver (buf AND 0x00ffffff) s in
     if c AND CHCR_BUSY \<noteq> 0
     then (False, cd_release_irq ((cd_ack s)\<lparr>psxcd_streaming := False\<rparr>))
     else
     let s = cd_ack s;
         s = cd_release_irq s
     in (True, s\<lparr>psxcd_next_lba := lba + 1\<rparr>))"

definition psxcd_hw_read :: "u32 \<Rightarrow> u32 \<Rightarrow> 'a cd_scheme \<Rightarrow> (bool \<times> 'a cd_scheme) option" where
  "psxcd_hw_read lba buf s =
    do {
      (ok, s) \<leftarrow> psxcd_seek lba (cd_take_irq s);
      Some (if ok then psxcd_fetch lba buf s else (False, s))
    }"

declare cd_wait_busy_loop.simps [simp del]
declare cd_wait_int.simps [simp del]
declare cd_result.simps [simp del]
declare cd_cooldown.simps [simp del]
declare cd_wait_drq.simps [simp del]
declare cd_wait_dma.simps [simp del]

section \<open>What the polling primitives may do\<close>

text \<open>
  A polling event touches neither the interrupt mask nor the command and
  parameter ports.
\<close>

fun cd_poll :: "bus_event \<Rightarrow> bool" where
  "cd_poll (Rd a v) = (a \<noteq> IRQ_MASK)"
| "cd_poll (Wr a v) = (a \<noteq> IRQ_MASK \<and> a \<noteq> CD1 \<and> a \<noteq> CD2)"
| "cd_poll (Delay n) = True"

lemma cd_poll_not:
  "cd_poll e \<Longrightarrow> \<not> wr_in {IRQ_MASK} e" "cd_poll e \<Longrightarrow> \<not> rd_in {IRQ_MASK} e"
  "cd_poll e \<Longrightarrow> \<not> wr_in {CD1} e" "cd_poll e \<Longrightarrow> \<not> wr_in {CD2} e"
  by (cases e; simp)+

lemmas cd_poll_view =
  emits_writes [where P = cd_poll and a = IRQ_MASK, OF _ cd_poll_not(1)]
  emits_reads [where P = cd_poll and a = IRQ_MASK, OF _ cd_poll_not(2)]
  emits_writes [where P = cd_poll and a = CD1, OF _ cd_poll_not(3)]
  emits_writes [where P = cd_poll and a = CD2, OF _ cd_poll_not(4)]

lemma emits_step: "emits P (emit e s) s' \<Longrightarrow> P e \<Longrightarrow> emits P s s'"
  by (rule emits_trans [OF emits_emit])

lemma emits_emitI: "emits P s s' \<Longrightarrow> P e \<Longrightarrow> emits P s (emit e s')"
  by (rule emits_trans [OF _ emits_emit])

lemma cd_wait_busy_loop_poll: "emits cd_poll s (snd (cd_wait_busy_loop n s))"
proof (induction n arbitrary: s)
  case (Suc n)
  show ?case
    by (subst cd_wait_busy_loop.simps) (auto simp: bus_defs split_beta intro!: emits_emitI emits_step [OF Suc])
qed (simp add: cd_wait_busy_loop.simps bus_defs)

lemma cd_int_poll: "emits cd_poll s (snd (cd_int s))"
  by (auto simp: cd_int_def bus_defs intro!: emits_emitI dest!: emits_step)

lemma cd_ack_poll: "emits cd_poll s (cd_ack s)"
  by (auto simp: cd_ack_def bus_defs intro!: emits_emitI dest!: emits_step)

lemma cd_wait_int_poll: "emits cd_poll s (snd (cd_wait_int n s))"
proof (induction n s rule: cd_wait_int.induct)
  case (1 n s)
  show ?case
  proof (cases "n = 0 \<or> fst (cd_int s) \<noteq> 0")
    case True
    then show ?thesis
      by (subst cd_wait_int.simps) (auto simp: Let_def split_beta cd_int_poll)
  next
    case False
    then have "emits cd_poll (snd (cd_int s)) (snd (cd_wait_int (n - 1) (snd (cd_int s))))"
      using "1.IH" by (metis prod.collapse)
    then have "emits cd_poll s (snd (cd_wait_int (n - 1) (snd (cd_int s))))"
      by (rule emits_trans [OF cd_int_poll])
    then show ?thesis
      using False by (subst cd_wait_int.simps) (simp add: Let_def split_beta)
  qed
qed

lemma cd_result_poll: "emits cd_poll s (snd (cd_result n s))"
proof (induction n arbitrary: s)
  case (Suc n)
  show ?case
    by (subst cd_result.simps) (auto simp: bus_defs split_beta intro!: emits_emitI emits_step [OF emits_step [OF Suc]])
qed (simp add: cd_result.simps bus_defs)

lemma cd_wait_drq_poll: "emits cd_poll s (cd_wait_drq n s)"
proof (induction n arbitrary: s)
  case (Suc n)
  show ?case
    by (subst cd_wait_drq.simps) (auto simp: bus_defs split_beta intro!: emits_emitI emits_step [OF Suc])
qed (simp add: cd_wait_drq.simps bus_defs)

lemma cd_wait_dma_poll: "emits cd_poll s (cd_wait_dma n s)"
proof (induction n arbitrary: s)
  case (Suc n)
  show ?case
    by (subst cd_wait_dma.simps) (auto simp: bus_defs split_beta intro!: emits_emitI emits_step [OF Suc])
qed (simp add: cd_wait_dma.simps bus_defs)

lemma cd_drain_poll:
  assumes "cd_drain s = Some s'"
  shows "emits cd_poll s s'"
proof (rule cd_drain.raw_induct [OF _ assms], goal_cases)
  case (1 f s s')
  show ?case
  proof (cases "fst (cd_int s) = 0")
    case True
    then show ?thesis
      using "1"(2) cd_int_poll [of s] by (auto simp: split_beta)
  next
    case False
    then have "emits cd_poll (cd_ack (snd (cd_result 16 (snd (cd_int s))))) s'"
      using 1 by (auto simp: split_beta)
    then show ?thesis
      by (blast intro: emits_trans cd_int_poll cd_result_poll cd_ack_poll)
  qed
qed

lemma cd_cooldown_poll: "emits cd_poll s (cd_cooldown n s)"
proof (induction n arbitrary: s)
  case (Suc n)
  show ?case
    by (subst cd_cooldown.simps) (auto simp: bus_defs intro!: emits_step [OF Suc])
qed (simp add: cd_cooldown.simps)

lemma cd_request_data_poll: "emits cd_poll s (snd (cd_request_data s))"
  by (auto simp: cd_request_data_def bus_defs split_beta
      intro!: emits_emitI emits_trans [OF _ cd_wait_drq_poll] cd_result_poll)

lemma cd_dma_read_poll: "emits cd_poll s (snd (cd_dma_read madr s))"
  by (auto simp: cd_dma_read_def bus_defs split_beta
      intro!: emits_emitI emits_trans [OF _ cd_wait_dma_poll])

section \<open>The commands an operation sends\<close>

text \<open>
  \<open>cd_ev s c p s'\<close>: from \<open>s\<close> to \<open>s'\<close> the driver wrote the command bytes \<open>c\<close> and
  the parameter bytes \<open>p\<close>, left the interrupt mask alone and changed none of its
  globals.
\<close>

definition cd_ev :: "'a hw_scheme \<Rightarrow> u32 list \<Rightarrow> u32 list \<Rightarrow> 'a hw_scheme \<Rightarrow> bool" where
  "cd_ev s c p s' \<longleftrightarrow> hw.more s' = hw.more s \<and> hw_env s' = hw_env s \<and>
     writes IRQ_MASK (hw_trace s') = writes IRQ_MASK (hw_trace s) \<and>
     writes CD1 (hw_trace s') = writes CD1 (hw_trace s) @ c \<and>
     writes CD2 (hw_trace s') = writes CD2 (hw_trace s) @ p"

lemma cd_ev_poll: "emits cd_poll s s' \<Longrightarrow> cd_ev s [] [] s'"
  by (simp add: cd_ev_def cd_poll_view emits_more emits_env)

lemma cd_ev_trans: "cd_ev s c p s' \<Longrightarrow> cd_ev s' c' p' s'' \<Longrightarrow> cd_ev s (c @ c') (p @ p') s''"
  by (simp add: cd_ev_def)

lemma cd_ev_quiet_l: "cd_ev s [] [] s' \<Longrightarrow> cd_ev s' c p s'' \<Longrightarrow> cd_ev s c p s''"
  by (simp add: cd_ev_def)

lemma cd_ev_quiet_r: "cd_ev s c p s' \<Longrightarrow> cd_ev s' [] [] s'' \<Longrightarrow> cd_ev s c p s''"
  by (simp add: cd_ev_def)

lemmas cd_ev_int = cd_int_poll [THEN cd_ev_poll]
lemmas cd_ev_ack = cd_ack_poll [THEN cd_ev_poll]
lemmas cd_ev_wait_int = cd_wait_int_poll [THEN cd_ev_poll]
lemmas cd_ev_result = cd_result_poll [THEN cd_ev_poll]
lemmas cd_ev_wait_busy = cd_wait_busy_loop_poll [THEN cd_ev_poll]
lemmas cd_ev_cooldown = cd_cooldown_poll [THEN cd_ev_poll]
lemmas cd_ev_request = cd_request_data_poll [THEN cd_ev_poll]
lemmas cd_ev_dma = cd_dma_read_poll [THEN cd_ev_poll]
lemmas cd_ev_drain = cd_drain_poll [THEN cd_ev_poll]

lemma cd_ev_params: "cd_ev s [] (map ucast par) (fold (out8 CD2) par s)"
proof (induction par arbitrary: s)
  case (Cons b bs)
  have "cd_ev s [] [ucast b] (out8 CD2 b s)"
    by (simp add: cd_ev_def bus_defs)
  from cd_ev_trans [OF this Cons] show ?case
    by simp
qed (simp add: cd_ev_def)

lemma cd_ev_command:
  "cd_ev s [ucast cmd] (map ucast par) (out8 CD1 cmd (fold (out8 CD2) par (out8 CD0 0 s)))"
proof -
  have first: "cd_ev s [] [] (out8 CD0 0 s)" and last: "\<And>s. cd_ev s [ucast cmd] [] (out8 CD1 cmd s)"
    by (simp_all add: cd_ev_def bus_defs)
  from cd_ev_trans [OF cd_ev_params last] show ?thesis
    by (auto intro: cd_ev_quiet_l [OF first])
qed

text \<open>
  Every command either goes out with its parameters in order, or is not sent at
  all because the controller stayed busy, and then \<^verbatim>\<open>cd_do\<close> reports -1.
\<close>

lemma cd_do_ev:
  assumes "cd_do cmd par n s = ((t, r), s')"
  shows "cd_ev s [ucast cmd] (map ucast par) s' \<or> (t = - 1 \<and> cd_ev s [] [] s')"
proof -
  obtain ok s1 where b: "cd_wait_busy s = (ok, s1)"
    by fastforce
  have e1: "cd_ev s [] [] s1"
    using cd_ev_wait_busy [of s 200000] b by (simp add: cd_wait_busy_def)
  show ?thesis
  proof (cases ok)
    case False
    then show ?thesis
      using assms b e1 by (auto simp: cd_do_def)
  next
    case True
    let ?s2 = "out8 CD1 cmd (fold (out8 CD2) par (out8 CD0 0 s1))"
    obtain t' s3 where w: "cd_wait_int n ?s2 = (t', s3)"
      by fastforce
    have "cd_ev ?s2 [] [] s3"
      using cd_ev_wait_int [of ?s2 n] w by simp
    then have e3: "cd_ev s [ucast cmd] (map ucast par) s3"
      by (rule cd_ev_quiet_r [OF cd_ev_quiet_l [OF e1 cd_ev_command]])
    moreover have "cd_ev s3 [] [] (cd_ack (snd (cd_result 16 s3)))"
      using cd_ev_quiet_l [OF cd_ev_result cd_ev_ack] .
    ultimately show ?thesis
      using assms b True w cd_ev_quiet_r [OF e3]
      by (auto simp: cd_do_def Let_def split_beta split: if_splits)
  qed
qed

lemma psxcd_pause_ev:
  "\<exists>c. cd_ev s c [] (psxcd_pause s) \<and> (c = [] \<or> c = [ucast CDC_PAUSE])"
proof -
  obtain t r s1 where d: "cd_do CDC_PAUSE [] 400000 s = ((t, r), s1)"
    by (cases "cd_do CDC_PAUSE [] 400000 s") auto
  have tail: "cd_ev s1 [] [] (psxcd_pause s)"
    using d
    by (auto simp: psxcd_pause_def Let_def split_beta cd_ev_def
        cd_ack_poll [THEN cd_ev_poll, unfolded cd_ev_def] cd_result_poll [THEN cd_ev_poll, unfolded cd_ev_def]
        cd_wait_int_poll [THEN cd_ev_poll, unfolded cd_ev_def])
  show ?thesis
    using cd_do_ev [OF d] cd_ev_quiet_r [OF _ tail] by auto
qed

section \<open>What a read leaves alone\<close>

text \<open>
  The globals the hardware layer owns are the saved mask, the streaming state
  and the position; reading also fills memory. Everything else is untouched.
\<close>

definition cd_same :: "'a cd_scheme \<Rightarrow> 'a cd_scheme \<Rightarrow> bool" where
  "cd_same s s' \<longleftrightarrow>
     s' = s\<lparr>hw_trace := hw_trace s', psxcd_saved_mask := psxcd_saved_mask s',
            psxcd_streaming := psxcd_streaming s', psxcd_next_lba := psxcd_next_lba s',
            cd_mem := cd_mem s'\<rparr>"

lemma cd_same_refl [simp]: "cd_same s s"
  by (simp add: cd_same_def)

lemma cd_same_iff:
  "cd_same s s' \<longleftrightarrow> hw_env s' = hw_env s \<and> rq_queue s' = rq_queue s \<and> rq_done s' = rq_done s \<and>
     psxcd_present s' = psxcd_present s \<and> psxcd_base_lba s' = psxcd_base_lba s \<and>
     psxcd_len_kb s' = psxcd_len_kb s \<and> psxcd_base_forced s' = psxcd_base_forced s \<and>
     psxcd_file_name s' = psxcd_file_name s \<and> psxcd_probe s' = psxcd_probe s \<and>
     psxcd_probe_buf s' = psxcd_probe_buf s \<and> cd_dma s' = cd_dma s \<and> cd_listing s' = cd_listing s \<and>
     psxcd_sizes s' = psxcd_sizes s \<and> psxcd_blocksizes s' = psxcd_blocksizes s \<and>
     psxcd_hardsects s' = psxcd_hardsects s \<and> psxcd_use s' = psxcd_use s \<and> cd.more s' = cd.more s"
  by (cases s; cases s') (auto simp: cd_same_def)

lemma cd_same_fields:
  assumes "cd_same s s'"
  shows "hw_env s' = hw_env s" "rq_queue s' = rq_queue s" "rq_done s' = rq_done s"
    "psxcd_present s' = psxcd_present s" "psxcd_base_lba s' = psxcd_base_lba s"
    "psxcd_len_kb s' = psxcd_len_kb s" "psxcd_base_forced s' = psxcd_base_forced s"
    "psxcd_file_name s' = psxcd_file_name s" "psxcd_probe s' = psxcd_probe s"
    "psxcd_probe_buf s' = psxcd_probe_buf s" "cd_dma s' = cd_dma s" "cd_listing s' = cd_listing s"
    "psxcd_sizes s' = psxcd_sizes s" "psxcd_blocksizes s' = psxcd_blocksizes s"
    "psxcd_hardsects s' = psxcd_hardsects s" "psxcd_use s' = psxcd_use s" "cd.more s' = cd.more s"
  using assms by (simp_all add: cd_same_iff)

lemma cd_same_trans [trans]: "cd_same s s' \<Longrightarrow> cd_same s' s'' \<Longrightarrow> cd_same s s''"
  by (simp add: cd_same_iff)

lemma hw_more_cd:
  assumes "hw.more s' = hw.more (s :: 'a cd_scheme)" "hw_env s' = hw_env s"
  shows "cd_same s s'" "psxcd_streaming s' = psxcd_streaming s"
    "psxcd_next_lba s' = psxcd_next_lba s" "cd_mem s' = cd_mem s" "psxcd_saved_mask s' = psxcd_saved_mask s"
  using assms by (cases s; cases s'; simp add: cd_same_def)+

lemma cd_ev_cd:
  assumes "cd_ev s c p (s' :: 'a cd_scheme)"
  shows "cd_same s s'" "psxcd_streaming s' = psxcd_streaming s"
    "psxcd_next_lba s' = psxcd_next_lba s" "cd_mem s' = cd_mem s" "psxcd_saved_mask s' = psxcd_saved_mask s"
  using assms hw_more_cd [of s' s] by (simp_all add: cd_ev_def)

abbreviation mask_now :: "'a hw_scheme \<Rightarrow> u32" where
  "mask_now s \<equiv> hw_env s (hw_trace s) IRQ_MASK"

lemma cd_take_irq_eq:
  "cd_take_irq s = s\<lparr>hw_trace := Wr IRQ_MASK (mask_now s AND NOT IRQ_CD) # Rd IRQ_MASK (mask_now s) # hw_trace s,
                     psxcd_saved_mask := mask_now s\<rparr>"
  by (simp add: cd_take_irq_def bus_defs emit_def)

lemma cd_release_irq_eq:
  "cd_release_irq s = s\<lparr>hw_trace := Wr IRQ_MASK (psxcd_saved_mask s) # Wr IRQ_STAT (NOT IRQ_CD) # hw_trace s\<rparr>"
  by (simp add: cd_release_irq_def bus_defs emit_def)

lemma cd_take_release_streaming [simp]:
  "psxcd_streaming (cd_take_irq s) = psxcd_streaming s"
  "psxcd_streaming (cd_release_irq s) = psxcd_streaming s"
  by (simp_all add: cd_take_irq_eq cd_release_irq_eq)

lemma cd_take_release_same [simp]: "cd_same s (cd_take_irq s)" "cd_same s (cd_release_irq s)"
  by (simp_all add: cd_same_def cd_take_irq_eq cd_release_irq_eq)

text \<open>
  \<open>cd_cmds s c p s'\<close>: command bytes \<open>c\<close> and parameter bytes \<open>p\<close> were written;
  memory and the position are unchanged. Unlike \<^const>\<open>cd_ev\<close> it allows the mask to
  be taken and released and the streaming flag to change.
\<close>

definition cd_cmds :: "'a cd_scheme \<Rightarrow> u32 list \<Rightarrow> u32 list \<Rightarrow> 'a cd_scheme \<Rightarrow> bool" where
  "cd_cmds s c p s' \<longleftrightarrow> cd_same s s' \<and> cd_mem s' = cd_mem s \<and> psxcd_next_lba s' = psxcd_next_lba s \<and>
     writes CD1 (hw_trace s') = writes CD1 (hw_trace s) @ c \<and>
     writes CD2 (hw_trace s') = writes CD2 (hw_trace s) @ p"

lemma cd_cmds_trans: "cd_cmds s c p s' \<Longrightarrow> cd_cmds s' c' p' s'' \<Longrightarrow> cd_cmds s (c @ c') (p @ p') s''"
  by (auto simp: cd_cmds_def intro: cd_same_trans)

lemma cd_cmds_ev: "cd_ev s c p s' \<Longrightarrow> cd_cmds s c p s'"
  by (simp add: cd_cmds_def cd_ev_cd) (simp add: cd_ev_def)

lemma cd_cmds_quiet [simp]:
  "cd_cmds s [] [] (cd_take_irq s)" "cd_cmds s [] [] (cd_release_irq s)"
  "cd_cmds s [] [] (s\<lparr>psxcd_streaming := b\<rparr>)" "cd_cmds s [] [] s"
  by (simp_all add: cd_cmds_def) (simp_all add: cd_same_iff cd_take_irq_eq cd_release_irq_eq)

lemma cd_cmds_quiet_r: "cd_cmds s c p s' \<Longrightarrow> cd_cmds s' [] [] s'' \<Longrightarrow> cd_cmds s c p s''"
  using cd_cmds_trans by fastforce

lemma cd_cmds_quiet_l: "cd_cmds s [] [] s' \<Longrightarrow> cd_cmds s' c p s'' \<Longrightarrow> cd_cmds s c p s''"
  using cd_cmds_trans by fastforce

lemma cd_cooldown_streaming [simp]:
  "psxcd_streaming (cd_cooldown n s) = psxcd_streaming s"
  by (rule cd_ev_cd(2) [OF cd_ev_cooldown])

lemma cd_do_cmds:
  assumes "cd_do cmd par n s = ((t, r), s')"
  obtains "cd_cmds s [ucast cmd] (map ucast par) s'" "psxcd_streaming s' = psxcd_streaming s"
  | "t = - 1" "cd_cmds s [] [] s'" "psxcd_streaming s' = psxcd_streaming s"
  using cd_do_ev [OF assms] cd_cmds_ev cd_ev_cd(2) by metis

lemma psxcd_hw_stop_cmds:
  assumes "psxcd_hw_stop s = Some s'"
  shows "\<not> psxcd_streaming s' \<and>
    (\<exists>c. cd_cmds s c [] s' \<and> (c = [] \<or> psxcd_streaming s \<and> c = [ucast CDC_PAUSE]))"
proof (cases "psxcd_streaming s")
  case False
  then show ?thesis
    using assms by (auto simp: psxcd_hw_stop_def)
next
  case True
  let ?r = "\<lambda>s1. (cd_release_irq (psxcd_pause s1))\<lparr>psxcd_streaming := False\<rparr>"
  obtain s1 s2 where d1: "cd_drain (cd_take_irq s) = Some s1"
    and d2: "cd_drain (cd_take_irq (cd_cooldown 1300 (?r s1))) = Some s2" and s': "s' = cd_release_irq s2"
    using assms True by (auto simp: psxcd_hw_stop_def Let_def bind_eq_Some_conv)
  obtain c where c: "cd_ev s1 c [] (psxcd_pause s1)" "c = [] \<or> c = [ucast CDC_PAUSE]"
    using psxcd_pause_ev by blast
  note quiet = cd_cmds_quiet(1) cd_cmds_ev [OF cd_ev_drain [OF d2]] cd_cmds_quiet(2)
  have "cd_cmds s c [] (psxcd_pause s1)"
    using cd_cmds_quiet_l [OF cd_cmds_quiet(1) cd_cmds_quiet_l [OF cd_cmds_ev [OF cd_ev_drain [OF d1]]
          cd_cmds_ev [OF c(1)]]] .
  then have "cd_cmds s c [] (cd_cooldown 1300 (?r s1))"
    by (rule cd_cmds_quiet_r [OF cd_cmds_quiet_r [OF cd_cmds_quiet_r]])
       (rule cd_cmds_quiet cd_cmds_ev [OF cd_ev_cooldown])+
  then have "cd_cmds s c [] s'"
    unfolding s'
    by (rule cd_cmds_quiet_r [OF cd_cmds_quiet_r [OF cd_cmds_quiet_r]]) (rule quiet)+
  moreover have "\<not> psxcd_streaming s'"
    using cd_ev_cd(2) [OF cd_ev_drain [OF d2]]
    by (simp add: s')
  ultimately show ?thesis
    using c(2) True by blast
qed

definition cd_sequential :: "u32 \<Rightarrow> 'a cd_scheme \<Rightarrow> bool" where
  "cd_sequential lba s \<longleftrightarrow> psxcd_streaming s \<and> lba = psxcd_next_lba s"

lemma cd_sequential_take [simp]: "cd_sequential lba (cd_take_irq s) = cd_sequential lba s"
  by (simp add: cd_sequential_def cd_take_irq_eq)

text \<open>The parameter bytes of the command sequence \<open>ss\<close>: those of Setloc, if it was sent.\<close>

definition cd_setloc_params :: "u32 \<Rightarrow> u32 list \<Rightarrow> u32 list" where
  "cd_setloc_params lba ss = (if ss = [] then [] else map ucast (cd_lba_to_msf lba))"

lemma psxcd_unstream_cmds:
  assumes "psxcd_unstream s = Some s'"
  obtains p where "cd_cmds s p [] s'" "p = [] \<or> psxcd_streaming s \<and> p = [ucast CDC_PAUSE]"
    "\<not> psxcd_streaming s'"
proof (cases "psxcd_streaming s")
  case True
  then obtain s0 where st: "psxcd_hw_stop (cd_release_irq s) = Some s0" and s': "s' = cd_take_irq s0"
    using assms by (auto simp: psxcd_unstream_def bind_eq_Some_conv)
  from psxcd_hw_stop_cmds [OF st] obtain c where c: "cd_cmds (cd_release_irq s) c [] s0"
    "c = [] \<or> c = [ucast CDC_PAUSE]" "\<not> psxcd_streaming s0"
    by auto
  have "cd_cmds s c [] s'"
    unfolding s' using cd_cmds_quiet_r [OF cd_cmds_quiet_l [OF cd_cmds_quiet(2) c(1)] cd_cmds_quiet(1)] .
  then show ?thesis
    using c True by (intro that) (simp_all add: s')
next
  case False
  then show ?thesis
    using assms by (intro that [of "[]"]) (simp_all add: psxcd_unstream_def)
qed

lemma psxcd_setloc_readn_cmds:
  assumes "psxcd_setloc_readn lba s = (ok, s')" "\<not> psxcd_streaming s"
  obtains ss where "cd_cmds s ss (cd_setloc_params lba ss) s'"
    "ss = [] \<or> ss = [ucast CDC_SETLOC] \<or> ss = [ucast CDC_SETLOC, ucast CDC_READN]"
    "ok \<longrightarrow> ss = [ucast CDC_SETLOC, ucast CDC_READN]" "psxcd_streaming s' = ok"
proof -
  obtain t r s2 where d1: "cd_do CDC_SETLOC (cd_lba_to_msf lba) 400000 s = ((t, r), s2)"
    by (cases "cd_do CDC_SETLOC (cd_lba_to_msf lba) 400000 s") auto
  obtain t2 r2 s3 where d2: "cd_do CDC_READN [] 400000 s2 = ((t2, r2), s3)"
    by (cases "cd_do CDC_READN [] 400000 s2") auto
  have res: "(ok, s') = (if t \<noteq> 3 then (False, cd_release_irq s2)
      else if t2 \<noteq> 3 then (False, cd_release_irq s3) else (True, s3\<lparr>psxcd_streaming := True\<rparr>))"
    by (simp add: assms(1) [symmetric] psxcd_setloc_readn_def d1 d2)
  note rel = cd_cmds_quiet_r [OF _ cd_cmds_quiet(2)]
  show ?thesis
    using d1
  proof (cases rule: cd_do_cmds)
    case set: 1
    have r2: "cd_cmds s [ucast CDC_SETLOC] (cd_setloc_params lba [ucast CDC_SETLOC]) (cd_release_irq s2)"
      using rel [OF set(1)] by (simp add: cd_setloc_params_def)
    show ?thesis
      using d2
    proof (cases rule: cd_do_cmds)
      case rdn: 1
      let ?ss = "[ucast CDC_SETLOC, ucast CDC_READN]"
      have s3: "cd_cmds s ?ss (cd_setloc_params lba ?ss) s3"
        using cd_cmds_trans [OF set(1) rdn(1)] by (simp add: cd_setloc_params_def)
      show ?thesis
      proof (cases "t = 3")
        case True
        then show ?thesis
          using res rel [OF s3] cd_cmds_quiet_r [OF s3 cd_cmds_quiet(3), of True] set(2) rdn(2) assms(2)
          by (cases "t2 = 3") (auto intro!: that [of ?ss])
      next
        case False
        then show ?thesis
          using res r2 set(2) assms(2) by (auto intro!: that [of "[ucast CDC_SETLOC]"])
      qed
    next
      case 2
      show ?thesis
        using res r2 set(1) set(2) 2 assms(2) rel [OF cd_cmds_quiet_r [OF set(1) 2(2)]]
        by (cases "t = 3") (auto intro!: that [of "[ucast CDC_SETLOC]"] simp: cd_setloc_params_def)
    qed
  next
    case 2
    show ?thesis
      using res 2 assms(2) rel [OF 2(2)] by (auto intro!: that [of "[]"] simp: cd_setloc_params_def)
  qed
qed

lemma psxcd_seek_cases:
  assumes "psxcd_seek lba s = Some (ok, s')"
  obtains (seq) "cd_sequential lba s" "ok" "s' = s"
  | (moved) p ss where "\<not> cd_sequential lba s" "cd_cmds s (p @ ss) (cd_setloc_params lba ss) s'"
      "p = [] \<or> psxcd_streaming s \<and> p = [ucast CDC_PAUSE]"
      "ss = [] \<or> ss = [ucast CDC_SETLOC] \<or> ss = [ucast CDC_SETLOC, ucast CDC_READN]"
      "ok \<longrightarrow> ss = [ucast CDC_SETLOC, ucast CDC_READN]" "psxcd_streaming s' = ok"
proof (cases "cd_sequential lba s")
  case True
  then show ?thesis
    using assms by (intro seq) (auto simp: psxcd_seek_def cd_sequential_def)
next
  case False
  then obtain s1 where u: "psxcd_unstream s = Some s1" and r: "psxcd_setloc_readn lba s1 = (ok, s')"
    using assms by (auto simp: psxcd_seek_def cd_sequential_def bind_eq_Some_conv)
  from u obtain p where p: "cd_cmds s p [] s1" "p = [] \<or> psxcd_streaming s \<and> p = [ucast CDC_PAUSE]"
    "\<not> psxcd_streaming s1"
    by (rule psxcd_unstream_cmds)
  from r p(3) show ?thesis
  proof (rule psxcd_setloc_readn_cmds)
    fix ss
    assume ss: "cd_cmds s1 ss (cd_setloc_params lba ss) s'"
    assume "ss = [] \<or> ss = [ucast CDC_SETLOC] \<or> ss = [ucast CDC_SETLOC, ucast CDC_READN]"
      "ok \<longrightarrow> ss = [ucast CDC_SETLOC, ucast CDC_READN]" "psxcd_streaming s' = ok"
    then show ?thesis
      using cd_cmds_trans [OF p(1) ss] by (intro moved [OF False _ p(2)]) simp_all
  qed
qed

text \<open>
  Lines 419-471: the outcomes of a fetch. No sector, no data or a stalled
  transfer on one side, a delivered sector on the other; no command in any.
\<close>

lemma psxcd_fetch_cases:
  assumes "psxcd_fetch lba buf s = (ok, s')"
  obtains
    (nodata) s1 where "\<not> ok" "cd_ev s [] [] s1" "s' = cd_release_irq (s1\<lparr>psxcd_streaming := False\<rparr>)"
  | (stalled) s3 s4 where "\<not> ok" "cd_ev s [] [] s3" "cd_ev (dma3_deliver (buf AND 0x00ffffff) s3) [] [] s4"
      "s' = cd_release_irq (s4\<lparr>psxcd_streaming := False\<rparr>)"
  | (sector) s3 s4 where "ok" "cd_ev s [] [] s3" "cd_ev (dma3_deliver (buf AND 0x00ffffff) s3) [] [] s4"
      "s' = (cd_release_irq s4)\<lparr>psxcd_next_lba := lba + 1\<rparr>"
proof -
  obtain t s1 where w: "cd_wait_int 8000000 s = (t, s1)"
    by fastforce
  obtain st s2 where r: "cd_request_data s1 = (st, s2)"
    by fastforce
  obtain c s3 where d: "cd_dma_read (buf AND 0x00ffffff) s2 = (c, s3)"
    by fastforce
  let ?s4 = "dma3_deliver (buf AND 0x00ffffff) s3"
  have e1: "cd_ev s [] [] s1" and e2: "cd_ev s1 [] [] s2" and e3: "cd_ev s2 [] [] s3"
    using cd_ev_wait_int [of s 8000000] cd_ev_request [of s1] cd_ev_dma [of s2 "buf AND 0x00ffffff"] w r d by auto
  note ee2 = cd_ev_quiet_l [OF e1 e2]
  note ee3 = cd_ev_quiet_l [OF ee2 e3]
  have "(ok, s') = (if t \<noteq> 1 then (False, cd_release_irq (s1\<lparr>psxcd_streaming := False\<rparr>))
     else if st AND HSTS_DRQSTS = 0 then (False, cd_release_irq ((cd_ack s2)\<lparr>psxcd_streaming := False\<rparr>))
     else if c AND CHCR_BUSY \<noteq> 0 then (False, cd_release_irq ((cd_ack ?s4)\<lparr>psxcd_streaming := False\<rparr>))
     else (True, (cd_release_irq (cd_ack ?s4))\<lparr>psxcd_next_lba := lba + 1\<rparr>))"
    by (simp add: assms(1) [symmetric] psxcd_fetch_def w r d Let_def)
  then show ?thesis
    using nodata [OF _ e1] nodata [OF _ cd_ev_quiet_r [OF ee2 cd_ev_ack]]
      stalled [OF _ ee3 cd_ev_ack] sector [OF _ ee3 cd_ev_ack]
    by (metis prod.inject)
qed

lemma dma3_deliver_fields [simp]:
  "cd_same s (dma3_deliver madr s)" "psxcd_streaming (dma3_deliver madr s) = psxcd_streaming s"
  "psxcd_next_lba (dma3_deliver madr s) = psxcd_next_lba s" "hw_trace (dma3_deliver madr s) = hw_trace s"
  "psxcd_saved_mask (dma3_deliver madr s) = psxcd_saved_mask s"
  by (simp_all add: dma3_deliver_def cd_same_def)

lemma dma3_deliver_frame:
  "unat (a - madr) \<ge> PSXCD_SECTOR \<Longrightarrow> cd_mem (dma3_deliver madr s) a = cd_mem s a"
  by (simp add: dma3_deliver_def)

lemma psxcd_fetch_contract:
  assumes "psxcd_fetch lba buf s = (ok, s')" "psxcd_streaming s"
  shows "cd_same s s' \<and>
    writes CD1 (hw_trace s') = writes CD1 (hw_trace s) \<and> writes CD2 (hw_trace s') = writes CD2 (hw_trace s) \<and>
    psxcd_streaming s' = ok \<and> psxcd_next_lba s' = (if ok then lba + 1 else psxcd_next_lba s) \<and>
    (\<forall>a. unat (a - (buf AND 0x00ffffff)) \<ge> PSXCD_SECTOR \<longrightarrow> cd_mem s' a = cd_mem s a)"
  using assms(1)
proof (cases rule: psxcd_fetch_cases)
  case (nodata s1)
  note f = cd_ev_cd [OF nodata(2)]
  show ?thesis
    using nodata f
    by (simp add: cd_ev_def) (simp add: cd_release_irq_eq cd_same_iff)
next
  case (stalled s3 s4)
  note f = cd_ev_cd [OF stalled(2)] and g = cd_ev_cd [OF stalled(3)]
  note sm = cd_same_trans [OF f(1) cd_same_trans [OF dma3_deliver_fields(1) g(1)]]
  show ?thesis
    using stalled f g sm by (simp add: cd_ev_def) (simp add: cd_release_irq_eq cd_same_iff dma3_deliver_frame)
next
  case (sector s3 s4)
  note f = cd_ev_cd [OF sector(2)] and g = cd_ev_cd [OF sector(3)]
  note sm = cd_same_trans [OF f(1) cd_same_trans [OF dma3_deliver_fields(1) g(1)]]
  show ?thesis
    using sector assms(2) f g sm by (simp add: cd_ev_def) (simp add: cd_release_irq_eq cd_same_iff dma3_deliver_frame)
qed

section \<open>The contract of a sector read\<close>

lemma psxcd_hw_read_split:
  assumes "psxcd_hw_read lba buf s = Some (ok, s')"
  obtains (seekfail) "psxcd_seek lba (cd_take_irq s) = Some (False, s')" "\<not> ok"
    | (fetched) s1 where "psxcd_seek lba (cd_take_irq s) = Some (True, s1)" "psxcd_fetch lba buf s1 = (ok, s')"
  using assms by (auto simp: psxcd_hw_read_def bind_eq_Some_conv split: if_splits)

lemma psxcd_hw_read_spec:
  assumes "psxcd_hw_read lba buf s = Some (ok, s')"
  shows "cd_same s s' \<and> psxcd_streaming s' = ok \<and> (ok \<longrightarrow> psxcd_next_lba s' = lba + 1) \<and>
    (\<forall>a. unat (a - (buf AND 0x00ffffff)) \<ge> PSXCD_SECTOR \<longrightarrow> cd_mem s' a = cd_mem s a) \<and>
    (\<exists>p ss. writes CD1 (hw_trace s') = writes CD1 (hw_trace s) @ p @ ss \<and>
       writes CD2 (hw_trace s') = writes CD2 (hw_trace s) @ (cd_setloc_params lba ss) \<and>
       (p = [] \<or> psxcd_streaming s \<and> p = [ucast CDC_PAUSE]) \<and>
       (ss = [] \<or> ss = [ucast CDC_SETLOC] \<or> ss = [ucast CDC_SETLOC, ucast CDC_READN]) \<and>
       (cd_sequential lba s \<longrightarrow> p = [] \<and> ss = []) \<and>
       (ok \<and> \<not> cd_sequential lba s \<longrightarrow> ss = [ucast CDC_SETLOC, ucast CDC_READN]))"
  using assms
proof (cases rule: psxcd_hw_read_split)
  case seekfail
  from seekfail(1) show ?thesis
  proof (cases rule: psxcd_seek_cases)
    case (moved p ss)
    then show ?thesis
      using cd_cmds_quiet_l [OF cd_cmds_quiet(1) moved(2)] seekfail(2) by (auto simp: cd_cmds_def)
  qed simp
next
  case (fetched s1)
  from fetched(1) show ?thesis
  proof (cases rule: psxcd_seek_cases)
    case seq
    then show ?thesis
      using psxcd_fetch_contract [OF fetched(2)] cd_same_trans [OF cd_take_release_same(1)]
      by (auto simp: cd_sequential_def cd_take_irq_eq cd_setloc_params_def)
  next
    case (moved p ss)
    note c = cd_cmds_quiet_l [OF cd_cmds_quiet(1) moved(2), unfolded cd_cmds_def]
    show ?thesis
      using psxcd_fetch_contract [OF fetched(2)] moved c cd_same_trans [OF conjunct1 [OF c]] by auto
  qed
qed

section \<open>The interrupt mask\<close>

text \<open>
  What the hardware documentation says of I_MASK: it reads back the last value
  written, and \<open>m0\<close> before the first write. This is the only assumption about the
  device that the mask theorem makes.
\<close>

definition irq_mask_register :: "(bus_trace \<Rightarrow> u32 \<Rightarrow> u32) \<Rightarrow> u32 \<Rightarrow> bool" where
  "irq_mask_register env m0 \<longleftrightarrow> (\<forall>t. env t IRQ_MASK = last (m0 # writes IRQ_MASK t))"

text \<open>The driver holds the mask: the CD interrupt is off and \<open>m\<close> is what it will give back.\<close>

definition cd_holds :: "u32 \<Rightarrow> u32 \<Rightarrow> 'a cd_scheme \<Rightarrow> bool" where
  "cd_holds m0 m s \<longleftrightarrow> irq_mask_register (hw_env s) m0 \<and> psxcd_saved_mask s = m \<and>
     mask_now s = m AND NOT IRQ_CD"

definition cd_free :: "u32 \<Rightarrow> u32 \<Rightarrow> 'a cd_scheme \<Rightarrow> bool" where
  "cd_free m0 m s \<longleftrightarrow> irq_mask_register (hw_env s) m0 \<and> mask_now s = m"

lemma cd_take_holds: "cd_free m0 m s \<Longrightarrow> cd_holds m0 m (cd_take_irq s)"
  by (auto simp: cd_free_def cd_holds_def cd_take_irq_eq irq_mask_register_def)

lemma cd_release_free: "cd_holds m0 m s \<Longrightarrow> cd_free m0 m (cd_release_irq s)"
  by (auto simp: cd_free_def cd_holds_def cd_release_irq_eq irq_mask_register_def)

lemma cd_ev_holds: "cd_ev s c p s' \<Longrightarrow> cd_holds m0 m s \<Longrightarrow> cd_holds m0 m s'"
  by (frule cd_ev_cd(5)) (auto simp: cd_holds_def cd_ev_def irq_mask_register_def)

lemma cd_ev_free: "cd_ev s c p s' \<Longrightarrow> cd_free m0 m s \<Longrightarrow> cd_free m0 m s'"
  by (auto simp: cd_free_def cd_ev_def irq_mask_register_def)

lemma cd_holds_flags [simp]:
  "cd_holds m0 m (s\<lparr>psxcd_streaming := b\<rparr>) = cd_holds m0 m s"
  "cd_free m0 m (s\<lparr>psxcd_streaming := b\<rparr>) = cd_free m0 m s"
  "cd_free m0 m (s\<lparr>psxcd_next_lba := l\<rparr>) = cd_free m0 m s"
  "cd_holds m0 m (dma3_deliver madr s) = cd_holds m0 m s"
  by (simp_all add: cd_holds_def cd_free_def dma3_deliver_def)

lemma cd_do_holds: "cd_do cmd par n s = ((t, r), s') \<Longrightarrow> cd_holds m0 m s \<Longrightarrow> cd_holds m0 m s'"
  by (drule cd_do_ev) (auto intro: cd_ev_holds)

lemma psxcd_hw_stop_free:
  assumes "psxcd_hw_stop s = Some s'" "cd_free m0 m s"
  shows "cd_free m0 m s'"
proof (cases "psxcd_streaming s")
  case False
  then show ?thesis
    using assms by (simp add: psxcd_hw_stop_def)
next
  case True
  let ?r = "\<lambda>s1. (cd_release_irq (psxcd_pause s1))\<lparr>psxcd_streaming := False\<rparr>"
  obtain s1 s2 where d1: "cd_drain (cd_take_irq s) = Some s1"
    and d2: "cd_drain (cd_take_irq (cd_cooldown 1300 (?r s1))) = Some s2" and s': "s' = cd_release_irq s2"
    using assms True by (auto simp: psxcd_hw_stop_def Let_def bind_eq_Some_conv)
  obtain c where c: "cd_ev s1 c [] (psxcd_pause s1)"
    using psxcd_pause_ev by blast
  have "cd_holds m0 m (psxcd_pause s1)"
    using cd_take_holds [OF assms(2)] by (rule cd_ev_holds [OF c cd_ev_holds [OF cd_ev_drain [OF d1]]])
  then have "cd_free m0 m (?r s1)"
    by (simp add: cd_release_free)
  then have "cd_holds m0 m (cd_take_irq (cd_cooldown 1300 (?r s1)))"
    by (rule cd_take_holds [OF cd_ev_free [OF cd_ev_cooldown]])
  then show ?thesis
    unfolding s' by (rule cd_release_free [OF cd_ev_holds [OF cd_ev_drain [OF d2]]])
qed

lemma psxcd_unstream_holds:
  "psxcd_unstream s = Some s' \<Longrightarrow> cd_holds m0 m s \<Longrightarrow> cd_holds m0 m s'"
  by (auto simp: psxcd_unstream_def bind_eq_Some_conv split: if_splits
      intro!: cd_take_holds elim!: psxcd_hw_stop_free cd_release_free)

lemma psxcd_setloc_readn_holds:
  "psxcd_setloc_readn lba s = (ok, s') \<Longrightarrow> cd_holds m0 m s \<Longrightarrow>
     if ok then cd_holds m0 m s' else cd_free m0 m s'"
  by (auto simp: psxcd_setloc_readn_def Let_def split: if_splits prod.splits
      intro!: cd_release_free elim!: cd_do_holds)

lemma psxcd_fetch_free:
  assumes "psxcd_fetch lba buf s = (ok, s')" "cd_holds m0 m s"
  shows "cd_free m0 m s'"
  using assms(1)
proof (cases rule: psxcd_fetch_cases)
  case (nodata s1)
  then show ?thesis
    using cd_ev_holds [OF nodata(2) assms(2)] by (simp add: cd_release_free)
next
  case (stalled s3 s4)
  then show ?thesis
    using cd_ev_holds [OF stalled(3)] cd_ev_holds [OF stalled(2) assms(2)] by (simp add: cd_release_free)
next
  case (sector s3 s4)
  then show ?thesis
    using cd_ev_holds [OF sector(3)] cd_ev_holds [OF sector(2) assms(2)] by (simp add: cd_release_free)
qed

lemma psxcd_hw_read_free:
  assumes "psxcd_hw_read lba buf s = Some (ok, s')" "cd_free m0 m s"
  shows "cd_free m0 m s'"
  using assms(1)
proof (cases rule: psxcd_hw_read_split)
  case seekfail
  then show ?thesis
    using psxcd_unstream_holds [of "cd_take_irq s"] psxcd_setloc_readn_holds cd_take_holds [OF assms(2)]
    by (fastforce simp: psxcd_seek_def bind_eq_Some_conv split: if_splits)
next
  case (fetched s1)
  have "cd_holds m0 m s1"
    using fetched(1) psxcd_unstream_holds [of "cd_take_irq s"] psxcd_setloc_readn_holds cd_take_holds [OF assms(2)]
    by (fastforce simp: psxcd_seek_def bind_eq_Some_conv split: if_splits)
  then show ?thesis
    by (rule psxcd_fetch_free [OF fetched(2)])
qed

section \<open>Drains: when they return, and when they do not\<close>

text \<open>A controller whose interrupt flag never clears.\<close>

definition cd_always_pending :: "(bus_trace \<Rightarrow> u32 \<Rightarrow> u32) \<Rightarrow> bool" where
  "cd_always_pending env \<longleftrightarrow> (\<forall>t. (ucast (env t CD3) :: u8) AND 7 \<noteq> 0)"

text \<open>
  Acknowledging clears the interrupt flags: a poll directly after the
  acknowledge sequence sees none, because the next response takes time.
\<close>

definition cd_ack_clears :: "(bus_trace \<Rightarrow> u32 \<Rightarrow> u32) \<Rightarrow> bool" where
  "cd_ack_clears env \<longleftrightarrow>
     (\<forall>t. (ucast (env (Wr CD0 1 # Wr CD3 0x1f # Wr CD0 1 # Wr IRQ_STAT (NOT IRQ_CD) # t) CD3) :: u8) AND 7 = 0)"

lemma cd_int_zero:
  "fst (cd_int s) = 0 \<longleftrightarrow> (ucast (hw_env s (Wr CD0 1 # hw_trace s) CD3) :: u8) AND 7 = 0"
  by (simp add: cd_int_def bus_defs uint_0_iff)

lemma cd_drain_pending:
  assumes "cd_drain s = Some s'"
  shows "\<not> cd_always_pending (hw_env s)"
proof (rule cd_drain.raw_induct [OF _ assms], goal_cases)
  case (1 f s s')
  let ?s1 = "cd_ack (snd (cd_result 16 (snd (cd_int s))))"
  have env: "hw_env ?s1 = hw_env s"
    using cd_ev_quiet_l [OF cd_ev_int cd_ev_quiet_l [OF cd_ev_result cd_ev_ack]]
    by (auto simp: cd_ev_def)
  show ?case
  proof (cases "fst (cd_int s) = 0")
    case True
    then show ?thesis
      by (auto simp: cd_int_zero cd_always_pending_def)
  next
    case False
    then have "f ?s1 = Some s'"
      using "1"(2) by (simp add: split_beta)
    from "1"(1) [OF this] show ?thesis
      by (simp add: env)
  qed
qed

lemma cd_drain_returns:
  assumes "cd_ack_clears (hw_env s)"
  shows "\<exists>s'. cd_drain s = Some s'"
proof -
  let ?s1 = "snd (cd_result 16 (snd (cd_int s)))"
  have "hw_env ?s1 = hw_env s"
    using cd_ev_quiet_l [OF cd_ev_int [of s] cd_ev_result [of _ 16]] by (simp add: cd_ev_def)
  then have "fst (cd_int (cd_ack ?s1)) = 0"
    using assms by (simp add: cd_int_def cd_ack_def bus_defs cd_ack_clears_def)
  then have "\<exists>s'. cd_drain (cd_ack ?s1) = Some s'"
    by (subst cd_drain.simps) (simp add: split_beta)
  then show ?thesis
    by (subst cd_drain.simps) (auto simp: split_beta)
qed

lemma psxcd_hw_stop_returns:
  assumes "cd_ack_clears (hw_env s)"
  shows "\<exists>s'. psxcd_hw_stop s = Some s'"
proof (cases "psxcd_streaming s")
  case True
  let ?r = "\<lambda>s1. (cd_release_irq (psxcd_pause s1))\<lparr>psxcd_streaming := False\<rparr>"
  have "cd_ack_clears (hw_env (cd_take_irq s))"
    using assms by (simp add: cd_take_irq_eq)
  then obtain s1 where d1: "cd_drain (cd_take_irq s) = Some s1"
    using cd_drain_returns by blast
  obtain c where "cd_ev s1 c [] (psxcd_pause s1)"
    using psxcd_pause_ev by blast
  then have "hw_env (cd_take_irq (cd_cooldown 1300 (?r s1))) = hw_env s"
    using cd_ev_drain [OF d1] cd_ev_cooldown [of "?r s1" 1300]
    by (simp add: cd_ev_def cd_take_irq_eq cd_release_irq_eq)
  then obtain s2 where "cd_drain (cd_take_irq (cd_cooldown 1300 (?r s1))) = Some s2"
    using cd_drain_returns assms by metis
  then show ?thesis
    using True d1 by (simp add: psxcd_hw_stop_def Let_def)
qed (simp add: psxcd_hw_stop_def)

lemma psxcd_hw_read_returns:
  assumes "cd_ack_clears (hw_env s)"
  shows "\<exists>r. psxcd_hw_read lba buf s = Some r"
proof -
  have "cd_ack_clears (hw_env (cd_release_irq (cd_take_irq s)))"
    using assms by (simp add: cd_take_irq_eq cd_release_irq_eq)
  then obtain s' where "psxcd_hw_stop (cd_release_irq (cd_take_irq s)) = Some s'"
    using psxcd_hw_stop_returns by blast
  then show ?thesis
    by (auto simp: psxcd_hw_read_def psxcd_seek_def psxcd_unstream_def split_beta)
qed

section \<open>Sector addresses\<close>

text \<open>The reading side of the BCD address, as the drive takes it.\<close>

definition bcd_val :: "u8 \<Rightarrow> nat" where
  "bcd_val b = 10 * (unat b div 16) + unat b mod 16"

fun msf_to_lba :: "u8 list \<Rightarrow> nat" where
  "msf_to_lba [m, s, f] = (bcd_val m * 60 + bcd_val s) * 75 + bcd_val f - 150"
| "msf_to_lba _ = 0"

definition bcd_ok :: "u8 \<Rightarrow> bool" where
  "bcd_ok b \<longleftrightarrow> unat b div 16 < 10 \<and> unat b mod 16 < 10"

lemma cd_bcd_table:
  "list_all (\<lambda>n. unat (cd_bcd (word_of_nat n)) = 16 * (n div 10) + n mod 10) [0..<100]"
  by code_simp

lemma unat_cd_bcd:
  assumes "unat v < 100"
  shows "unat (cd_bcd v) = 16 * (unat v div 10) + unat v mod 10"
  using cd_bcd_table assms by (auto simp: list_all_iff dest: bspec [where x = "unat v"])

lemma bcd_val_cd_bcd: "unat v < 100 \<Longrightarrow> bcd_val (cd_bcd v) = unat v"
  by (simp add: bcd_val_def unat_cd_bcd div_mult_mod_eq)

lemma bcd_ok_cd_bcd: "unat v < 100 \<Longrightarrow> bcd_ok (cd_bcd v)"
  by (simp add: bcd_ok_def unat_cd_bcd)

lemma cd_lba_to_msf_inv:
  assumes "unat lba < 449850"
  shows "msf_to_lba (cd_lba_to_msf lba) = unat lba"
    and "list_all bcd_ok (cd_lba_to_msf lba)"
    and "bcd_val (cd_lba_to_msf lba ! 1) < 60 \<and> bcd_val (cd_lba_to_msf lba ! 2) < 75"
proof -
  let ?t = "lba + 150"
  have t: "unat ?t = unat lba + 150"
    using assms by (subst unat_add_lem [THEN iffD1]) simp_all
  have m: "unat (?t div (75 * 60)) = unat ?t div 4500" and s: "unat ((?t div 75) mod 60) = (unat ?t div 75) mod 60"
    and f: "unat (?t mod 75) = unat ?t mod 75"
    by (simp_all add: unat_div unat_mod)
  have lt: "unat (?t div (75 * 60)) < 100" "unat ((?t div 75) mod 60) < 60" "unat (?t mod 75) < 75"
    unfolding m s f t using assms by auto
  then have lt': "unat ((?t div 75) mod 60) < 100" "unat (?t mod 75) < 100"
    by linarith+
  have div: "n div 4500 = n div 75 div 60" for n :: nat
    by (simp add: div_mult2_eq [symmetric])
  show "msf_to_lba (cd_lba_to_msf lba) = unat lba"
    unfolding cd_lba_to_msf_def Let_def msf_to_lba.simps bcd_val_cd_bcd [OF lt(1)] bcd_val_cd_bcd [OF lt'(1)]
      bcd_val_cd_bcd [OF lt'(2)]
    unfolding m s f div t by (metis add_diff_cancel_right' div_mult_mod_eq)
  show "list_all bcd_ok (cd_lba_to_msf lba)"
    using lt(1) lt' by (simp add: cd_lba_to_msf_def Let_def bcd_ok_cd_bcd)
  show "bcd_val (cd_lba_to_msf lba ! 1) < 60 \<and> bcd_val (cd_lba_to_msf lba ! 2) < 75"
    using lt lt' by (simp add: cd_lba_to_msf_def Let_def bcd_val_cd_bcd)
qed

section \<open>Properties of the hardware layer\<close>

text \<open>A drive that is already streaming: one poll finds the sector, the FIFO is ready.\<close>

definition cd_demo_env :: "bus_trace \<Rightarrow> u32 \<Rightarrow> u32" where
  "cd_demo_env t a = (if a = CD3 then 1 else if a = CD0 then 0x40
     else if a = IRQ_MASK then last (0x75 # writes IRQ_MASK t) else 0)"

definition cd_demo :: cd where
  "cd_demo = \<lparr>hw_env = cd_demo_env, hw_trace = [], rq_queue = [], rq_done = [],
     psxcd_saved_mask = 0, psxcd_streaming = True, psxcd_next_lba = 16, psxcd_present = True,
     psxcd_base_lba = 0, psxcd_len_kb = 16384, psxcd_base_forced = False, psxcd_file_name = [],
     psxcd_probe = - 1, psxcd_probe_buf = 0x80100000, cd_mem = (\<lambda>_. 0),
     cd_dma = (\<lambda>_ i. Some 7), cd_listing = [],
     psxcd_sizes = 0, psxcd_blocksizes = 0, psxcd_hardsects = 0, psxcd_use = 0\<rparr>"

text \<open>A drive that has the next sector waiting delivers it.\<close>

definition cd_ready :: "(bus_trace \<Rightarrow> u32 \<Rightarrow> u32) \<Rightarrow> bool" where
  "cd_ready env \<longleftrightarrow> (\<forall>t. env t CD3 = 1 \<and> env t CD0 = 0x40 \<and> env t D3_CHCR = 0)"

lemma cd_wait_int_ready: "cd_ready (hw_env s) \<Longrightarrow> n \<noteq> 0 \<Longrightarrow> fst (cd_wait_int n s) = 1"
  by (subst cd_wait_int.simps) (simp add: cd_ready_def cd_int_def bus_defs)

lemma cd_request_data_ready: "cd_ready (hw_env s) \<Longrightarrow> fst (cd_request_data s) = 0x40"
  by (simp add: emits_env [OF cd_wait_drq_poll] emits_env [OF cd_result_poll] cd_ready_def cd_request_data_def bus_defs split_beta)

lemma cd_dma_read_ready: "cd_ready (hw_env s) \<Longrightarrow> fst (cd_dma_read madr s) = 0"
  by (simp add: emits_env [OF cd_wait_dma_poll] cd_ready_def cd_dma_read_def bus_defs split_beta)

lemma psxcd_fetch_ready:
  assumes "cd_ready (hw_env s)"
  shows "fst (psxcd_fetch lba buf s)"
proof -
  let ?s1 = "snd (cd_wait_int 8000000 s)" and ?s2 = "snd (cd_request_data (snd (cd_wait_int 8000000 s)))"
  have "hw_env ?s1 = hw_env s" "hw_env ?s2 = hw_env ?s1"
    using cd_ev_wait_int [of s 8000000] cd_ev_request [of ?s1] by (simp_all add: cd_ev_def)
  then show ?thesis
    using assms cd_wait_int_ready [of s 8000000] cd_request_data_ready [of ?s1] cd_dma_read_ready [of ?s2]
    by (simp add: psxcd_fetch_def Let_def split_beta)
qed

lemma cd_demo_read: "\<exists>s'. psxcd_hw_read 16 0x80010000 cd_demo = Some (True, s')"
proof -
  have "cd_ready (hw_env (cd_take_irq cd_demo))"
    by (simp add: cd_take_irq_eq cd_ready_def cd_demo_def cd_demo_env_def)
  from psxcd_fetch_ready [OF this, of 16 "0x80010000"]
  obtain s' where "psxcd_fetch 16 0x80010000 (cd_take_irq cd_demo) = (True, s')"
    by (metis prod.collapse)
  moreover have "psxcd_seek 16 (cd_take_irq cd_demo) = Some (True, cd_take_irq cd_demo)"
    by (simp add: psxcd_seek_def cd_take_irq_eq cd_demo_def)
  ultimately show ?thesis
    by (simp add: psxcd_hw_read_def)
qed

text \<open>
  C3: A sector read keeps the streaming state truthful. If it succeeds the drive
  is streaming and the recorded position is the next sector; if it fails the
  driver no longer believes it is streaming, whatever the drive did. In both
  cases no byte of memory outside the 2048-byte block at the DMA address is
  changed and every driver global except the mask copy, the streaming flag and
  the position keeps its value. This holds for every device behaviour.
\<close>

theorem psxcd_hw_read_contract:
  assumes "psxcd_hw_read lba buf s = Some (ok, s')"
  shows "psxcd_streaming s' = ok \<and> (ok \<longrightarrow> psxcd_next_lba s' = lba + 1) \<and> cd_same s s' \<and>
    (\<forall>a. unat (a - (buf AND 0x00ffffff)) \<ge> PSXCD_SECTOR \<longrightarrow> cd_mem s' a = cd_mem s a)"
  using psxcd_hw_read_spec [OF assms] by blast

theorem psxcd_hw_read_contract_witness:
  "\<exists>s'. psxcd_hw_read 16 0x80010000 cd_demo = Some (True, s') \<and> psxcd_streaming s' \<and>
     psxcd_next_lba s' = 17 \<and> cd_mem s' 0x00200000 = cd_mem cd_demo 0x00200000"
proof -
  obtain s' where r: "psxcd_hw_read 16 0x80010000 cd_demo = Some (True, s')"
    using cd_demo_read by blast
  show ?thesis
    using psxcd_hw_read_contract [OF r] r by simp
qed



text \<open>
  C19: The interrupt mask is given back on every path. If I_MASK reads back what
  was last written to it, then when a sector read returns, successfully or not,
  the register holds the value it held when the read was called.
\<close>

theorem psxcd_hw_read_restores_mask:
  assumes "irq_mask_register (hw_env s) m0" "psxcd_hw_read lba buf s = Some (ok, s')"
  shows "mask_now s' = mask_now s"
  using psxcd_hw_read_free [OF assms(2), of m0 "mask_now s"] assms(1) by (simp add: cd_free_def)

theorem psxcd_hw_read_restores_mask_witness:
  "irq_mask_register (hw_env cd_demo) 0x75 \<and>
   (\<exists>s'. psxcd_hw_read 16 0x80010000 cd_demo = Some (True, s') \<and> mask_now s' = 0x75)"
proof -
  obtain s' where r: "psxcd_hw_read 16 0x80010000 cd_demo = Some (True, s')"
    using cd_demo_read by blast
  have m: "irq_mask_register (hw_env cd_demo) 0x75" "mask_now cd_demo = 0x75"
    by (simp_all add: irq_mask_register_def cd_demo_def cd_demo_env_def)
  show ?thesis
    using psxcd_hw_read_restores_mask [OF m(1) r] r m by auto
qed

text \<open>
  C25: If acknowledging clears the controller's interrupt flag until its next
  response, a sector read returns in every state and for every sector; a missing
  drive, a stalled transfer and a silent controller all end in a result.
\<close>

theorem psxcd_hw_read_terminates:
  assumes "cd_ack_clears (hw_env s)"
  shows "\<exists>ok s'. psxcd_hw_read lba buf s = Some (ok, s')"
  using psxcd_hw_read_returns [OF assms, of lba buf] by auto

theorem psxcd_hw_read_terminates_witness:
  "cd_ack_clears (hw_env (cd_demo\<lparr>hw_env := \<lambda>_ _. 0\<rparr>)) \<and>
   (\<exists>ok s'. psxcd_hw_read 827 0x80010000 (cd_demo\<lparr>hw_env := \<lambda>_ _. 0\<rparr>) = Some (ok, s'))"
proof -
  have c: "cd_ack_clears (hw_env (cd_demo\<lparr>hw_env := \<lambda>_ _. 0\<rparr>))"
    by (simp add: cd_ack_clears_def)
  show ?thesis
    using psxcd_hw_read_terminates [OF c, of 827 "0x80010000"] c by blast
qed

text \<open>
  Without that assumption the stop loops have no bound of their own: with a
  controller whose interrupt flag stays set, stopping a streaming drive, and
  with it every read at another position, never returns, although the comment in
  \<^verbatim>\<open>psxcd_init\<close> says that every loop of the lookup is bounded.
\<close>

theorem psxcd_hw_read_can_hang:
  assumes "cd_always_pending (hw_env s)" "psxcd_streaming s" "lba \<noteq> psxcd_next_lba s"
  shows "psxcd_hw_stop s = None \<and> psxcd_hw_read lba buf s = None"
proof -
  have d: "cd_drain x = None" if "hw_env x = hw_env s" for x :: "'a cd_scheme"
    using cd_drain_pending [of x] assms(1) that by (cases "cd_drain x") auto
  have hang: "psxcd_hw_stop x = None" if "hw_env x = hw_env s" "psxcd_streaming x" for x :: "'a cd_scheme"
    using d [of "cd_take_irq x"] that by (simp add: psxcd_hw_stop_def cd_take_irq_eq)
  show ?thesis
    using hang [of s] hang [of "cd_release_irq (cd_take_irq s)"] assms(2,3)
    by (simp add: psxcd_hw_read_def psxcd_seek_def psxcd_unstream_def cd_take_irq_eq cd_release_irq_eq)
qed

theorem psxcd_hw_read_can_hang_witness:
  "psxcd_hw_read 827 0x80010000 cd_demo = None"
  using psxcd_hw_read_can_hang [of cd_demo 827 "0x80010000"]
  by (simp add: cd_demo_def cd_demo_env_def cd_always_pending_def)

text \<open>
  The address sent with Setloc is right. For every sector of a disc (up to 99
  minutes) the three bytes are valid BCD, seconds and frames are in range, and
  decoding them gives the sector back.
\<close>

theorem cd_lba_to_msf_roundtrip:
  assumes "unat lba < 449850"
  shows "msf_to_lba (cd_lba_to_msf lba) = unat lba \<and> list_all bcd_ok (cd_lba_to_msf lba) \<and>
    bcd_val (cd_lba_to_msf lba ! 1) < 60 \<and> bcd_val (cd_lba_to_msf lba ! 2) < 75"
  using cd_lba_to_msf_inv [OF assms] by simp

theorem cd_lba_to_msf_roundtrip_witness:
  "msf_to_lba (cd_lba_to_msf 827) = 827"
  using cd_lba_to_msf_roundtrip [of 827] by simp

end
