(* ===== verification/Klib.thy ===== *)
theory Klib
  imports Prelude
begin

text \<open>
  The kernel's own string library, as far as the BlackRoo code uses it:
  character classes (\<^verbatim>\<open>lib/ctype.c\<close>), number parsing (\<^verbatim>\<open>lib/vsprintf.c\<close>,
  \<^verbatim>\<open>lib/cmdline.c\<close>). A C string that is only read is the list of its bytes before
  the terminating NUL; \<open>ch s i\<close> is the byte at index \<open>i\<close>, the NUL included.
\<close>

type_synonym cstr = "u8 list"

definition ch :: "cstr \<Rightarrow> nat \<Rightarrow> u8" where
  "ch s i = (if i < length s then s ! i else 0)"

definition s2b :: "string \<Rightarrow> cstr" where
  "s2b s = map of_char s"

lemma length_s2b [simp]: "length (s2b l) = length l"
  by (simp add: s2b_def)

section \<open>Character classes\<close>

definition ctype_tab :: "u8 list" where
  "ctype_tab = [
    0x08, 0x08, 0x08, 0x08, 0x08, 0x08, 0x08, 0x08, 0x08, 0x28, 0x28, 0x28, 0x28, 0x28, 0x08, 0x08,
    0x08, 0x08, 0x08, 0x08, 0x08, 0x08, 0x08, 0x08, 0x08, 0x08, 0x08, 0x08, 0x08, 0x08, 0x08, 0x08,
    0xa0, 0x10, 0x10, 0x10, 0x10, 0x10, 0x10, 0x10, 0x10, 0x10, 0x10, 0x10, 0x10, 0x10, 0x10, 0x10,
    0x04, 0x04, 0x04, 0x04, 0x04, 0x04, 0x04, 0x04, 0x04, 0x04, 0x10, 0x10, 0x10, 0x10, 0x10, 0x10,
    0x10, 0x41, 0x41, 0x41, 0x41, 0x41, 0x41, 0x01, 0x01, 0x01, 0x01, 0x01, 0x01, 0x01, 0x01, 0x01,
    0x01, 0x01, 0x01, 0x01, 0x01, 0x01, 0x01, 0x01, 0x01, 0x01, 0x01, 0x10, 0x10, 0x10, 0x10, 0x10,
    0x10, 0x42, 0x42, 0x42, 0x42, 0x42, 0x42, 0x02, 0x02, 0x02, 0x02, 0x02, 0x02, 0x02, 0x02, 0x02,
    0x02, 0x02, 0x02, 0x02, 0x02, 0x02, 0x02, 0x02, 0x02, 0x02, 0x02, 0x10, 0x10, 0x10, 0x10, 0x08,
    0x00, 0x00, 0x00, 0x00, 0x00, 0x00, 0x00, 0x00, 0x00, 0x00, 0x00, 0x00, 0x00, 0x00, 0x00, 0x00,
    0x00, 0x00, 0x00, 0x00, 0x00, 0x00, 0x00, 0x00, 0x00, 0x00, 0x00, 0x00, 0x00, 0x00, 0x00, 0x00,
    0xa0, 0x10, 0x10, 0x10, 0x10, 0x10, 0x10, 0x10, 0x10, 0x10, 0x10, 0x10, 0x10, 0x10, 0x10, 0x10,
    0x10, 0x10, 0x10, 0x10, 0x10, 0x10, 0x10, 0x10, 0x10, 0x10, 0x10, 0x10, 0x10, 0x10, 0x10, 0x10,
    0x01, 0x01, 0x01, 0x01, 0x01, 0x01, 0x01, 0x01, 0x01, 0x01, 0x01, 0x01, 0x01, 0x01, 0x01, 0x01,
    0x01, 0x01, 0x01, 0x01, 0x01, 0x01, 0x01, 0x10, 0x01, 0x01, 0x01, 0x01, 0x01, 0x01, 0x01, 0x02,
    0x02, 0x02, 0x02, 0x02, 0x02, 0x02, 0x02, 0x02, 0x02, 0x02, 0x02, 0x02, 0x02, 0x02, 0x02, 0x02,
    0x02, 0x02, 0x02, 0x02, 0x02, 0x02, 0x02, 0x10, 0x02, 0x02, 0x02, 0x02, 0x02, 0x02, 0x02, 0x02]"

definition ismask :: "u8 \<Rightarrow> u8" where
  "ismask c = ctype_tab ! unat c"

definition isdigit :: "u8 \<Rightarrow> bool" where
  "isdigit c \<longleftrightarrow> ismask c AND 0x04 \<noteq> 0"

definition islower :: "u8 \<Rightarrow> bool" where
  "islower c \<longleftrightarrow> ismask c AND 0x02 \<noteq> 0"

definition isupper :: "u8 \<Rightarrow> bool" where
  "isupper c \<longleftrightarrow> ismask c AND 0x01 \<noteq> 0"

definition isxdigit :: "u8 \<Rightarrow> bool" where
  "isxdigit c \<longleftrightarrow> ismask c AND 0x44 \<noteq> 0"

definition ktolower :: "u8 \<Rightarrow> u8" where
  "ktolower c = (if isupper c then c - (65 - 97) else c)"

definition ktoupper :: "u8 \<Rightarrow> u8" where
  "ktoupper c = (if islower c then c - (97 - 65) else c)"

section \<open>Numbers\<close>

text \<open>The value of a digit: \<^verbatim>\<open>isdigit(*cp) ? *cp-'0' : toupper(*cp)-'A'+10\<close>, as an unsigned long.\<close>

definition digit_value :: "u8 \<Rightarrow> u32" where
  "digit_value c = (if isdigit c then ucast c - 48 else ucast (ktoupper c) - 65 + 10)"

fun strtoul_loop :: "u32 \<Rightarrow> u32 \<Rightarrow> cstr \<Rightarrow> u32 \<times> cstr" where
  "strtoul_loop base result [] = (result, [])"
| "strtoul_loop base result (c # cp) =
    (if isxdigit c \<and> digit_value c < base
     then strtoul_loop base (result * base + digit_value c) cp
     else (result, c # cp))"

text \<open>The value and \<^verbatim>\<open>*endp\<close>.\<close>

definition simple_strtoul :: "cstr \<Rightarrow> u32 \<Rightarrow> u32 \<times> cstr" where
  "simple_strtoul cp base =
    (if base = 0
     then if ch cp 0 = 0x30
          then if ch cp 1 = 0x78 \<and> isxdigit (ch cp 2)
               then strtoul_loop 16 0 (drop 2 cp)
               else strtoul_loop 8 0 (drop 1 cp)
          else strtoul_loop 10 0 cp
     else strtoul_loop base 0 cp)"

definition simple_strtol :: "cstr \<Rightarrow> u32 \<Rightarrow> u32 \<times> cstr" where
  "simple_strtol cp base =
    (if ch cp 0 = 0x2d
     then let (v, e) = simple_strtoul (drop 1 cp) base in (- v, e)
     else simple_strtoul cp base)"

text \<open>
  \<^verbatim>\<open>get_option\<close>: the return code, the integer stored through \<^verbatim>\<open>pint\<close> (if any) and the
  advanced string pointer; \<open>None\<close> is a null string pointer.
\<close>

definition get_option :: "cstr option \<Rightarrow> nat \<times> u32 option \<times> cstr option" where
  "get_option str =
    (case str of None \<Rightarrow> (0, None, None)
     | Some cur \<Rightarrow>
        if ch cur 0 = 0 then (0, None, Some cur)
        else let (v, rest) = simple_strtol cur 0 in
             if rest = cur then (0, Some v, Some rest)
             else if ch rest 0 = 0x2c then (2, Some v, Some (drop 1 rest))
             else (1, Some v, Some rest))"

function get_options_loop :: "nat \<Rightarrow> nat \<Rightarrow> cstr \<Rightarrow> u32 list \<Rightarrow> u32 list \<times> cstr" where
  "get_options_loop i nints str ints =
    (if i < nints
     then case get_option (Some str) of
            (res, v, str') \<Rightarrow>
              let ints = (case v of None \<Rightarrow> ints | Some x \<Rightarrow> ints[i := x]);
                  str = the str' in
              if res = 0 then (ints[0 := word_of_nat (i - 1)], str)
              else if res = 1 then (ints[0 := word_of_nat i], str)
              else get_options_loop (i + 1) nints str ints
     else (ints[0 := word_of_nat (i - 1)], str))"
  by pat_completeness auto

termination
  by (relation "measure (\<lambda>(i, n, _, _). n - i)") auto

declare get_options_loop.simps [simp del]

definition get_options :: "cstr \<Rightarrow> u32 list \<Rightarrow> u32 list \<times> cstr" where
  "get_options str ints = get_options_loop 1 (length ints) str ints"

definition memparse :: "cstr \<Rightarrow> u32 \<times> cstr" where
  "memparse ptr =
    (let (ret, r) = simple_strtoul ptr 0;
         k = (if ch r 0 \<in> {0x47, 0x67} then 3 else if ch r 0 \<in> {0x4d, 0x6d} then 2
              else if ch r 0 \<in> {0x4b, 0x6b} then 1 else (0::nat))
     in if k = 0 then (ret, r) else (push_bit (10 * k) ret, drop 1 r))"

section \<open>What the classes mean\<close>

lemma ctype_table:
  "list_all (\<lambda>(n, m :: u8).
      (m AND 0x04 \<noteq> 0) = (48 \<le> n \<and> n \<le> 57) \<and>
      (m AND 0x44 \<noteq> 0) = (48 \<le> n \<and> n \<le> 57 \<or> 65 \<le> n \<and> n \<le> 70 \<or> 97 \<le> n \<and> n \<le> 102) \<and>
      (m AND 0x02 \<noteq> 0) = (97 \<le> n \<and> n \<le> 122 \<or> 223 \<le> n \<and> n \<noteq> 247))
    (zip [0..255::int] ctype_tab)"
  by code_simp

lemma length_ctype_tab: "length ctype_tab = 256"
  by (simp add: ctype_tab_def)

lemma ctype_at:
  assumes "list_all (\<lambda>(n, m). Q n m) (zip [0..255::int] ctype_tab)"
  shows "Q (uint c) (ismask c)"
proof -
  have "list_all2 Q [0..255::int] ctype_tab"
    using assms by (simp add: list_all2_iff list_all_iff length_ctype_tab)
  then have "Q ([0..255] ! unat c) (ctype_tab ! unat c)"
    by (rule list_all2_nthD) simp
  moreover have "[0..255] ! unat c = uint c"
    by (subst nth_upto) simp_all
  ultimately show ?thesis
    by (simp add: ismask_def)
qed

lemma isdigit_iff: "isdigit c \<longleftrightarrow> 48 \<le> uint c \<and> uint c \<le> 57"
  using ctype_at [OF ctype_table, of c] by (simp add: isdigit_def)

lemma isxdigit_iff:
  "isxdigit c \<longleftrightarrow> 48 \<le> uint c \<and> uint c \<le> 57 \<or> 65 \<le> uint c \<and> uint c \<le> 70 \<or>
     97 \<le> uint c \<and> uint c \<le> 102"
  using ctype_at [OF ctype_table, of c] by (simp add: isxdigit_def)

end
