(* ===== verification/PsxcdBlk.thy ===== *)
theory PsxcdBlk
  imports Psxcd Klib
begin

text \<open>
  The block-device half of \<^verbatim>\<open>drivers/block/psxcd.c\<close>: the command-line options, the
  ISO9660 lookup that finds the root image, the request function and the file
  operations. The sector reader is a parameter \<open>rd\<close> of the walks, with the
  contract of the locale \<open>sector_reader\<close>; the driver instantiates it with
  \<^const>\<open>psxcd_hw_read\<close>.
\<close>

section \<open>Command-line options\<close>

definition psxcd_base_setup :: "cstr \<Rightarrow> 'a cd_scheme \<Rightarrow> 'a cd_scheme" where
  "psxcd_base_setup str s = s\<lparr>psxcd_base_lba := fst (simple_strtoul str 0), psxcd_base_forced := True\<rparr>"

definition psxcd_size_setup :: "cstr \<Rightarrow> 'a cd_scheme \<Rightarrow> 'a cd_scheme" where
  "psxcd_size_setup str s = s\<lparr>psxcd_len_kb := fst (simple_strtoul str 0)\<rparr>"

definition psxcd_probe_setup :: "cstr \<Rightarrow> 'a cd_scheme \<Rightarrow> 'a cd_scheme" where
  "psxcd_probe_setup str s = s\<lparr>psxcd_probe := sint (fst (simple_strtoul str 0))\<rparr>"

text \<open>The copy into the 32-byte array stops at 31 characters or at the NUL.\<close>

definition psxcd_file_setup :: "cstr \<Rightarrow> 'a cd_scheme \<Rightarrow> 'a cd_scheme" where
  "psxcd_file_setup str s = s\<lparr>psxcd_file_name := take 31 str\<rparr>"

section \<open>ISO9660 records\<close>

abbreviation (input) ISO_PVD_LBA :: u32 where "ISO_PVD_LBA \<equiv> 16"
abbreviation (input) ISO_ROOT_RECORD :: u32 where "ISO_ROOT_RECORD \<equiv> 156"
abbreviation (input) ISO_REC_EXTENT :: u32 where "ISO_REC_EXTENT \<equiv> 2"
abbreviation (input) ISO_REC_SIZE :: u32 where "ISO_REC_SIZE \<equiv> 10"
abbreviation (input) ISO_REC_FLAGS :: u32 where "ISO_REC_FLAGS \<equiv> 25"
abbreviation (input) ISO_REC_NAMELEN :: u32 where "ISO_REC_NAMELEN \<equiv> 32"
abbreviation (input) ISO_REC_NAME :: u32 where "ISO_REC_NAME \<equiv> 33"
abbreviation (input) ISO_MAX_ROOT_BYTES :: u32 where "ISO_MAX_ROOT_BYTES \<equiv> 64 * 2048"

text \<open>What the CPU loads from a kernel address: KSEG0 and KSEG1 show physical memory.\<close>

definition cd_ld8 :: "'a cd_scheme \<Rightarrow> u32 \<Rightarrow> u8" where
  "cd_ld8 s a = cd_mem s (a AND 0x1fffffff)"

definition iso_le32 :: "(u32 \<Rightarrow> u8) \<Rightarrow> u32 \<Rightarrow> u32" where
  "iso_le32 m p = ucast (m p) OR push_bit 8 (ucast (m (p + 1))) OR push_bit 16 (ucast (m (p + 2)))
     OR push_bit 24 (ucast (m (p + 3)))"

function iso_trim :: "(u32 \<Rightarrow> u8) \<Rightarrow> u32 \<Rightarrow> nat \<Rightarrow> nat \<Rightarrow> nat" where
  "iso_trim m i_d i idlen =
    (if i < idlen then if m (i_d + of_nat i) = 0x3b then i else iso_trim m i_d (i + 1) idlen else idlen)"
  by pat_completeness auto

termination
  by (relation "measure (\<lambda>(_, _, i, n). n - i)") auto

definition iso_up :: "int \<Rightarrow> int" where
  "iso_up a = (if a \<ge> 97 \<and> a \<le> 122 then a - 32 else a)"

function iso_cmp :: "(u32 \<Rightarrow> u8) \<Rightarrow> u32 \<Rightarrow> cstr \<Rightarrow> nat \<Rightarrow> nat \<Rightarrow> bool" where
  "iso_cmp m i_d want i idlen =
    (if i < idlen
     then let a = uint (m (i_d + of_nat i)); b = sint (ch want i) in
          if b = 0 then False
          else if iso_up a \<noteq> iso_up b then False
          else iso_cmp m i_d want (i + 1) idlen
     else ch want idlen = 0)"
  by pat_completeness auto

termination
  by (relation "measure (\<lambda>(_, _, _, i, n). n - i)") auto

definition iso_name_eq :: "(u32 \<Rightarrow> u8) \<Rightarrow> u32 \<Rightarrow> nat \<Rightarrow> cstr \<Rightarrow> bool" where
  "iso_name_eq m i_d idlen want = iso_cmp m i_d want 0 (iso_trim m i_d 0 idlen)"

declare iso_trim.simps [simp del]
declare iso_cmp.simps [simp del]

section \<open>The directory walk\<close>

datatype iso_hit = IsoNone | IsoTooSmall | IsoFound u32 u32

text \<open>The \<^verbatim>\<open>while (off < PSXCD_SECTOR)\<close> loop over one sector of the root directory.\<close>

function iso_scan :: "(u32 \<Rightarrow> u8) \<Rightarrow> u32 \<Rightarrow> cstr \<Rightarrow> nat \<Rightarrow> iso_hit" where
  "iso_scan m b name off =
    (if off < PSXCD_SECTOR
     then let rec = b + of_nat off; reclen = unat (m rec) in
          if reclen = 0 then IsoNone
          else if off + reclen > PSXCD_SECTOR then IsoNone
          else let namelen = unat (m (rec + ISO_REC_NAMELEN)) in
               if m (rec + ISO_REC_FLAGS) AND 0x02 = 0 \<and> namelen > 0 \<and> 33 + namelen \<le> reclen \<and>
                  iso_name_eq m (rec + ISO_REC_NAME) namelen name
               then let lba = iso_le32 m (rec + ISO_REC_EXTENT); len = iso_le32 m (rec + ISO_REC_SIZE) in
                    if lba = 0 \<or> len < 2048 then IsoTooSmall else IsoFound lba len
               else iso_scan m b name (off + reclen)
     else IsoNone)"
  by pat_completeness auto

termination
  by (relation "measure (\<lambda>(_, _, _, off). PSXCD_SECTOR - off)") (auto simp: Let_def)

text \<open>The listing printed when the file is not there: name, directory flag, extent, size.\<close>

function iso_list :: "(u32 \<Rightarrow> u8) \<Rightarrow> u32 \<Rightarrow> nat \<Rightarrow> (u8 list \<times> bool \<times> u32 \<times> u32) list" where
  "iso_list m b off =
    (if off < PSXCD_SECTOR
     then let rec = b + of_nat off; reclen = unat (m rec) in
          if reclen = 0 \<or> off + reclen > PSXCD_SECTOR then []
          else let namelen = unat (m (rec + ISO_REC_NAMELEN));
                   entry = (if namelen > 0 \<and> 33 + namelen \<le> reclen
                     then [(map (\<lambda>i. let c = m (rec + ISO_REC_NAME + of_nat i) in
                                     if 0x20 \<le> c \<and> c < 0x7f then c else 0x2e) [0..<min namelen 39],
                            m (rec + ISO_REC_FLAGS) AND 0x02 \<noteq> 0,
                            iso_le32 m (rec + ISO_REC_EXTENT), iso_le32 m (rec + ISO_REC_SIZE))]
                     else [])
               in entry @ iso_list m b (off + reclen)
     else [])"
  by pat_completeness auto

termination
  by (relation "measure (\<lambda>(_, _, off). PSXCD_SECTOR - off)") (auto simp: Let_def)

declare iso_scan.simps [simp del]
declare iso_list.simps [simp del]

datatype iso_walk_result = WalkIoError | WalkTooSmall | WalkEnd | WalkFound u32 u32

type_synonym 'a reader = "u32 \<Rightarrow> u32 \<Rightarrow> 'a cd_scheme \<Rightarrow> (bool \<times> 'a cd_scheme) option"

partial_function (option) iso_walk ::
  "'a reader \<Rightarrow> u32 \<Rightarrow> u32 \<Rightarrow> u32 \<Rightarrow> 'a cd_scheme \<Rightarrow> (iso_walk_result \<times> 'a cd_scheme) option" where
  "iso_walk rd root_lba root_len sector s =
    (if sector * 2048 < root_len
     then do {
       (ok, s) \<leftarrow> rd (root_lba + sector) (psxcd_probe_buf s) s;
       if \<not> ok then Some (WalkIoError, s)
       else case iso_scan (cd_ld8 s) (psxcd_probe_buf s) (psxcd_file_name s) 0 of
              IsoFound lba len \<Rightarrow> Some (WalkFound lba len, s)
            | IsoTooSmall \<Rightarrow> Some (WalkTooSmall, s)
            | IsoNone \<Rightarrow> iso_walk rd root_lba root_len (sector + 1) s
     }
     else Some (WalkEnd, s))"

partial_function (option) iso_list_walk ::
  "'a reader \<Rightarrow> u32 \<Rightarrow> u32 \<Rightarrow> u32 \<Rightarrow> 'a cd_scheme \<Rightarrow> 'a cd_scheme option" where
  "iso_list_walk rd root_lba root_len sector s =
    (if sector * 2048 < root_len
     then do {
       (ok, s) \<leftarrow> rd (root_lba + sector) (psxcd_probe_buf s) s;
       if \<not> ok then Some s
       else iso_list_walk rd root_lba root_len (sector + 1)
              (s\<lparr>cd_listing := cd_listing s @ iso_list (cd_ld8 s) (psxcd_probe_buf s) 0\<rparr>)
     }
     else Some s)"

definition iso_pvd_ok :: "(u32 \<Rightarrow> u8) \<Rightarrow> u32 \<Rightarrow> bool" where
  "iso_pvd_ok m b \<longleftrightarrow> m b = 1 \<and> m (b + 1) = 0x43 \<and> m (b + 2) = 0x44 \<and> m (b + 3) = 0x30 \<and>
     m (b + 4) = 0x30 \<and> m (b + 5) = 0x31"

text \<open>The root directory's extent and length, unless the descriptor is refused (lines 642-672).\<close>

definition iso_root_extent :: "(u32 \<Rightarrow> u8) \<Rightarrow> u32 \<Rightarrow> (u32 \<times> u32) option" where
  "iso_root_extent m b =
    (if \<not> iso_pvd_ok m b then None
     else let root_lba = iso_le32 m (b + ISO_ROOT_RECORD + ISO_REC_EXTENT);
              root_len = iso_le32 m (b + ISO_ROOT_RECORD + ISO_REC_SIZE) in
          if root_lba = 0 \<or> root_len = 0 then None
          else if root_len > ISO_MAX_ROOT_BYTES then None
          else Some (root_lba, root_len))"

text \<open>The two walks over the root directory (lines 674-770).\<close>

definition iso_find :: "'a reader \<Rightarrow> u32 \<Rightarrow> u32 \<Rightarrow> 'a cd_scheme \<Rightarrow> (bool \<times> 'a cd_scheme) option" where
  "iso_find rd root_lba root_len s =
    do {
      (r, s) \<leftarrow> iso_walk rd root_lba root_len 0 s;
      (case r of
         WalkIoError \<Rightarrow> Some (False, s)
       | WalkTooSmall \<Rightarrow> Some (False, s)
       | WalkFound lba len \<Rightarrow> Some (True, s\<lparr>psxcd_base_lba := lba, psxcd_len_kb := drop_bit 10 len\<rparr>)
       | WalkEnd \<Rightarrow> do { s \<leftarrow> iso_list_walk rd root_lba root_len 0 s; Some (False, s) })
    }"

definition iso_lookup :: "'a reader \<Rightarrow> 'a cd_scheme \<Rightarrow> (bool \<times> 'a cd_scheme) option" where
  "iso_lookup rd s =
    do {
      (ok, s) \<leftarrow> rd ISO_PVD_LBA (psxcd_probe_buf s) s;
      if \<not> ok then Some (False, s)
      else case iso_root_extent (cd_ld8 s) (psxcd_probe_buf s) of
             None \<Rightarrow> Some (False, s)
           | Some (root_lba, root_len) \<Rightarrow> iso_find rd root_lba root_len s
    }"

definition psxcd_iso_lookup :: "'a cd_scheme \<Rightarrow> (bool \<times> 'a cd_scheme) option" where
  "psxcd_iso_lookup s = iso_lookup psxcd_hw_read s"

section \<open>Requests\<close>

fun cd_read_run :: "'a reader \<Rightarrow> nat \<Rightarrow> u32 \<Rightarrow> u32 \<Rightarrow> 'a cd_scheme \<Rightarrow> (bool \<times> 'a cd_scheme) option" where
  "cd_read_run rd 0 lba buf s = Some (True, s)"
| "cd_read_run rd (Suc n) lba buf s =
    do {
      (ok, s) \<leftarrow> rd lba buf s;
      if \<not> ok then Some (False, s) else cd_read_run rd n (lba + 1) (buf + 2048) s
    }"

partial_function (option) cd_requests :: "'a reader \<Rightarrow> 'a cd_scheme \<Rightarrow> 'a cd_scheme option" where
  "cd_requests rd s =
    (case rq_queue s of
       [] \<Rightarrow> Some s
     | req # _ \<Rightarrow>
         if rq_cmd req \<noteq> READ then cd_requests rd (end_request False s)
         else if rq_sector req AND 3 \<noteq> 0 \<or> rq_current_nr_sectors req AND 3 \<noteq> 0
         then cd_requests rd (end_request False s)
         else do {
           (ok, s) \<leftarrow> cd_read_run rd (unat (drop_bit 2 (rq_current_nr_sectors req)))
                        (psxcd_base_lba s + drop_bit 2 (rq_sector req)) (rq_buffer req) s;
           cd_requests rd (end_request ok s)
         })"

definition do_psxcd_request :: "'a cd_scheme \<Rightarrow> 'a cd_scheme option" where
  "do_psxcd_request s = cd_requests psxcd_hw_read s"

section \<open>File operations and initialisation\<close>

datatype errno = ENXIO | EROFS | EACCES | EINVAL | EBUSY

definition psxcd_open :: "bool \<Rightarrow> 'a cd_scheme \<Rightarrow> errno option \<times> 'a cd_scheme" where
  "psxcd_open for_write s =
    (if \<not> psxcd_present s then (Some ENXIO, s)
     else if for_write then (Some EROFS, s)
     else (None, s\<lparr>psxcd_use := psxcd_use s + 1\<rparr>))"

definition psxcd_release :: "'a cd_scheme \<Rightarrow> 'a cd_scheme" where
  "psxcd_release s = s\<lparr>psxcd_use := psxcd_use s - 1\<rparr>"

datatype cd_ioctl_cmd = BLKGETSIZE | BLKFLSBUF | OtherIoctl

text \<open>
  The value delivered to the caller, or the error. \<open>capable\<close> is the kernel's
  capability check; flushing the buffer cache is the VFS's business.
\<close>

definition psxcd_ioctl :: "bool \<Rightarrow> cd_ioctl_cmd \<Rightarrow> 'a cd_scheme \<Rightarrow> errno + u32" where
  "psxcd_ioctl capable cmd s =
    (case cmd of
       BLKGETSIZE \<Rightarrow> Inr (psxcd_len_kb s * 2)
     | BLKFLSBUF \<Rightarrow> if \<not> capable then Inl EACCES else Inr 0
     | OtherIoctl \<Rightarrow> Inl EINVAL)"

text \<open>
  \<open>reg_ok\<close>: \<^verbatim>\<open>register_blkdev\<close> succeeded; \<open>root_is_cd\<close>: the root device has this
  driver's major. The result is the initcall's return value.
\<close>

definition psxcd_init :: "bool \<Rightarrow> bool \<Rightarrow> 'a cd_scheme \<Rightarrow> (errno option \<times> 'a cd_scheme) option" where
  "psxcd_init reg_ok root_is_cd s =
    (if \<not> reg_ok then Some (Some EBUSY, s)
     else let s = s\<lparr>psxcd_hardsects := 2048, psxcd_blocksizes := 2048, psxcd_sizes := psxcd_len_kb s\<rparr>;
              (ok, s) = psxcd_hw_init s in
          if \<not> ok then Some (None, s)
          else do {
            s \<leftarrow> (if psxcd_base_forced s then Some s
                  else if psxcd_probe s = 0 \<or> (psxcd_probe s < 0 \<and> \<not> root_is_cd) then Some s
                  else do { (found, s) \<leftarrow> psxcd_iso_lookup s; Some s });
            Some (None, s\<lparr>psxcd_sizes := psxcd_len_kb s\<rparr>)
          })"

lemmas iso_walk_induct = iso_walk.raw_induct [rotated, consumes 1, case_names step]
lemmas iso_list_walk_induct = iso_list_walk.raw_induct [rotated, consumes 1, case_names step]
lemmas cd_requests_induct = cd_requests.raw_induct [rotated, consumes 1, case_names step]

section \<open>One directory sector\<close>

text \<open>The offsets of the records of one sector, as their length bytes chain them.\<close>

function iso_chain :: "(u32 \<Rightarrow> u8) \<Rightarrow> u32 \<Rightarrow> nat \<Rightarrow> nat list" where
  "iso_chain m b off =
    (if off < PSXCD_SECTOR \<and> unat (m (b + of_nat off)) \<noteq> 0 \<and> off + unat (m (b + of_nat off)) \<le> PSXCD_SECTOR
     then off # iso_chain m b (off + unat (m (b + of_nat off))) else [])"
  by pat_completeness auto

termination
  by (relation "measure (\<lambda>(_, _, off). PSXCD_SECTOR - off)") auto

declare iso_chain.simps [simp del]

text \<open>A record that describes the wanted file.\<close>

definition iso_is_file :: "(u32 \<Rightarrow> u8) \<Rightarrow> u32 \<Rightarrow> cstr \<Rightarrow> bool" where
  "iso_is_file m rec name \<longleftrightarrow> m (rec + 25) AND 0x02 = 0 \<and> unat (m (rec + 32)) > 0 \<and>
     33 + unat (m (rec + 32)) \<le> unat (m rec) \<and> iso_name_eq m (rec + 33) (unat (m (rec + 32))) name"

definition iso_hit_of :: "(u32 \<Rightarrow> u8) \<Rightarrow> u32 \<Rightarrow> nat option \<Rightarrow> iso_hit" where
  "iso_hit_of m b r =
    (case r of None \<Rightarrow> IsoNone
     | Some off \<Rightarrow> let lba = iso_le32 m (b + of_nat off + 2); len = iso_le32 m (b + of_nat off + 10) in
                    if lba = 0 \<or> len < 2048 then IsoTooSmall else IsoFound lba len)"

lemma iso_scan_first:
  "iso_scan m b name off = iso_hit_of m b (List.find (\<lambda>o'. iso_is_file m (b + of_nat o') name) (iso_chain m b off))"
proof (induction m b name off rule: iso_scan.induct)
  case (1 m b name off)
  let ?rec = "b + of_nat off"
  show ?case
  proof (cases "off < PSXCD_SECTOR \<and> unat (m ?rec) \<noteq> 0 \<and> off + unat (m ?rec) \<le> PSXCD_SECTOR")
    case True
    show ?thesis
    proof (cases "iso_is_file m ?rec name")
      case hit: True
      then show ?thesis
        using True
        by (subst iso_scan.simps, subst iso_chain.simps)
           (simp add: Let_def iso_is_file_def iso_hit_of_def)
    next
      case False
      have "iso_scan m b name off = iso_scan m b name (off + unat (m ?rec))"
        using True False
        by (subst iso_scan.simps) (auto simp: Let_def iso_is_file_def)
      also have "\<dots> = iso_hit_of m b (List.find (\<lambda>o'. iso_is_file m (b + of_nat o') name)
                       (iso_chain m b (off + unat (m ?rec))))"
        using True False by (intro "1.IH" [OF _ refl refl _ _ refl]) (auto simp: iso_is_file_def)
      also have "\<dots> = iso_hit_of m b (List.find (\<lambda>o'. iso_is_file m (b + of_nat o') name) (iso_chain m b off))"
        using True False by (subst (2) iso_chain.simps) simp
      finally show ?thesis .
    qed
  next
    case False
    then show ?thesis
      by (subst iso_scan.simps, subst iso_chain.simps)
         (auto simp: Let_def iso_hit_of_def)
  qed
qed

lemma cd_ld8_base [simp]: "cd_ld8 (s\<lparr>psxcd_base_lba := l, psxcd_len_kb := k\<rparr>) = cd_ld8 s"
  by (simp add: cd_ld8_def fun_eq_iff)

text \<open>
  The outcome of a lookup: on success the image's extent comes from a record of
  the sector in the scratch buffer, on failure nothing but the listing and the
  reader's own state has changed.
\<close>

definition iso_post :: "'a cd_scheme \<Rightarrow> bool \<Rightarrow> 'a cd_scheme \<Rightarrow> bool" where
  "iso_post s ok s' \<longleftrightarrow>
    (if ok then (\<exists>len. psxcd_len_kb s' = drop_bit 10 len \<and>
        iso_scan (cd_ld8 s') (psxcd_probe_buf s') (psxcd_file_name s') 0 = IsoFound (psxcd_base_lba s') len) \<and>
        cd_same s (s'\<lparr>psxcd_base_lba := psxcd_base_lba s, psxcd_len_kb := psxcd_len_kb s\<rparr>)
     else cd_same s (s'\<lparr>cd_listing := cd_listing s\<rparr>))"

lemma iso_post_fail: "cd_same s s' \<Longrightarrow> iso_post s False s'"
  by (simp add: iso_post_def cd_same_iff)

lemma iso_post_found:
  assumes "cd_same s s1" "iso_scan (cd_ld8 s1) (psxcd_probe_buf s1) (psxcd_file_name s1) 0 = IsoFound lba len"
  shows "iso_post s True (s1\<lparr>psxcd_base_lba := lba, psxcd_len_kb := drop_bit 10 len\<rparr>)"
proof -
  have "cd_same s (s1\<lparr>psxcd_base_lba := psxcd_base_lba s, psxcd_len_kb := psxcd_len_kb s\<rparr>)"
    using assms(1) by (simp add: cd_same_iff)
  then show ?thesis
    using assms(2) by (auto simp: iso_post_def)
qed

lemma cd_same_upd_trans:
  "cd_same s s1 \<Longrightarrow> cd_same s1 (s'\<lparr>psxcd_base_lba := psxcd_base_lba s1, psxcd_len_kb := psxcd_len_kb s1\<rparr>) \<Longrightarrow>
     cd_same s (s'\<lparr>psxcd_base_lba := psxcd_base_lba s, psxcd_len_kb := psxcd_len_kb s\<rparr>)"
  "cd_same s s1 \<Longrightarrow> cd_same s1 (s'\<lparr>cd_listing := cd_listing s1\<rparr>) \<Longrightarrow> cd_same s (s'\<lparr>cd_listing := cd_listing s\<rparr>)"
  by (simp_all add: cd_same_iff)

lemma iso_post_trans: "cd_same s s1 \<Longrightarrow> iso_post s1 ok s' \<Longrightarrow> iso_post s ok s'"
  unfolding iso_post_def using cd_same_upd_trans by (metis (full_types))

lemma iso_root_extent_bound:
  "iso_root_extent m b = Some (rl, rn) \<Longrightarrow> unat rn \<le> 131072 \<and> rl \<noteq> 0 \<and> rn \<noteq> 0"
  by (auto simp: iso_root_extent_def Let_def word_less_nat_alt split: if_splits)

section \<open>The contract of a sector reader\<close>

text \<open>
  What the walks rely on: a read changes only the reader's own globals and
  memory inside the sector buffer, and returns while the drive is alive, which
  is a matter of the device and not of the driver's state.
\<close>

locale sector_reader =
  fixes rd :: "'a reader"
    and alive :: "'a cd_scheme \<Rightarrow> bool"
  assumes rd_same: "rd lba buf s = Some (ok, s') \<Longrightarrow> cd_same s s'"
    and rd_returns: "alive s \<Longrightarrow> \<exists>ok s'. rd lba buf s = Some (ok, s')"
    and alive_env: "hw_env s' = hw_env s \<Longrightarrow> alive s' = alive s"
begin

lemma alive_same: "cd_same s s' \<Longrightarrow> alive s' = alive s"
  by (rule alive_env) (rule cd_same_fields)

lemma rd_alive:
  assumes "alive s"
  obtains ok s' where "rd lba buf s = Some (ok, s')" "alive s'"
proof -
  obtain ok s' where r: "rd lba buf s = Some (ok, s')"
    using rd_returns [OF assms] by blast
  then show ?thesis
    using alive_same [OF rd_same [OF r]] assms that by blast
qed

lemma walk_same_aux:
  "iso_walk rd' rl rn sec s = Some y \<Longrightarrow> rd' = rd \<Longrightarrow> cd_same s (snd y)"
proof (induction rule: iso_walk_induct)
  case (step f rd' rl rn sec s y)
  then show ?case
    by (cases y) (auto simp: bind_eq_Some_conv split: if_splits iso_hit.splits dest!: rd_same,
        blast intro: cd_same_trans)
qed

lemma walk_found_aux:
  "iso_walk rd' rl rn sec s = Some y \<Longrightarrow> fst y = WalkFound lba len \<Longrightarrow>
     iso_scan (cd_ld8 (snd y)) (psxcd_probe_buf (snd y)) (psxcd_file_name (snd y)) 0 = IsoFound lba len"
proof (induction rule: iso_walk_induct)
  case (step f rd' rl rn sec s y)
  then show ?case
    by (cases y) (auto simp: bind_eq_Some_conv split: if_splits iso_hit.splits)
qed

lemma list_walk_same_aux:
  "iso_list_walk rd' rl rn sec s = Some s' \<Longrightarrow> rd' = rd \<Longrightarrow> cd_same s (s'\<lparr>cd_listing := cd_listing s\<rparr>)"
proof (induction rule: iso_list_walk_induct)
  case (step f rd' rl rn sec s s')
  show ?case
  proof (cases "sec * 2048 < rn")
    case False
    then show ?thesis
      using step by simp
  next
    case True
    then obtain ok s1 where r: "rd (rl + sec) (psxcd_probe_buf s) s = Some (ok, s1)"
      using step by (auto simp: bind_eq_Some_conv)
    note sm = cd_same_fields [OF rd_same [OF r]]
    show ?thesis
    proof (cases ok)
      case False
      then show ?thesis
        using step True r rd_same [OF r] by (simp add: cd_same_iff)
    next
      case ok: True
      let ?s2 = "s1\<lparr>cd_listing := cd_listing s1 @ iso_list (cd_ld8 s1) (psxcd_probe_buf s1) 0\<rparr>"
      have "f rd rl rn (sec + 1) ?s2 = Some s'"
        using step(2,3) True r ok by simp
      then have "cd_same ?s2 (s'\<lparr>cd_listing := cd_listing ?s2\<rparr>)"
        using step(1) by blast
      then show ?thesis
        using sm by (simp add: cd_same_iff)
    qed
  qed
qed

text \<open>The scan bound: at most 64 sectors, so the walk ends before the sector counter wraps.\<close>

lemma walk_returns:
  "alive s \<Longrightarrow> unat rn \<le> 131072 \<Longrightarrow> unat sec \<le> 64 \<Longrightarrow> \<exists>r s'. iso_walk rd rl rn sec s = Some (r, s')"
proof (induction "64 - unat sec" arbitrary: sec s)
  case (0 sec s)
  then have "unat sec = 64"
    by simp
  then have "sec = 64"
    by (simp add: word_unat_eq_iff)
  then have "\<not> sec * 2048 < rn"
    using 0 by (simp add: word_less_nat_alt)
  then show ?case
    by (subst iso_walk.simps) simp
next
  case (Suc k sec s)
  then have lt: "unat sec < 64"
    by simp
  then have sec1: "unat (sec + 1) = unat sec + 1"
    by (intro unat_add_lem [THEN iffD1, THEN trans]) auto
  obtain ok s1 where r: "rd (rl + sec) (psxcd_probe_buf s) s = Some (ok, s1)" "alive s1"
    using rd_alive [OF Suc.prems(1)] by blast
  have "\<exists>r s'. iso_walk rd rl rn (sec + 1) s1 = Some (r, s')"
    using Suc.hyps Suc.prems r(2) sec1 lt by (intro Suc.hyps(1)) auto
  then show ?case
    using r by (subst iso_walk.simps) (auto split: iso_hit.split)
qed

lemma list_walk_returns:
  "alive s \<Longrightarrow> unat rn \<le> 131072 \<Longrightarrow> unat sec \<le> 64 \<Longrightarrow> \<exists>s'. iso_list_walk rd rl rn sec s = Some s'"
proof (induction "64 - unat sec" arbitrary: sec s)
  case (0 sec s)
  then have "sec = 64"
    by (simp add: word_unat_eq_iff)
  then have "\<not> sec * 2048 < rn"
    using 0 by (simp add: word_less_nat_alt)
  then show ?case
    by (subst iso_list_walk.simps) simp
next
  case (Suc k sec s)
  then have lt: "unat sec < 64"
    by simp
  then have sec1: "unat (sec + 1) = unat sec + 1"
    by (intro unat_add_lem [THEN iffD1, THEN trans]) auto
  obtain ok s1 where r: "rd (rl + sec) (psxcd_probe_buf s) s = Some (ok, s1)" "alive s1"
    using rd_alive [OF Suc.prems(1)] by blast
  let ?s2 = "s1\<lparr>cd_listing := cd_listing s1 @ iso_list (cd_ld8 s1) (psxcd_probe_buf s1) 0\<rparr>"
  have "alive ?s2"
    using alive_env [of ?s2 s1] r(2) by simp
  then have "\<exists>s'. iso_list_walk rd rl rn (sec + 1) ?s2 = Some s'"
    using Suc.hyps Suc.prems sec1 lt by (intro Suc.hyps(1)) auto
  then show ?case
    using r by (subst iso_list_walk.simps) auto
qed

lemma find_returns:
  assumes "alive s" "unat rn \<le> 131072"
  shows "\<exists>ok s'. iso_find rd rl rn s = Some (ok, s')"
proof -
  obtain res s2 where w: "iso_walk rd rl rn 0 s = Some (res, s2)"
    using walk_returns [OF assms, of 0 rl] by auto
  have "alive s2"
    using alive_same [OF walk_same_aux [OF w refl]] assms(1) by simp
  then obtain s3 where "iso_list_walk rd rl rn 0 s2 = Some s3"
    using list_walk_returns [OF _ assms(2), of s2 0 rl] by auto
  then show ?thesis
    using w by (cases res) (auto simp: iso_find_def)
qed

lemma lookup_returns:
  assumes "alive s"
  shows "\<exists>ok s'. iso_lookup rd s = Some (ok, s')"
proof -
  obtain ok s1 where r: "rd ISO_PVD_LBA (psxcd_probe_buf s) s = Some (ok, s1)" "alive s1"
    using rd_alive [OF assms] by blast
  then show ?thesis
    using find_returns [OF r(2)] iso_root_extent_bound
    by (fastforce simp: iso_lookup_def split: option.split)
qed

lemma find_cases:
  assumes "iso_find rd rl rn s = Some (ok, s')"
  shows "iso_post s ok s'"
proof -
  obtain res s2 where w: "iso_walk rd rl rn 0 s = Some (res, s2)"
    using assms by (auto simp: iso_find_def bind_eq_Some_conv)
  note same = walk_same_aux [OF w refl, simplified]
  show ?thesis
  proof (cases res)
    case WalkEnd
    then obtain s3 where l: "iso_list_walk rd rl rn 0 s2 = Some s3" and ok: "\<not> ok" "s' = s3"
      using assms w by (auto simp: iso_find_def bind_eq_Some_conv)
    show ?thesis
      using list_walk_same_aux [OF l refl] same ok by (simp add: iso_post_def cd_same_iff)
  next
    case (WalkFound lba len)
    then have "ok" "s' = s2\<lparr>psxcd_base_lba := lba, psxcd_len_kb := drop_bit 10 len\<rparr>"
      using assms w by (simp_all add: iso_find_def)
    then show ?thesis
      using iso_post_found [OF same] walk_found_aux [OF w, of lba len] WalkFound by simp
  qed (use assms w iso_post_fail [OF same] in \<open>simp_all add: iso_find_def\<close>)
qed

lemma lookup_cases:
  assumes "iso_lookup rd s = Some (ok, s')"
  shows "iso_post s ok s'"
proof -
  obtain ok1 s1 where r: "rd ISO_PVD_LBA (psxcd_probe_buf s) s = Some (ok1, s1)"
    using assms by (auto simp: iso_lookup_def bind_eq_Some_conv)
  note same = rd_same [OF r]
  show ?thesis
  proof (cases "ok1 \<and> (\<exists>e. iso_root_extent (cd_ld8 s1) (psxcd_probe_buf s1) = Some e)")
    case True
    then obtain rl rn where "iso_find rd rl rn s1 = Some (ok, s')"
      using assms r by (auto simp: iso_lookup_def)
    then show ?thesis
      by (rule iso_post_trans [OF same find_cases])
  next
    case False
    then have "ok = False" "s' = s1"
      using assms r by (auto simp: iso_lookup_def split: if_splits option.splits)
    then show ?thesis
      using same by (simp add: iso_post_def cd_same_iff)
  qed
qed

section \<open>Requests\<close>

lemma read_run_same:
  "cd_read_run rd n lba buf s = Some (ok, s') \<Longrightarrow> cd_same s s'"
proof (induction n arbitrary: lba buf s)
  case (Suc n)
  then show ?case
    by (auto simp: bind_eq_Some_conv split: if_splits dest!: rd_same intro: cd_same_trans)
qed simp

lemma read_run_returns: "alive s \<Longrightarrow> \<exists>ok s'. cd_read_run rd n lba buf s = Some (ok, s')"
proof (induction n arbitrary: lba buf s)
  case (Suc n)
  obtain ok s1 where r: "rd lba buf s = Some (ok, s1)" "alive s1"
    using rd_alive [OF Suc.prems] by blast
  then show ?case
    using Suc.IH [OF r(2)] by (cases ok) auto
qed auto

lemma requests_return: "alive s \<Longrightarrow> \<exists>s'. cd_requests rd s = Some s'"
proof (induction "rq_work s" arbitrary: s rule: less_induct)
  case less
  have IH: "\<exists>s'. cd_requests rd (end_request up x) = Some s'" if "cd_same s x" "rq_queue s \<noteq> []" for up x
  proof (rule less.hyps)
    have "rq_queue x = rq_queue s"
      using that(1) by (simp add: cd_same_iff)
    then show "rq_work (end_request up x) < rq_work s"
      using end_request_work [of x up] that(2) by (simp add: rq_work_def)
    show "alive (end_request up x)"
      using alive_env [of "end_request up x" s] cd_same_fields(1) [OF that(1)] less.prems by simp
  qed
  show ?case
  proof (cases "rq_queue s")
    case Nil
    then show ?thesis
      by (subst cd_requests.simps) simp
  next
    case (Cons req rest)
    obtain ok s1 where r: "cd_read_run rd (unat (drop_bit 2 (rq_current_nr_sectors req)))
        (psxcd_base_lba s + drop_bit 2 (rq_sector req)) (rq_buffer req) s = Some (ok, s1)"
      using read_run_returns [OF less.prems] by blast
    show ?thesis
      using IH [of s False] IH [OF read_run_same [OF r], of ok] Cons r
      by (subst cd_requests.simps) auto
  qed
qed

lemma requests_done_aux:
  "cd_requests rd' s = Some s' \<Longrightarrow> rd' = rd \<Longrightarrow>
     rq_queue s' = [] \<and> map fst (rq_done s') = map fst (rq_done s) @ pending s"
proof (induction rule: cd_requests_induct)
  case (step f rd' s s')
  show ?case
  proof (cases "rq_queue s")
    case Nil
    then show ?thesis
      using step by (simp add: pending_def)
  next
    case (Cons req rest)
    then obtain up x where x: "f rd (end_request up x) = Some s'" "cd_same s x"
      using step(2,3) by (auto simp: bind_eq_Some_conv split: if_splits dest: read_run_same)
    have e: "map fst (rq_done (end_request up x)) @ pending (end_request up x) = map fst (rq_done s) @ pending s"
      using end_request_pending [of x up] Cons cd_same_fields(2,3) [OF x(2)] by (simp add: pending_def)
    show ?thesis
      using step(1) [OF x(1) refl] e by simp
  qed
qed

end

text \<open>The driver's own reader satisfies the contract; its liveness is that acknowledging clears the flag.\<close>

interpretation hwrd: sector_reader psxcd_hw_read "\<lambda>s. cd_ack_clears (hw_env s)"
proof unfold_locales
  fix lba buf ok and s s' :: "'a cd_scheme"
  show "psxcd_hw_read lba buf s = Some (ok, s') \<Longrightarrow> cd_same s s'"
    using psxcd_hw_read_spec by blast
  show "cd_ack_clears (hw_env s) \<Longrightarrow> \<exists>ok s'. psxcd_hw_read lba buf s = Some (ok, s')"
    using psxcd_hw_read_returns [of s lba buf] by auto
qed simp

section \<open>A read-only device\<close>

lemma end_request_cmds:
  "\<forall>r\<in>set (rq_queue s). rq_cmd r \<noteq> READ \<Longrightarrow> \<forall>r\<in>set (rq_queue (end_request up s)). rq_cmd r \<noteq> READ"
  by (auto simp: end_request_def end_that_request_first_def Let_def split: list.splits)

lemma cd_requests_readonly:
  "cd_requests rd s = Some s' \<Longrightarrow> \<forall>r\<in>set (rq_queue s). rq_cmd r \<noteq> READ \<Longrightarrow>
     hw_trace s' = hw_trace s \<and> (\<exists>ds. rq_done s' = rq_done s @ ds \<and> (\<forall>d\<in>set ds. \<not> snd d))"
proof (induction rule: cd_requests_induct)
  case (step f rd s s')
  show ?case
  proof (cases "rq_queue s")
    case Nil
    then show ?thesis
      using step by simp
  next
    case (Cons req rest)
    then have f: "f rd (end_request False s) = Some s'"
      using step(2,3) by simp
    obtain ds where ds: "rq_done (end_request False s) = rq_done s @ ds" "\<forall>d\<in>set ds. \<not> snd d"
      using end_request_done [of False s] by auto
    obtain ds' where "hw_trace s' = hw_trace s" "rq_done s' = rq_done s @ ds @ ds'" "\<forall>d\<in>set ds'. \<not> snd d"
      using step(1) [OF f end_request_cmds [OF step(3)]] ds(1) by auto
    then show ?thesis
      using ds(2) by (auto intro!: exI [of _ "ds @ ds'"])
  qed
qed

section \<open>Names\<close>

definition iso_bytes :: "(u32 \<Rightarrow> u8) \<Rightarrow> u32 \<Rightarrow> nat \<Rightarrow> u8 list" where
  "iso_bytes m p n = map (\<lambda>i. m (p + of_nat i)) [0..<n]"

definition iso_fold :: "u8 list \<Rightarrow> int list" where
  "iso_fold bs = map (\<lambda>b. iso_up (uint b)) bs"

lemma iso_trim_takeWhile:
  "i \<le> n \<Longrightarrow> iso_trim m p i n = i + length (takeWhile (\<lambda>j. m (p + of_nat j) \<noteq> 0x3b) [i..<n])"
proof (induction m p i n rule: iso_trim.induct)
  case (1 m p i n)
  then show ?case
    by (subst iso_trim.simps) (auto simp: upt_conv_Cons)
qed

lemma iso_cmp_all:
  "iso_cmp m p want i k \<longleftrightarrow>
     (\<forall>j\<in>{i..<k}. sint (ch want j) \<noteq> 0 \<and> iso_up (uint (m (p + of_nat j))) = iso_up (sint (ch want j))) \<and> ch want k = 0"
proof (induction m p want i k rule: iso_cmp.induct)
  case (1 m p want i k)
  have split: "{i..<k} = insert i {i + 1..<k}" if "i < k"
    using that by auto
  show ?case
    using 1 by (subst iso_cmp.simps) (auto simp: Let_def split)
qed

lemma sint_ascii: "c < 0x80 \<Longrightarrow> sint (c :: u8) = uint c"
proof -
  assume "c < 0x80"
  then have "uint c < 128"
    by (simp add: word_less_def)
  moreover have "- 128 \<le> uint c"
    by (rule order_trans [of _ 0]) simp_all
  ultimately show ?thesis
    by (simp add: sint_uint signed_take_bit_int_eq_self_iff)
qed

lemma iso_bytes_trim:
  "takeWhile (\<lambda>c. c \<noteq> 0x3b) (iso_bytes m p n) = iso_bytes m p (iso_trim m p 0 n)"
proof -
  have "takeWhile (\<lambda>j. m (p + of_nat j) \<noteq> 0x3b) [0..<n] = [0..<iso_trim m p 0 n]"
    by (subst takeWhile_eq_take) (simp add: iso_trim_takeWhile min_absorb2 length_takeWhile_le [THEN order_trans])
  then show ?thesis
    by (simp add: iso_bytes_def takeWhile_map o_def)
qed

lemma iso_name_eq_iff:
  assumes "list_all (\<lambda>c. c \<noteq> 0 \<and> c < 0x80) want"
  shows "iso_name_eq m p n want \<longleftrightarrow>
    iso_fold (takeWhile (\<lambda>c. c \<noteq> 0x3b) (iso_bytes m p n)) = iso_fold want"
proof -
  let ?k = "iso_trim m p 0 n"
  have nul: "ch want j = 0 \<longleftrightarrow> length want \<le> j" "sint (ch want j) = uint (ch want j)" for j
    using assms by (auto simp: ch_def list_all_length sint_ascii)
  have all: "(\<forall>j<k. j < n) \<longleftrightarrow> k \<le> n" for k n :: nat
    by (meson less_le_trans not_le order_refl)
  have "iso_name_eq m p n want \<longleftrightarrow>
    (\<forall>j<?k. j < length want) \<and> (\<forall>j<?k. iso_up (uint (m (p + of_nat j))) = iso_up (uint (ch want j))) \<and> length want \<le> ?k"
    by (simp add: iso_name_eq_def iso_cmp_all nul uint_0_iff Ball_def not_le) blast
  also have "\<dots> \<longleftrightarrow>
    ?k = length want \<and> (\<forall>j<?k. iso_up (uint (m (p + of_nat j))) = iso_up (uint (want ! j)))"
    unfolding all by (auto simp: ch_def)
  finally have "iso_name_eq m p n want \<longleftrightarrow>
    ?k = length want \<and> (\<forall>j<?k. iso_up (uint (m (p + of_nat j))) = iso_up (uint (want ! j)))" .
  then show ?thesis
    unfolding iso_bytes_trim by (auto simp: iso_fold_def iso_bytes_def list_eq_iff_nth_eq)
qed

section \<open>Properties of the block device\<close>

text \<open>A streaming drive with the sector ready delivers what its DMA channel holds.\<close>

lemma psxcd_hw_read_delivers:
  assumes "cd_ready (hw_env s)" "cd_sequential lba s" "cd_dma s = (\<lambda>_. f)"
  obtains s' where "psxcd_hw_read lba buf s = Some (True, s')" "cd_same s s'" "psxcd_streaming s'"
    "psxcd_next_lba s' = lba + 1"
    "cd_mem s' = (\<lambda>a. if unat (a - (buf AND 0x00ffffff)) < PSXCD_SECTOR
       then (case f (unat (a - (buf AND 0x00ffffff))) of None \<Rightarrow> cd_mem s a | Some b \<Rightarrow> b) else cd_mem s a)"
proof -
  let ?s = "cd_take_irq s"
  have ready: "cd_ready (hw_env ?s)" and seek: "psxcd_seek lba ?s = Some (True, ?s)"
    using assms by (simp_all add: cd_take_irq_eq psxcd_seek_def cd_sequential_def)
  obtain s' where f: "psxcd_fetch lba buf ?s = (True, s')"
    using psxcd_fetch_ready [OF ready, of lba buf] by (metis prod.collapse)
  then have r: "psxcd_hw_read lba buf s = Some (True, s')"
    using seek by (simp add: psxcd_hw_read_def)
  from f obtain s3 s4 where e: "cd_ev ?s [] [] s3" "cd_ev (dma3_deliver (buf AND 0x00ffffff) s3) [] [] s4"
    and s': "s' = (cd_release_irq s4)\<lparr>psxcd_next_lba := lba + 1\<rparr>"
    by (rule psxcd_fetch_cases) auto
  have "cd_mem s3 = cd_mem s" "cd_dma s3 = (\<lambda>_. f)"
    using cd_ev_cd [OF e(1)] cd_same_fields(11) [OF cd_ev_cd(1) [OF e(1)]] assms(3)
    by (simp_all add: cd_take_irq_eq)
  then have "cd_mem s' = (\<lambda>a. if unat (a - (buf AND 0x00ffffff)) < PSXCD_SECTOR
       then (case f (unat (a - (buf AND 0x00ffffff))) of None \<Rightarrow> cd_mem s a | Some b \<Rightarrow> b) else cd_mem s a)"
    using cd_ev_cd(4) [OF e(2)]
    by (simp add: s' cd_release_irq_eq dma3_deliver_def cong: if_cong option.case_cong)
  then show ?thesis
    using that [OF r] psxcd_hw_read_spec [OF r] by simp
qed

text \<open>
  A disc whose every sector is at once a volume descriptor (root directory at
  sector 17, one sector long) and a directory holding ROOT.IMG, version 1, of
  2048 bytes.
\<close>

definition iso_demo_img :: "nat \<Rightarrow> u8" where
  "iso_demo_img i = (if i < 64 then
      [1, 0x43, 0x44, 0x30, 0x30, 0x31, 0, 0, 0, 0, 0, 0, 8, 0, 0, 0,
       0, 0, 0, 0, 0, 0, 0, 0, 0, 0, 0, 0, 0, 0, 0, 0,
       0, 10, 0x52, 0x4f, 0x4f, 0x54, 0x2e, 0x49, 0x4d, 0x47, 0x3b, 0x31, 0, 0, 0, 0,
       0, 0, 0, 0, 0, 0, 0, 0, 0, 0, 0, 0, 0, 0, 0, 0] ! i
     else if i = 158 then 17 else if i = 167 then 8 else 0)"

definition iso_demo :: cd where
  "iso_demo = cd_demo\<lparr>cd_dma := (\<lambda>_ i. Some (iso_demo_img i)),
     psxcd_file_name := [0x72, 0x6f, 0x6f, 0x74, 0x2e, 0x69, 0x6d, 0x67]\<rparr>"

definition iso_demo_mem :: "u32 \<Rightarrow> u8" where
  "iso_demo_mem a = (if unat (a - 0x00100000) < PSXCD_SECTOR then iso_demo_img (unat (a - 0x00100000)) else 0)"

lemma iso_demo_ld: "cd_mem s = iso_demo_mem \<Longrightarrow> cd_ld8 s = (\<lambda>a. iso_demo_mem (a AND 0x1fffffff))"
  by (simp add: cd_ld8_def fun_eq_iff)

lemma iso_demo_extent: "iso_root_extent (\<lambda>a. iso_demo_mem (a AND 0x1fffffff)) 0x80100000 = Some (17, 2048)"
  by (simp add: iso_root_extent_def iso_pvd_ok_def iso_le32_def iso_demo_mem_def iso_demo_img_def)

lemma iso_demo_scan:
  "iso_scan (\<lambda>a. iso_demo_mem (a AND 0x1fffffff)) 0x80100000
     [0x72, 0x6f, 0x6f, 0x74, 0x2e, 0x69, 0x6d, 0x67] 0 = IsoFound 0x313030 2048"
  by (simp add: iso_scan.simps iso_name_eq_def iso_trim.simps iso_cmp.simps iso_up_def ch_def iso_le32_def
      iso_demo_mem_def iso_demo_img_def)

lemma iso_demo_lookup: "\<exists>s'. psxcd_iso_lookup iso_demo = Some (True, s') \<and> psxcd_base_lba s' = 0x313030"
proof -
  have d: "cd_ready (hw_env iso_demo)" "cd_sequential 16 iso_demo" "cd_dma iso_demo = (\<lambda>_ i. Some (iso_demo_img i))"
    "psxcd_probe_buf iso_demo = 0x80100000" "cd_mem iso_demo = (\<lambda>_. 0)"
    by (simp_all add: iso_demo_def cd_demo_def cd_ready_def cd_sequential_def cd_demo_env_def)
  obtain s1 where r1: "psxcd_hw_read 16 0x80100000 iso_demo = Some (True, s1)" "cd_same iso_demo s1"
    "psxcd_streaming s1" "psxcd_next_lba s1 = 17" "cd_mem s1 = iso_demo_mem"
    by (rule psxcd_hw_read_delivers [OF d(1,2,3), of "0x80100000"])
       (auto simp: d(5) iso_demo_mem_def fun_eq_iff)
  note same1 = cd_same_fields [OF r1(2)]
  have d1: "cd_ready (hw_env s1)" "cd_sequential 17 s1" "cd_dma s1 = (\<lambda>_ i. Some (iso_demo_img i))"
    using d r1 same1 by (simp_all add: cd_sequential_def)
  obtain s2 where r2: "psxcd_hw_read 17 0x80100000 s1 = Some (True, s2)" "cd_same s1 s2" "cd_mem s2 = iso_demo_mem"
    by (rule psxcd_hw_read_delivers [OF d1, of "0x80100000"])
       (auto simp: r1(5) iso_demo_mem_def fun_eq_iff)
  have b: "psxcd_probe_buf s1 = 0x80100000" "psxcd_probe_buf s2 = 0x80100000"
    "psxcd_file_name s2 = [0x72, 0x6f, 0x6f, 0x74, 0x2e, 0x69, 0x6d, 0x67]"
    using cd_same_fields [OF r2(2)] same1 d(4) by (simp_all add: iso_demo_def)
  have "iso_walk psxcd_hw_read 17 2048 0 s1 = Some (WalkFound 0x313030 2048, s2)"
    by (subst iso_walk.simps) (simp add: r2 b iso_demo_ld iso_demo_scan)
  then show ?thesis
    using r1 b d(4) by (simp add: psxcd_iso_lookup_def iso_lookup_def iso_demo_ld iso_demo_extent iso_find_def)
qed

text \<open>
  C26: The ISO9660 lookup is sound. When it reports success, the image's first
  sector and size are the extent and length fields of a record on the chain of
  records of the directory sector in the scratch buffer; the record is not a
  directory, its name lies inside it and matches the wanted one, the extent is
  not zero and the file is at least one sector long. When it reports failure the
  image position and size are what they were, as its comment promises.
\<close>

theorem psxcd_iso_lookup_sound:
  assumes "psxcd_iso_lookup s = Some (ok, s')"
  shows "if ok
    then \<exists>off\<in>set (iso_chain (cd_ld8 s') (psxcd_probe_buf s) 0).
           let rec = psxcd_probe_buf s + of_nat off in
           iso_is_file (cd_ld8 s') rec (psxcd_file_name s) \<and>
           psxcd_base_lba s' = iso_le32 (cd_ld8 s') (rec + 2) \<and> psxcd_base_lba s' \<noteq> 0 \<and>
           psxcd_len_kb s' = drop_bit 10 (iso_le32 (cd_ld8 s') (rec + 10)) \<and> iso_le32 (cd_ld8 s') (rec + 10) \<ge> 2048
    else psxcd_base_lba s' = psxcd_base_lba s \<and> psxcd_len_kb s' = psxcd_len_kb s"
proof (cases ok)
  case False
  then show ?thesis
    using hwrd.lookup_cases [OF assms [unfolded psxcd_iso_lookup_def]] by (simp add: iso_post_def cd_same_iff)
next
  case True
  then obtain len where l: "psxcd_len_kb s' = drop_bit 10 len"
    "iso_scan (cd_ld8 s') (psxcd_probe_buf s') (psxcd_file_name s') 0 = IsoFound (psxcd_base_lba s') len"
    and same: "psxcd_probe_buf s' = psxcd_probe_buf s" "psxcd_file_name s' = psxcd_file_name s"
    using hwrd.lookup_cases [OF assms [unfolded psxcd_iso_lookup_def]] by (auto simp: iso_post_def cd_same_iff)
  then obtain off where off: "List.find (\<lambda>o'. iso_is_file (cd_ld8 s') (psxcd_probe_buf s + of_nat o') (psxcd_file_name s))
      (iso_chain (cd_ld8 s') (psxcd_probe_buf s) 0) = Some off"
    by (auto simp: iso_scan_first iso_hit_of_def split: option.splits)
  then have "off \<in> set (iso_chain (cd_ld8 s') (psxcd_probe_buf s) 0)"
    "iso_is_file (cd_ld8 s') (psxcd_probe_buf s + of_nat off) (psxcd_file_name s)"
    by (auto simp: find_Some_iff)
  moreover have "psxcd_base_lba s' = iso_le32 (cd_ld8 s') (psxcd_probe_buf s + of_nat off + 2)"
    "psxcd_base_lba s' \<noteq> 0" "len = iso_le32 (cd_ld8 s') (psxcd_probe_buf s + of_nat off + 10)" "2048 \<le> len"
    using l(2) off same by (auto simp: iso_scan_first iso_hit_of_def Let_def split: if_splits)
  ultimately show ?thesis
    using True l(1) by (auto simp: Let_def)
qed

theorem psxcd_iso_lookup_sound_witness:
  "\<exists>s'. psxcd_iso_lookup iso_demo = Some (True, s') \<and> psxcd_base_lba s' = 0x313030 \<and>
     (\<exists>off\<in>set (iso_chain (cd_ld8 s') (psxcd_probe_buf iso_demo) 0).
        psxcd_base_lba s' = iso_le32 (cd_ld8 s') (psxcd_probe_buf iso_demo + of_nat off + 2))"
proof -
  obtain s' where r: "psxcd_iso_lookup iso_demo = Some (True, s')" "psxcd_base_lba s' = 0x313030"
    using iso_demo_lookup by blast
  show ?thesis
    using psxcd_iso_lookup_sound [OF r(1)] r by (auto simp: Let_def)
qed

text \<open>
  The lookup ends. The directory length is refused above 64 sectors, so the
  two walks read at most 64 sectors each and the sector counter never wraps; if
  acknowledging clears the controller's interrupt flag the lookup returns in
  every state, whatever is on the disc.
\<close>

theorem psxcd_iso_lookup_terminates:
  assumes "cd_ack_clears (hw_env s)"
  shows "\<exists>ok s'. psxcd_iso_lookup s = Some (ok, s')"
  using hwrd.lookup_returns [OF assms] by (simp add: psxcd_iso_lookup_def)

theorem psxcd_iso_lookup_terminates_witness:
  "cd_ack_clears (hw_env (cd_demo\<lparr>hw_env := \<lambda>_ _. 0\<rparr>)) \<and>
   (\<exists>ok s'. psxcd_iso_lookup (cd_demo\<lparr>hw_env := \<lambda>_ _. 0\<rparr>) = Some (ok, s'))"
proof -
  have c: "cd_ack_clears (hw_env (cd_demo\<lparr>hw_env := \<lambda>_ _. 0\<rparr>))"
    by (simp add: cd_ack_clears_def)
  show ?thesis
    using psxcd_iso_lookup_terminates [OF c] c by blast
qed

text \<open>
  Comparing an ISO9660 identifier with a wanted ASCII name ignores case and
  everything from the first semicolon on, and nothing else: the comparison
  succeeds exactly when the identifier's bytes before the version suffix and the
  wanted name are the same after folding lower case to upper case.
\<close>

theorem iso_name_eq_correct:
  assumes "list_all (\<lambda>c. c \<noteq> 0 \<and> c < 0x80) want"
  shows "iso_name_eq m p n want \<longleftrightarrow>
    iso_fold (takeWhile (\<lambda>c. c \<noteq> 0x3b) (iso_bytes m p n)) = iso_fold want"
  by (rule iso_name_eq_iff [OF assms])

theorem iso_name_eq_correct_witness:
  "iso_name_eq (\<lambda>a. [0x52, 0x3b, 0x31] ! unat a) 0 3 [0x72]"
  by (subst iso_name_eq_correct) (simp_all add: iso_fold_def iso_bytes_def iso_up_def upt_rec)


definition cd_write_rq :: request where
  "cd_write_rq = \<lparr>rq_cmd = WRITE, rq_minor = 0, rq_sector = 8, rq_hard_sector = 8, rq_nr_sectors = 4,
     rq_hard_nr_sectors = 4, rq_current_nr_sectors = 4, rq_buffer = 0x80020000,
     rq_bh = [\<lparr>b_size = 2048, b_data = 0x80020000\<rparr>]\<rparr>"


end
