(* ===== verification/Bu.thy ===== *)
theory Bu
  imports Blkreq
begin

text \<open>
  The byte-level half of the memory-card block driver, \<^verbatim>\<open>drivers/block/bu.c\<close> lines
  319-529: the transfer record, the state functions that each exchange one byte
  with the card, the table that sequences them, and the routine the interrupt
  handler runs once per acknowledge. Calling through an empty entry of the table,
  or past its end, is \<open>None\<close>. Addresses are the port numbers of \<^verbatim>\<open>bu.h\<close>.
\<close>

abbreviation (input) BU_DATA :: u32 where "BU_DATA \<equiv> 0x1040"
abbreviation (input) BU_STATUS :: u32 where "BU_STATUS \<equiv> 0x1044"
abbreviation (input) BU_CONTROL :: u32 where "BU_CONTROL \<equiv> 0x104a"
abbreviation (input) BU_REG8 :: u32 where "BU_REG8 \<equiv> 0x1048"
abbreviation (input) BU_REGE :: u32 where "BU_REGE \<equiv> 0x104e"
abbreviation (input) BU_BLK_SIZE :: nat where "BU_BLK_SIZE \<equiv> 128"
abbreviation (input) MODE_R :: u8 where "MODE_R \<equiv> 0x52"
abbreviation (input) MODE_W :: u8 where "MODE_W \<equiv> 0x57"

text \<open>\<^verbatim>\<open>bu_request_t\<close> and \<^verbatim>\<open>bu_t\<close>: the request parameters and the transfer's progress.\<close>

record bu_t =
  bx_floor :: u8
  bx_block :: u16
  bx_card :: nat
  bx_buffer :: "u8 list"
  bx_mode :: u8
  bx_cs :: u8
  bx_cnt :: nat
  bx_state :: nat
  bx_stop :: bool
  bx_hw_state :: u8
  bx_byte :: u8

type_synonym 'a bu_fn = "bu_t \<Rightarrow> 'a hw_scheme \<Rightarrow> int \<times> bu_t \<times> 'a hw_scheme"

definition blk_msb :: "bu_t \<Rightarrow> u8" where
  "blk_msb bu = ucast (drop_bit 8 (bx_block bu) AND 0xff)"

definition blk_lsb :: "bu_t \<Rightarrow> u8" where
  "blk_lsb bu = ucast (bx_block bu AND 0xff)"

definition bu_hw_init :: "'a hw_scheme \<Rightarrow> 'a hw_scheme" where
  "bu_hw_init s =
    (let s = out16 BU_CONTROL 0x40 s;
         s = out8 BU_REGE 0x88 s;
         s = out8 BU_REG8 0x0d s;
         s = out16 BU_CONTROL 0x00 s;
         s = delay 10 s;
         s = out16 BU_CONTROL 0x02 s;
         s = delay 10 s;
         s = out16 BU_CONTROL 0x2002 s;
         s = delay 10 s
     in out16 BU_CONTROL 0x00 s)"

text \<open>\<open>None\<close> is the unknown-mode error.\<close>

definition bu_sw_init :: "bu_t \<Rightarrow> bu_t option" where
  "bu_sw_init bu =
    (let bu = bu\<lparr>bx_cnt := 0, bx_stop := False, bx_cs := blk_lsb bu XOR blk_msb bu\<rparr> in
     if bx_mode bu = MODE_R then Some (bu\<lparr>bx_state := 0\<rparr>)
     else if bx_mode bu = MODE_W then Some (bu\<lparr>bx_state := 0x10\<rparr>)
     else None)"

text \<open>Read the pending byte, send the next one.\<close>

definition bu_swap :: "u8 \<Rightarrow> bu_t \<Rightarrow> 'a hw_scheme \<Rightarrow> bu_t \<times> 'a hw_scheme" where
  "bu_swap v bu s = (let (b, s) = in8 BU_DATA s in (bu\<lparr>bx_byte := b\<rparr>, out8 BU_DATA v s))"

definition bu_rd_state0 :: "'a bu_fn" where
  "bu_rd_state0 bu s =
    (let s = out16 BU_CONTROL (push_bit 13 (of_nat (bx_card bu) AND 1) OR 0x1003) s;
         s = delay 2000 s;
         (bu, s) = bu_swap (0x81 + bx_floor bu) bu s
     in (1, bu, s))"

definition bu_rd_state1 :: "'a bu_fn" where
  "bu_rd_state1 bu s = (let (bu, s) = bu_swap (bx_mode bu) bu s in (1, bu, s))"

definition bu_rd_state2 :: "'a bu_fn" where
  "bu_rd_state2 bu s = (let (bu, s) = bu_swap 0 bu s in (1, bu\<lparr>bx_hw_state := bx_byte bu\<rparr>, s))"

definition bu_rd_state3 :: "'a bu_fn" where
  "bu_rd_state3 bu s = (let (bu, s) = bu_swap 0 bu s in (if bx_byte bu = 0x5a then 1 else - 1, bu, s))"

definition bu_rd_state4 :: "'a bu_fn" where
  "bu_rd_state4 bu s = (let (bu, s) = bu_swap (blk_msb bu) bu s in (if bx_byte bu = 0x5d then 1 else - 1, bu, s))"

definition bu_rd_state5 :: "'a bu_fn" where
  "bu_rd_state5 bu s = (let (bu, s) = bu_swap (blk_lsb bu) bu s in (1, bu, s))"

definition bu_rd_state6 :: "'a bu_fn" where
  "bu_rd_state6 bu s = (let (bu, s) = bu_swap 0 bu s in (1, bu, s))"

definition bu_rd_state7 :: "'a bu_fn" where
  "bu_rd_state7 bu s = (let (bu, s) = bu_swap 0 bu s in (if bx_byte bu = 0x5c then 1 else - 1, bu, s))"

definition bu_rd_state8 :: "'a bu_fn" where
  "bu_rd_state8 bu s = (let (bu, s) = bu_swap 0 bu s in (if bx_byte bu = 0x5d then 1 else - 1, bu, s))"

definition bu_rd_state9 :: "'a bu_fn" where
  "bu_rd_state9 bu s = (let (bu, s) = bu_swap 0 bu s in (if bx_byte bu = blk_msb bu then 1 else - 1, bu, s))"

definition bu_rd_state10 :: "'a bu_fn" where
  "bu_rd_state10 bu s = (let (bu, s) = bu_swap 0 bu s in (if bx_byte bu = blk_lsb bu then 1 else - 1, bu, s))"

text \<open>
  The \<^verbatim>\<open>while ((inw (BU_STATUS) & 7) != 7) if (timeout++ > 10000) return -1;\<close> loop:
  10002 failing reads give up.
\<close>

fun bu_wait_status :: "nat \<Rightarrow> 'a hw_scheme \<Rightarrow> bool \<times> 'a hw_scheme" where
  "bu_wait_status timeout s =
    (let (v, s) = in16 BU_STATUS s in
     if v AND 7 = 7 then (True, s)
     else if timeout = 0 then (False, s)
     else bu_wait_status (timeout - 1) s)"

definition bu_rd_state12 :: "'a bu_fn" where
  "bu_rd_state12 bu s =
    (let (bu, s) = bu_swap 0 bu s in
     if bx_mode bu = MODE_R \<and> bx_byte bu \<noteq> bx_cs bu then (- 1, bu, s)
     else let (ok, s) = bu_wait_status 10001 s in
          if \<not> ok then (- 1, bu, s)
          else let (bu, s) = bu_swap 0 bu s in
               if bx_byte bu = 0x47 then (1, bu\<lparr>bx_stop := True\<rparr>, s) else (- 1, bu, s))"

definition bu_wr_state7 :: "'a bu_fn" where
  "bu_wr_state7 bu s = (let (_, s) = in8 BU_DATA s; s = out8 BU_DATA (bx_cs bu) s in (1, bu, s))"

definition bu_rd_data :: "'a bu_fn" where
  "bu_rd_data bu s =
    (let (b, s) = in8 BU_DATA s;
         bu = bu\<lparr>bx_buffer := (bx_buffer bu)[bx_cnt bu := b], bx_cs := bx_cs bu XOR b\<rparr>;
         s = out8 BU_DATA 0 s;
         bu = bu\<lparr>bx_cnt := bx_cnt bu + 1\<rparr>
     in (if bx_cnt bu = BU_BLK_SIZE then 1 else 0, bu, s))"

definition bu_wr_data :: "'a bu_fn" where
  "bu_wr_data bu s =
    (let b = bx_buffer bu ! bx_cnt bu;
         bu = bu\<lparr>bx_cs := bx_cs bu XOR b\<rparr>;
         (_, s) = in8 BU_DATA s;
         s = out8 BU_DATA b s;
         bu = bu\<lparr>bx_cnt := bx_cnt bu + 1\<rparr>
     in (if bx_cnt bu = BU_BLK_SIZE then 1 else 0, bu, s))"

definition bu_rd_states :: "'a bu_fn option list" where
  "bu_rd_states =
    [Some bu_rd_state0, Some bu_rd_state1, Some bu_rd_state2, Some bu_rd_state3, Some bu_rd_state4,
     Some bu_rd_state5, Some bu_rd_state6, Some bu_rd_state7, Some bu_rd_state8, Some bu_rd_state9,
     Some bu_rd_state10, Some bu_rd_data, Some bu_rd_state12, None, None,
     None,
     Some bu_rd_state0, Some bu_rd_state1, Some bu_rd_state2, Some bu_rd_state3, Some bu_rd_state4,
     Some bu_rd_state5, Some bu_wr_data, Some bu_wr_state7, Some bu_rd_state6, Some bu_rd_state7,
     Some bu_rd_state12]"

text \<open>The busy loop and the control-word update that precede every state function.\<close>

definition bu_select :: "bu_t \<Rightarrow> 'a hw_scheme \<Rightarrow> 'a hw_scheme" where
  "bu_select bu s =
    (let s = delay 1000 s;
         (c, s) = in16 BU_CONTROL s
     in out16 BU_CONTROL (c OR 0x13 OR push_bit 13 (of_nat (bx_card bu) AND 1)) s)"

definition bu_rd_routine :: "bu_t \<Rightarrow> 'a hw_scheme \<Rightarrow> (int \<times> bu_t \<times> 'a hw_scheme) option" where
  "bu_rd_routine bu s =
    (case (if bx_state bu < length (bu_rd_states :: 'a bu_fn option list) then bu_rd_states ! bx_state bu else None) of
       None \<Rightarrow> None
     | Some f \<Rightarrow>
         (case f bu (bu_select bu s) of (status, bu, s) \<Rightarrow>
            if status < 0 then Some (- 1, bu, s)
            else Some (0, bu\<lparr>bx_state := bx_state bu + nat status\<rparr>, s)))"

declare bu_wait_status.simps [simp del]

section \<open>The protocol a transfer follows\<close>

text \<open>The bytes a complete transfer sends, in order.\<close>

definition bu_script :: "bu_t \<Rightarrow> u8 list" where
  "bu_script bu =
    [0x81 + bx_floor bu, bx_mode bu, 0, 0, blk_msb bu, blk_lsb bu] @
    (if bx_mode bu = MODE_R then [0, 0, 0, 0, 0] @ replicate BU_BLK_SIZE 0 @ [0, 0]
     else bx_buffer bu @ [fold (XOR) (bx_buffer bu) (blk_lsb bu XOR blk_msb bu), 0, 0, 0, 0])"

text \<open>How many bytes have been exchanged.\<close>

definition bu_pos :: "bu_t \<Rightarrow> nat" where
  "bu_pos bu =
    (if bx_mode bu = MODE_R
     then if bx_state bu \<le> 10 then bx_state bu else if bx_state bu = 11 then 11 + bx_cnt bu
          else if bx_state bu = 12 then 139 else 141
     else if bx_state bu \<le> 21 then bx_state bu - 16 else if bx_state bu = 22 then 6 + bx_cnt bu
          else if bx_state bu \<le> 26 then 134 + (bx_state bu - 23) else 139)"

text \<open>Where the counter stands in each state.\<close>

definition bu_wf :: "bu_t \<Rightarrow> bool" where
  "bu_wf bu \<longleftrightarrow> length (bx_buffer bu) = BU_BLK_SIZE \<and>
    (if bx_mode bu = MODE_R
     then bx_state bu \<le> 13 \<and> (bx_stop bu \<longleftrightarrow> bx_state bu = 13) \<and>
          (if bx_state bu \<le> 10 then bx_cnt bu = 0
           else if bx_state bu = 11 then bx_cnt bu < BU_BLK_SIZE else bx_cnt bu = BU_BLK_SIZE)
     else bx_mode bu = MODE_W \<and> 16 \<le> bx_state bu \<and> bx_state bu \<le> 27 \<and> (bx_stop bu \<longleftrightarrow> bx_state bu = 27) \<and>
          (if bx_state bu \<le> 21 then bx_cnt bu = 0
           else if bx_state bu = 22 then bx_cnt bu < BU_BLK_SIZE else bx_cnt bu = BU_BLK_SIZE))"

text \<open>
  What the bytes \<open>rs\<close> received so far have to do with the transfer: as many as
  were sent, the fixed protocol bytes checked, and the data bytes and the running
  checksum tied to the buffer.
\<close>

definition bu_same_rq :: "bu_t \<Rightarrow> bu_t \<Rightarrow> bool" where
  "bu_same_rq bu0 bu \<longleftrightarrow> bx_floor bu = bx_floor bu0 \<and> bx_block bu = bx_block bu0 \<and> bx_card bu = bx_card bu0 \<and>
     bx_mode bu = bx_mode bu0 \<and> (bx_mode bu0 = MODE_W \<longrightarrow> bx_buffer bu = bx_buffer bu0)"

definition bu_data :: "u8 list \<Rightarrow> u8 list" where
  "bu_data rs = take BU_BLK_SIZE (drop 11 rs)"

definition bu_expect :: "bu_t \<Rightarrow> nat \<Rightarrow> u8 option" where
  "bu_expect bu k =
    (if k = 3 then Some 0x5a else if k = 4 then Some 0x5d
     else if bx_mode bu = MODE_R
     then (if k = 7 then Some 0x5c else if k = 8 then Some 0x5d else if k = 9 then Some (blk_msb bu)
           else if k = 10 then Some (blk_lsb bu) else if k = 140 then Some 0x47 else None)
     else (if k = 136 then Some 0x5c else if k = 138 then Some 0x47 else None))"

definition bu_matches :: "bu_t \<Rightarrow> nat \<Rightarrow> u8 \<Rightarrow> bool" where
  "bu_matches bu k b \<longleftrightarrow> (case bu_expect bu k of None \<Rightarrow> True | Some v \<Rightarrow> b = v)"

definition bu_checked :: "bu_t \<Rightarrow> u8 list \<Rightarrow> bool" where
  "bu_checked bu rs \<longleftrightarrow> (\<forall>k<length rs. bu_matches bu k (rs ! k))"

definition bu_log :: "bu_t \<Rightarrow> bu_t \<Rightarrow> u8 list \<Rightarrow> bool" where
  "bu_log bu0 bu rs \<longleftrightarrow> bu_wf bu \<and> bu_same_rq bu0 bu \<and> length rs = bu_pos bu \<and> bu_checked bu rs \<and>
    (if bx_mode bu = MODE_R
     then take (bx_cnt bu) (bx_buffer bu) = bu_data rs \<and>
          bx_cs bu = fold (XOR) (bu_data rs) (blk_lsb bu XOR blk_msb bu) \<and>
          (139 < length rs \<longrightarrow> rs ! 139 = bx_cs bu)
     else bx_cs bu = fold (XOR) (take (bx_cnt bu) (bx_buffer bu)) (blk_lsb bu XOR blk_msb bu))"

definition bu_rel :: "bu_t \<Rightarrow> bus_trace \<Rightarrow> bu_t \<Rightarrow> 'a hw_scheme \<Rightarrow> bool" where
  "bu_rel bu0 t0 bu s \<longleftrightarrow> (\<exists>rs. bu_log bu0 bu rs \<and>
     reads BU_DATA (hw_trace s) = reads BU_DATA t0 @ map ucast rs \<and>
     writes BU_DATA (hw_trace s) = writes BU_DATA t0 @ map ucast (take (bu_pos bu) (bu_script bu0)))"

lemma bu_rel_init:
  assumes "bu_sw_init bu = Some bu'" "length (bx_buffer bu) = BU_BLK_SIZE"
  shows "bu_rel bu' (hw_trace s) bu' s"
proof -
  have "bu_log bu' bu' []"
    using assms
    by (auto simp: bu_sw_init_def Let_def bu_log_def bu_wf_def bu_same_rq_def bu_pos_def bu_checked_def bu_data_def
        blk_lsb_def blk_msb_def split: if_splits)
  moreover have "bu_pos bu' = 0"
    using assms by (auto simp: bu_sw_init_def Let_def bu_pos_def split: if_splits)
  ultimately show ?thesis
    by (auto simp: bu_rel_def intro!: exI [of _ "[]"])
qed

lemma length_bu_script:
  "bx_mode bu = MODE_R \<or> (bx_mode bu = MODE_W \<and> length (bx_buffer bu) = BU_BLK_SIZE) \<Longrightarrow>
     length (bu_script bu) = (if bx_mode bu = MODE_R then 141 else 139)"
  by (auto simp: bu_script_def)

lemma bu_rel_ext:
  assumes "bu_log bu0 bu rs" "reads BU_DATA (hw_trace s) = reads BU_DATA t0 @ map ucast rs"
    and "writes BU_DATA (hw_trace s) = writes BU_DATA t0 @ map ucast (take (bu_pos bu) (bu_script bu0))"
    and "reads BU_DATA (hw_trace s') = reads BU_DATA (hw_trace s) @ [ucast b]"
    and "writes BU_DATA (hw_trace s') = writes BU_DATA (hw_trace s) @ [ucast v]"
    and "bu_pos bu < length (bu_script bu0)" "bu_script bu0 ! bu_pos bu = v" "bu_pos bu' = bu_pos bu + 1"
    and "bu_log bu0 bu' (rs @ [b])"
  shows "bu_rel bu0 t0 bu' s'"
  using assms by (auto simp: bu_rel_def take_Suc_conv_app_nth intro!: exI [of _ "rs @ [b]"])


lemmas bu_state_defs = bu_rd_state0_def bu_rd_state1_def bu_rd_state2_def bu_rd_state3_def bu_rd_state4_def
  bu_rd_state5_def bu_rd_state6_def bu_rd_state7_def bu_rd_state8_def bu_rd_state9_def bu_rd_state10_def
  bu_wr_state7_def bu_rd_data_def bu_wr_data_def

text \<open>A pure description of one exchange: the byte sent, the verdict on the byte received, the new record.\<close>

definition bu_send :: "bu_t \<Rightarrow> u8" where
  "bu_send bu =
    (if bx_state bu \<in> {0, 16} then 0x81 + bx_floor bu else if bx_state bu \<in> {1, 17} then bx_mode bu
     else if bx_state bu \<in> {4, 20} then blk_msb bu else if bx_state bu \<in> {5, 21} then blk_lsb bu
     else if bx_state bu = 22 then bx_buffer bu ! bx_cnt bu else if bx_state bu = 23 then bx_cs bu else 0)"

definition bu_good :: "bu_t \<Rightarrow> u8 \<Rightarrow> bool" where
  "bu_good bu b \<longleftrightarrow>
    (bx_state bu \<in> {3, 19} \<longrightarrow> b = 0x5a) \<and> (bx_state bu \<in> {4, 20, 8} \<longrightarrow> b = 0x5d) \<and>
    (bx_state bu \<in> {7, 25} \<longrightarrow> b = 0x5c) \<and> (bx_state bu = 9 \<longrightarrow> b = blk_msb bu) \<and> (bx_state bu = 10 \<longrightarrow> b = blk_lsb bu)"

definition bu_take :: "bu_t \<Rightarrow> u8 \<Rightarrow> bu_t" where
  "bu_take bu b =
    (if bx_state bu = 11
     then bu\<lparr>bx_buffer := (bx_buffer bu)[bx_cnt bu := b], bx_cs := bx_cs bu XOR b, bx_cnt := bx_cnt bu + 1,
             bx_state := (if bx_cnt bu + 1 = BU_BLK_SIZE then 12 else 11)\<rparr>
     else if bx_state bu = 22
     then bu\<lparr>bx_cs := bx_cs bu XOR (bx_buffer bu ! bx_cnt bu), bx_cnt := bx_cnt bu + 1,
             bx_state := (if bx_cnt bu + 1 = BU_BLK_SIZE then 23 else 22)\<rparr>
     else if bx_state bu = 23 then bu\<lparr>bx_state := 24\<rparr>
     else if bx_state bu \<in> {2, 18} then bu\<lparr>bx_byte := b, bx_hw_state := b, bx_state := bx_state bu + 1\<rparr>
     else bu\<lparr>bx_byte := b, bx_state := bx_state bu + 1\<rparr>)"

lemma blk_upd [simp]:
  "blk_msb (bu\<lparr>bx_byte := b\<rparr>) = blk_msb bu" "blk_lsb (bu\<lparr>bx_byte := b\<rparr>) = blk_lsb bu"
  by (simp_all add: blk_msb_def blk_lsb_def)

definition bu_simple :: "nat set" where
  "bu_simple = {0,1,2,3,4,5,6,7,8,9,10,11,16,17,18,19,20,21,22,23,24,25}"

definition last_rd :: "'a hw_scheme \<Rightarrow> u8" where
  "last_rd s = ucast (last (reads BU_DATA (hw_trace s)))"

lemma bu_rd_routine_simple:
  assumes "bx_state bu \<in> bu_simple"
  shows "case bu_rd_routine bu s of None \<Rightarrow> False
    | Some (st, bu1, s') \<Rightarrow>
        reads BU_DATA (hw_trace s') = reads BU_DATA (hw_trace s) @ [ucast (last_rd s')] \<and>
        writes BU_DATA (hw_trace s') = writes BU_DATA (hw_trace s) @ [ucast (bu_send bu)] \<and>
        st = (if bu_good bu (last_rd s') then 0 else - 1) \<and>
        (bu_good bu (last_rd s') \<longrightarrow> bu1 = bu_take bu (last_rd s'))"
  using assms unfolding bu_simple_def
  by (elim insertE emptyE)
     (simp_all add: bu_rd_routine_def bu_select_def bu_rd_states_def bu_state_defs bu_swap_def bus_defs bu_send_def bu_good_def
       bu_take_def last_rd_def)

lemma bu_wf_mode: "bu_wf bu \<Longrightarrow> bx_mode bu = MODE_R \<or> bx_mode bu = MODE_W"
  by (auto simp: bu_wf_def split: if_splits)

lemma bu_take_rq [simp]:
  "bx_mode (bu_take bu b) = bx_mode bu" "bx_floor (bu_take bu b) = bx_floor bu" "bx_block (bu_take bu b) = bx_block bu"
  "bx_card (bu_take bu b) = bx_card bu" "bx_stop (bu_take bu b) = bx_stop bu"
  "blk_msb (bu_take bu b) = blk_msb bu" "blk_lsb (bu_take bu b) = blk_lsb bu"
  by (simp_all add: bu_take_def blk_msb_def blk_lsb_def)

lemma bu_simple_iff: "k \<in> bu_simple \<longleftrightarrow> k \<le> 11 \<or> (16 \<le> k \<and> k \<le> 25)"
  by (simp add: bu_simple_def) presburger

lemma bu_take_wf_R:
  assumes "bu_wf bu" "bx_mode bu = MODE_R" "bx_state bu \<le> 11"
  shows "bu_wf (bu_take bu b)" "bu_pos (bu_take bu b) = bu_pos bu + 1"
  using assms by (auto simp: bu_wf_def bu_take_def bu_pos_def)

lemma bu_take_wf_W:
  assumes "bu_wf bu" "bx_mode bu = MODE_W" "16 \<le> bx_state bu" "bx_state bu \<le> 25"
  shows "bu_wf (bu_take bu b)" "bu_pos (bu_take bu b) = bu_pos bu + 1"
  using assms by (auto simp: bu_wf_def bu_take_def bu_pos_def split: if_splits)

lemma bu_send_script_R:
  assumes "bu_wf bu" "bx_mode bu = MODE_R" "bx_state bu \<le> 11" "bu_same_rq bu0 bu"
  shows "bu_pos bu < length (bu_script bu0)" "bu_script bu0 ! bu_pos bu = bu_send bu"
proof -
  have m: "bx_mode bu0 = MODE_R" "blk_msb bu0 = blk_msb bu" "blk_lsb bu0 = blk_lsb bu" "bx_floor bu0 = bx_floor bu"
    using assms by (simp_all add: bu_same_rq_def blk_msb_def blk_lsb_def)
  have pos: "bu_pos bu < 139"
    using assms by (auto simp: bu_wf_def bu_pos_def)
  then show "bu_pos bu < length (bu_script bu0)"
    using m by (simp add: bu_script_def)
  have zeros: "[0, 0, 0, 0, 0] @ replicate BU_BLK_SIZE 0 @ [0, 0] = replicate 135 (0 :: u8)"
    by (rule nth_equalityI) (auto simp: nth_append nth_Cons')
  show "bu_script bu0 ! bu_pos bu = bu_send bu"
  proof (cases "bx_state bu \<le> 5")
    case True
    then have "bx_state bu \<in> {0,1,2,3,4,5}"
      by (simp, presburger)
    then show ?thesis
      using m assms(2) by (auto simp: bu_script_def bu_pos_def bu_send_def)
  next
    case False
    then have "6 \<le> bu_pos bu" "bu_send bu = 0"
      using assms(2,3) by (auto simp: bu_pos_def bu_send_def)
    then show ?thesis
      using pos m by (simp add: bu_script_def zeros nth_append nth_Cons')
  qed
qed

lemma bu_send_script_W:
  assumes "bu_wf bu" "bx_mode bu = MODE_W" "16 \<le> bx_state bu" "bx_state bu \<le> 25" "bu_same_rq bu0 bu"
    and "bx_cs bu = fold (XOR) (take (bx_cnt bu) (bx_buffer bu)) (blk_lsb bu XOR blk_msb bu)"
  shows "bu_pos bu < length (bu_script bu0)" "bu_script bu0 ! bu_pos bu = bu_send bu"
proof -
  have m: "bx_mode bu0 = MODE_W" "blk_msb bu0 = blk_msb bu" "blk_lsb bu0 = blk_lsb bu" "bx_floor bu0 = bx_floor bu"
    "bx_buffer bu0 = bx_buffer bu" and len: "length (bx_buffer bu) = 128"
    using assms by (simp_all add: bu_same_rq_def blk_msb_def blk_lsb_def bu_wf_def)
  have pos: "bu_pos bu < 137"
    using assms by (auto simp: bu_wf_def bu_pos_def split: if_splits)
  then show "bu_pos bu < length (bu_script bu0)"
    using m len by (simp add: bu_script_def)
  show "bu_script bu0 ! bu_pos bu = bu_send bu"
  proof (cases "bx_state bu = 22")
    case True
    then have "bu_pos bu = 6 + bx_cnt bu" "bx_cnt bu < 128"
      using assms(1,2) by (auto simp: bu_pos_def bu_wf_def)
    then show ?thesis
      using True m len by (simp add: bu_script_def bu_send_def nth_append nth_Cons')
  next
    case False
    then have "bx_state bu \<in> {16,17,18,19,20,21,23,24,25}"
      using assms(3,4) by (simp, presburger)
    then show ?thesis
      using m len assms(1,2,6)
      by (elim insertE emptyE)
         (simp_all add: bu_script_def bu_pos_def bu_send_def nth_append nth_Cons' bu_wf_def)
  qed
qed

lemma bu_checked_snoc: "bu_checked bu (rs @ [b]) \<longleftrightarrow> bu_checked bu rs \<and> bu_matches bu (length rs) b"
  by (auto simp: bu_checked_def nth_append less_Suc_eq)

lemma bu_expect_take [simp]: "bu_expect (bu_take bu b) = bu_expect bu"
  by (simp add: bu_expect_def fun_eq_iff)

lemma bu_checked_take [simp]: "bu_checked (bu_take bu b) = bu_checked bu"
  by (simp add: bu_checked_def bu_matches_def fun_eq_iff)

lemma bu_good_matches_R:
  assumes "bu_wf bu" "bx_mode bu = MODE_R" "bx_state bu \<le> 11"
  shows "bu_good bu b \<longleftrightarrow> bu_matches bu (bu_pos bu) b"
proof (cases "bx_state bu = 11")
  case True
  then show ?thesis
    using assms by (simp add: bu_wf_def bu_good_def bu_matches_def bu_expect_def bu_pos_def)
next
  case False
  then have "bu_pos bu = bx_state bu"
    using assms by (simp add: bu_pos_def)
  then show ?thesis
    using assms False by (simp add: bu_good_def bu_matches_def bu_expect_def)
qed

lemma bu_good_matches_W:
  assumes "bu_wf bu" "bx_mode bu = MODE_W" "16 \<le> bx_state bu" "bx_state bu \<le> 25"
  shows "bu_good bu b \<longleftrightarrow> bu_matches bu (bu_pos bu) b"
proof (cases "bx_state bu \<le> 21")
  case True
  then have "bu_pos bu = bx_state bu - 16"
    using assms by (simp add: bu_pos_def)
  then show ?thesis
    using assms True by (auto simp: bu_good_def bu_matches_def bu_expect_def)
next
  case False
  then have "bx_state bu = 22 \<or> bx_state bu = 23 \<or> bx_state bu = 24 \<or> bx_state bu = 25"
    using assms by presburger
  then show ?thesis
    using assms by (elim disjE) (auto simp: bu_wf_def bu_good_def bu_matches_def bu_expect_def bu_pos_def)
qed

lemma bu_log_take_R:
  assumes "bu_log bu0 bu rs" "bx_mode bu = MODE_R" "bx_state bu \<le> 11" "bu_good bu b"
  shows "bu_log bu0 (bu_take bu b) (rs @ [b])"
proof -
  have wf: "bu_wf bu" and len: "length rs = bu_pos bu" and rq: "bu_same_rq bu0 (bu_take bu b)"
    and chk: "bu_checked bu rs"
    and dat: "take (bx_cnt bu) (bx_buffer bu) = bu_data rs" "bx_cs bu = fold (XOR) (bu_data rs) (blk_lsb bu XOR blk_msb bu)"
    using assms by (simp_all add: bu_log_def bu_same_rq_def)
  have data: "take (bx_cnt (bu_take bu b)) (bx_buffer (bu_take bu b)) = bu_data (rs @ [b]) \<and>
    bx_cs (bu_take bu b) = fold (XOR) (bu_data (rs @ [b])) (blk_lsb bu XOR blk_msb bu) \<and> length rs < 139"
  proof (cases "bx_state bu = 11")
    case True
    then have c: "bx_cnt bu < 128" "length rs = 11 + bx_cnt bu" "length (bx_buffer bu) = 128"
      using wf assms(2) len by (simp_all add: bu_wf_def bu_pos_def)
    then have "bu_data (rs @ [b]) = bu_data rs @ [b]"
      by (simp add: bu_data_def)
    then show ?thesis
      using True dat c by (simp add: bu_take_def take_Suc_conv_app_nth xor.commute)
  next
    case False
    then have "bx_cnt bu = 0" "length rs \<le> 10"
      using wf assms(2,3) len by (simp_all add: bu_wf_def bu_pos_def)
    then show ?thesis
      using False dat assms(3) by (auto simp: bu_take_def bu_data_def)
  qed
  show ?thesis
    using assms(2,4) wf len rq chk data bu_take_wf_R [OF wf assms(2,3), of b] bu_good_matches_R [OF wf assms(2,3)]
    by (simp add: bu_log_def bu_checked_snoc)
qed

lemma bu_log_take_W:
  assumes "bu_log bu0 bu rs" "bx_mode bu = MODE_W" "16 \<le> bx_state bu" "bx_state bu \<le> 25" "bu_good bu b"
  shows "bu_log bu0 (bu_take bu b) (rs @ [b])"
proof -
  have wf: "bu_wf bu" and len: "length rs = bu_pos bu" and chk: "bu_checked bu rs"
    and cs: "bx_cs bu = fold (XOR) (take (bx_cnt bu) (bx_buffer bu)) (blk_lsb bu XOR blk_msb bu)"
    using assms(1,2) by (simp_all add: bu_log_def)
  have rq: "bu_same_rq bu0 (bu_take bu b)"
    using assms by (simp add: bu_log_def bu_same_rq_def) (simp add: bu_take_def)
  have "bx_cs (bu_take bu b) =
      fold (XOR) (take (bx_cnt (bu_take bu b)) (bx_buffer (bu_take bu b))) (blk_lsb bu XOR blk_msb bu)"
    using cs wf assms(2,3) by (auto simp: bu_take_def bu_wf_def take_Suc_conv_app_nth xor.commute)
  then show ?thesis
    using assms(2,5) wf len rq chk bu_take_wf_W [OF wf assms(2-4), of b] bu_good_matches_W [OF wf assms(2-4)]
    by (simp add: bu_log_def bu_checked_snoc)
qed

text \<open>Waiting for the transmitter only reads the status port.\<close>

fun bu_status_ev :: "bus_event \<Rightarrow> bool" where
  "bu_status_ev (Rd a v) = (a = BU_STATUS)"
| "bu_status_ev _ = False"

lemma bu_wait_status_emits: "emits bu_status_ev s (snd (bu_wait_status n s))"
proof (induction n arbitrary: s)
  case 0
  show ?case
    by (subst bu_wait_status.simps) (auto simp: bus_defs)
next
  case (Suc n)
  have "emits bu_status_ev s (snd (bu_wait_status n (emit (Rd BU_STATUS v) s)))" for v
    by (rule emits_trans [OF emits_emit Suc]) simp
  then show ?case
    by (subst bu_wait_status.simps) (auto simp: bus_defs)
qed

lemma bu_status_not: "bu_status_ev e \<Longrightarrow> \<not> wr_in {BU_DATA} e" "bu_status_ev e \<Longrightarrow> \<not> rd_in {BU_DATA} e"
  by (cases e; simp)+

lemmas bu_wait_status_data =
  emits_writes [OF bu_wait_status_emits bu_status_not(1)] emits_reads [OF bu_wait_status_emits bu_status_not(2)]

lemma bu_rd_routine_final:
  assumes "bx_state bu = 12 \<or> bx_state bu = 26"
  obtains st bu1 s' where "bu_rd_routine bu s = Some (st, bu1, s')" "st = 0 \<or> st = - 1"
    "st = 0 \<Longrightarrow> bu1 = bu\<lparr>bx_byte := 0x47, bx_stop := True, bx_state := bx_state bu + 1\<rparr> \<and>
       writes BU_DATA (hw_trace s') = writes BU_DATA (hw_trace s) @ [0, 0] \<and>
       (\<exists>b. reads BU_DATA (hw_trace s') = reads BU_DATA (hw_trace s) @ [ucast b, 0x47] \<and>
            (bx_mode bu = MODE_R \<longrightarrow> b = bx_cs bu))"
proof -
  have at: "(if bx_state bu < length bu_rd_states then bu_rd_states ! bx_state bu else None) = Some bu_rd_state12"
    using assms by (auto simp: bu_rd_states_def)
  define s1 where "s1 = bu_select bu s"
  have sel: "reads BU_DATA (hw_trace s1) = reads BU_DATA (hw_trace s)" "writes BU_DATA (hw_trace s1) = writes BU_DATA (hw_trace s)"
    by (simp_all add: s1_def bu_select_def bus_defs)
  obtain st bu1 s' where r: "bu_rd_state12 bu s1 = (st, bu1, s')"
    by (cases "bu_rd_state12 bu s1") auto
  have st: "st = 1 \<or> st = - 1"
    using r by (auto simp: bu_rd_state12_def Let_def split: prod.splits if_splits)
  have fin: "bu1 = bu\<lparr>bx_byte := 0x47, bx_stop := True\<rparr> \<and>
       writes BU_DATA (hw_trace s') = writes BU_DATA (hw_trace s) @ [0, 0] \<and>
       (\<exists>b. reads BU_DATA (hw_trace s') = reads BU_DATA (hw_trace s) @ [ucast b, 0x47] \<and>
            (bx_mode bu = MODE_R \<longrightarrow> b = bx_cs bu))" if "st = 1"
    using r that unfolding bu_rd_state12_def
    by (simp add: bu_swap_def bus_defs split_beta split: if_splits)
       (auto simp: bu_wait_status_data sel)
  show ?thesis
  proof (cases "st = 1")
    case True
    have "bu_rd_routine bu s = Some (0, bu1\<lparr>bx_state := bx_state bu1 + 1\<rparr>, s')"
      using r True by (simp add: bu_rd_routine_def at s1_def [symmetric])
    then show ?thesis
      using fin [OF True] by (intro that [of 0]) auto
  next
    case False
    then have "bu_rd_routine bu s = Some (- 1, bu1, s')"
      using r st by (simp add: bu_rd_routine_def at s1_def [symmetric])
    then show ?thesis
      by (intro that [of "- 1"]) auto
  qed
qed

lemma bu_checked_upd [simp]:
  "bu_checked (bu\<lparr>bx_byte := b, bx_stop := x, bx_state := k\<rparr>) = bu_checked bu"
  by (simp add: bu_checked_def bu_matches_def bu_expect_def blk_msb_def blk_lsb_def fun_eq_iff cong: if_cong)

lemma bu_log_final_R:
  assumes "bu_log bu0 bu rs" "bx_state bu = 12" "bx_mode bu = MODE_R" "b = bx_cs bu"
  shows "bu_log bu0 (bu\<lparr>bx_byte := 0x47, bx_stop := True, bx_state := 13\<rparr>) (rs @ [b, 0x47])"
proof -
  have "length rs = 139"
    using assms by (simp add: bu_log_def bu_pos_def)
  then have "bu_checked bu ((rs @ [b]) @ [0x47])" "bu_data (rs @ [b, 0x47]) = bu_data rs"
    using assms unfolding bu_checked_snoc
    by (simp_all add: bu_log_def bu_matches_def bu_expect_def bu_data_def)
  then show ?thesis
    using assms \<open>length rs = 139\<close>
    by (simp add: bu_log_def bu_same_rq_def bu_pos_def nth_append blk_msb_def blk_lsb_def) (simp add: bu_wf_def)
qed

lemma bu_log_final_W:
  assumes "bu_log bu0 bu rs" "bx_state bu = 26" "bx_mode bu = MODE_W"
  shows "bu_log bu0 (bu\<lparr>bx_byte := 0x47, bx_stop := True, bx_state := 27\<rparr>) (rs @ [b, 0x47])"
proof -
  have "length rs = 137"
    using assms by (simp add: bu_log_def bu_pos_def)
  then have "bu_checked bu ((rs @ [b]) @ [0x47])"
    using assms unfolding bu_checked_snoc
    by (simp_all add: bu_log_def bu_matches_def bu_expect_def)
  then show ?thesis
    using assms \<open>length rs = 137\<close>
    by (auto simp: bu_log_def bu_same_rq_def bu_pos_def blk_msb_def blk_lsb_def bu_wf_def)
qed

lemma bu_log_final:
  assumes "bu_log bu0 bu rs" "bx_state bu = 12 \<or> bx_state bu = 26" "bx_mode bu = MODE_R \<longrightarrow> b = bx_cs bu"
  shows "bu_log bu0 (bu\<lparr>bx_byte := 0x47, bx_stop := True, bx_state := bx_state bu + 1\<rparr>) (rs @ [b, 0x47])"
    and "bu_pos (bu\<lparr>bx_byte := 0x47, bx_stop := True, bx_state := bx_state bu + 1\<rparr>) = bu_pos bu + 2"
    and "bu_pos bu + 2 = length (bu_script bu0)" "drop (bu_pos bu) (bu_script bu0) = [0, 0]"
proof -
  have m: "bx_mode bu = MODE_R \<and> bx_state bu = 12 \<or> bx_mode bu = MODE_W \<and> bx_state bu = 26"
    using assms(1,2) by (auto simp: bu_log_def bu_wf_def split: if_splits)
  then show "bu_log bu0 (bu\<lparr>bx_byte := 0x47, bx_stop := True, bx_state := bx_state bu + 1\<rparr>) (rs @ [b, 0x47])"
    using bu_log_final_R [OF assms(1)] bu_log_final_W [OF assms(1)] assms(3) by auto
  show "bu_pos (bu\<lparr>bx_byte := 0x47, bx_stop := True, bx_state := bx_state bu + 1\<rparr>) = bu_pos bu + 2"
    using m by (auto simp: bu_pos_def)
  have rq: "bx_mode bu0 = bx_mode bu" "bx_mode bu0 = MODE_W \<longrightarrow> length (bx_buffer bu0) = 128"
    using assms(1) by (auto simp: bu_log_def bu_same_rq_def bu_wf_def)
  show "bu_pos bu + 2 = length (bu_script bu0)" "drop (bu_pos bu) (bu_script bu0) = [0, 0]"
    using m rq by (auto simp: bu_pos_def bu_script_def)
qed

text \<open>One call of the routine: it never meets an empty table entry, and a good byte keeps the relation.\<close>

lemma bu_routine_rel:
  assumes "bu_rel bu0 t0 bu s" "\<not> bx_stop bu"
  obtains st bu' s' where "bu_rd_routine bu s = Some (st, bu', s')" "st = 0 \<or> st = - 1"
    "st = 0 \<Longrightarrow> bu_rel bu0 t0 bu' s' \<and> bu_pos bu < bu_pos bu'"
proof -
  obtain rs where log: "bu_log bu0 bu rs" and tr: "reads BU_DATA (hw_trace s) = reads BU_DATA t0 @ map ucast rs"
     "writes BU_DATA (hw_trace s) = writes BU_DATA t0 @ map ucast (take (bu_pos bu) (bu_script bu0))"
    using assms(1) by (auto simp: bu_rel_def)
  then have wf: "bu_wf bu" and rq: "bu_same_rq bu0 bu"
    by (simp_all add: bu_log_def)
  show ?thesis
  proof (cases "bx_state bu = 12 \<or> bx_state bu = 26")
    case True
    then obtain st bu1 s' where r: "bu_rd_routine bu s = Some (st, bu1, s')" "st = 0 \<or> st = - 1"
      and fin: "st = 0 \<Longrightarrow> bu1 = bu\<lparr>bx_byte := 0x47, bx_stop := True, bx_state := bx_state bu + 1\<rparr> \<and>
       writes BU_DATA (hw_trace s') = writes BU_DATA (hw_trace s) @ [0, 0] \<and>
       (\<exists>b. reads BU_DATA (hw_trace s') = reads BU_DATA (hw_trace s) @ [ucast b, 0x47] \<and>
            (bx_mode bu = MODE_R \<longrightarrow> b = bx_cs bu))"
      by (rule bu_rd_routine_final [where s = s]) blast
    have "bu_rel bu0 t0 bu1 s' \<and> bu_pos bu < bu_pos bu1" if st0: "st = 0"
    proof -
      obtain b where b: "reads BU_DATA (hw_trace s') = reads BU_DATA (hw_trace s) @ [ucast b, 0x47]"
        "bx_mode bu = MODE_R \<longrightarrow> b = bx_cs bu"
        using fin [OF st0] by blast
      note f = bu_log_final [OF log True b(2)]
      have sc: "bu_script bu0 = take (bu_pos bu) (bu_script bu0) @ [0, 0]"
        using f(4) by (metis append_take_drop_id)
      have "map ucast (bu_script bu0) = map ucast (take (bu_pos bu) (bu_script bu0)) @ [0, 0 :: u32]"
        by (subst sc) simp
      then have "writes BU_DATA (hw_trace s') = writes BU_DATA t0 @ map ucast (take (bu_pos bu + 2) (bu_script bu0))"
        using fin [OF st0] tr(2) f(3) by simp
      moreover have "reads BU_DATA (hw_trace s') = reads BU_DATA t0 @ map ucast (rs @ [b, 0x47])"
        using b(1) tr(1) by simp
      ultimately show ?thesis
        using f(1,2) fin [OF st0] unfolding bu_rel_def by (metis add_2_eq_Suc' less_SucI lessI)
    qed
    then show ?thesis
      using r by (intro that) auto
  next
    case False
    let ?R = "bx_mode bu = MODE_R \<and> bx_state bu \<le> 11"
    let ?W = "bx_mode bu = MODE_W \<and> 16 \<le> bx_state bu \<and> bx_state bu \<le> 25"
    have RW: "?R \<or> ?W"
      using wf assms(2) False by (auto simp: bu_wf_def split: if_splits)
    then have simple: "bx_state bu \<in> bu_simple"
      by (auto simp: bu_simple_iff)
    obtain st bu1 s' where r: "bu_rd_routine bu s = Some (st, bu1, s')"
      "reads BU_DATA (hw_trace s') = reads BU_DATA (hw_trace s) @ [ucast (last_rd s')]"
      "writes BU_DATA (hw_trace s') = writes BU_DATA (hw_trace s) @ [ucast (bu_send bu)]"
      "st = (if bu_good bu (last_rd s') then 0 else - 1)"
      "bu_good bu (last_rd s') \<longrightarrow> bu1 = bu_take bu (last_rd s')"
      using bu_rd_routine_simple [OF simple, of s] by (auto split: option.splits prod.splits)
    have "bu_rel bu0 t0 bu1 s' \<and> bu_pos bu < bu_pos bu1" if g: "bu_good bu (last_rd s')"
    proof -
      have bu1: "bu1 = bu_take bu (last_rd s')"
        using r g by simp
      have l: "bu_log bu0 bu1 (rs @ [last_rd s'])" and p: "bu_pos bu1 = bu_pos bu + 1"
        unfolding bu1 using RW log wf g bu_log_take_R bu_log_take_W bu_take_wf_R(2) bu_take_wf_W(2) by blast+
      have sc: "bu_pos bu < length (bu_script bu0)" "bu_script bu0 ! bu_pos bu = bu_send bu"
        using RW wf rq log bu_send_script_R bu_send_script_W by (auto simp: bu_log_def)
      show ?thesis
        using bu_rel_ext [OF log tr r(2,3) sc p l] p by simp
    qed
    then show ?thesis
      using r(1,4) by (intro that) (auto split: if_splits)
  qed
qed

section \<open>Whole transfers\<close>

text \<open>One acknowledge: the routine runs on a transfer that has not stopped, and succeeds.\<close>

inductive bu_step :: "bu_t \<times> 'a hw_scheme \<Rightarrow> bu_t \<times> 'a hw_scheme \<Rightarrow> bool" where
  step: "\<not> bx_stop bu \<Longrightarrow> bu_rd_routine bu s = Some (0, bu', s') \<Longrightarrow> bu_step (bu, s) (bu', s')"

inductive_cases bu_stepE: "bu_step (bu, s) (bu', s')"

lemma bu_step_rel:
  assumes "bu_step (bu, s) (bu', s')" "bu_rel bu0 t0 bu s"
  shows "bu_rel bu0 t0 bu' s'" "bu_pos bu < bu_pos bu'"
  using assms bu_routine_rel [OF assms(2)] by (metis bu_stepE option.inject prod.inject)+

lemma bu_steps_rel:
  assumes "bu_step\<^sup>*\<^sup>* x y" "bu_rel bu0 t0 (fst x) (snd x)"
  shows "bu_rel bu0 t0 (fst y) (snd y)"
  using assms(1)
proof (induction rule: rtranclp_induct)
  case (step y z)
  then show ?case
    using bu_step_rel(1) [of "fst y" "snd y" "fst z" "snd z"] by simp
qed (rule assms(2))

lemma bu_pos_bound: "bu_log bu0 bu rs \<Longrightarrow> bu_pos bu \<le> 141"
  by (auto simp: bu_log_def bu_wf_def bu_pos_def split: if_splits)

lemma bu_steps_bound:
  assumes "(bu_step ^^ n) x y" "bu_rel bu0 t0 (fst x) (snd x)"
  shows "bu_pos (fst x) + n \<le> bu_pos (fst y)"
  using assms(1)
proof (induction n arbitrary: y)
  case (Suc n)
  then obtain z where z: "(bu_step ^^ n) x z" "bu_step z y"
    by auto
  have "bu_rel bu0 t0 (fst z) (snd z)"
    using bu_steps_rel [OF relpowp_imp_rtranclp [OF z(1)] assms(2)] .
  then show ?case
    using Suc.IH [OF z(1)] bu_step_rel(2) [of "fst z" "snd z" "fst y" "snd y"] z(2) by fastforce
qed simp

text \<open>A card that answers the protocol: byte \<open>k\<close> of the transfer is \<open>reply k\<close>.\<close>

definition bu_answers :: "(bus_trace \<Rightarrow> u32 \<Rightarrow> u32) \<Rightarrow> nat \<Rightarrow> (nat \<Rightarrow> u8) \<Rightarrow> bool" where
  "bu_answers env n0 reply \<longleftrightarrow>
     (\<forall>t. ucast (env t BU_DATA) = reply (length (reads BU_DATA t) - n0) \<and> (ucast (env t BU_STATUS) :: u16) AND 7 = 7)"

definition bu_replies_ok :: "bu_t \<Rightarrow> (nat \<Rightarrow> u8) \<Rightarrow> bool" where
  "bu_replies_ok bu reply \<longleftrightarrow> (\<forall>k<141. bu_matches bu k (reply k)) \<and>
     (bx_mode bu = MODE_R \<longrightarrow> reply 139 = fold (XOR) (map reply [11..<139]) (blk_lsb bu XOR blk_msb bu))"

lemma bu_rd_routine_reply:
  assumes "bx_state bu \<in> bu_simple" "bu_answers (hw_env s) n0 reply"
  shows "case bu_rd_routine bu s of None \<Rightarrow> False
    | Some (st, bu1, s') \<Rightarrow> last_rd s' = reply (length (reads BU_DATA (hw_trace s)) - n0) \<and> hw_env s' = hw_env s"
  using assms unfolding bu_simple_def
  by (elim insertE emptyE)
     (simp_all add: bu_rd_routine_def bu_select_def bu_rd_states_def bu_state_defs bu_swap_def bus_defs
       last_rd_def bu_answers_def)

lemma bu_wait_status_ready:
  "bu_answers (hw_env s) n0 reply \<Longrightarrow> fst (bu_wait_status n s)"
  by (subst bu_wait_status.simps) (simp add: bus_defs bu_answers_def)

lemma bu_rd_routine_final_reply:
  assumes "bx_state bu = 12 \<or> bx_state bu = 26" "bu_answers (hw_env s) n0 reply"
    "n0 + k = length (reads BU_DATA (hw_trace s))"
    "bx_mode bu = MODE_R \<longrightarrow> reply k = bx_cs bu" "reply (k + 1) = 0x47"
  shows "\<exists>bu' s'. bu_rd_routine bu s = Some (0, bu', s') \<and> hw_env s' = hw_env s \<and> bx_stop bu' \<and>
    reads BU_DATA (hw_trace s') = reads BU_DATA (hw_trace s) @ [ucast (reply k), 0x47]"
proof -
  have at: "(if bx_state bu < length bu_rd_states then bu_rd_states ! bx_state bu else None) = Some bu_rd_state12"
    using assms(1) by (auto simp: bu_rd_states_def)
  define s1 where "s1 = bu_select bu s"
  have s1: "hw_env s1 = hw_env s" "reads BU_DATA (hw_trace s1) = reads BU_DATA (hw_trace s)"
    by (simp_all add: s1_def bu_select_def bus_defs)
  define s2 where "s2 = out8 BU_DATA 0 (snd (in8 BU_DATA s1))"
  define s3 where "s3 = snd (bu_wait_status 10001 s2)"
  have rd: "ucast (hw_env s t BU_DATA) = reply (length (reads BU_DATA t) - n0)" for t
    using assms(2) by (simp add: bu_answers_def)
  have s2: "hw_env s2 = hw_env s" "reads BU_DATA (hw_trace s2) = reads BU_DATA (hw_trace s) @ [ucast (reply k)]"
    using assms(3) by (simp_all add: s2_def bus_defs s1 rd flip: assms(3))
  then have s3: "hw_env s3 = hw_env s" "reads BU_DATA (hw_trace s3) = reads BU_DATA (hw_trace s) @ [ucast (reply k)]"
    using emits_env [OF bu_wait_status_emits, of 10001 s2] bu_wait_status_data(2) [of 10001 s2] by (simp_all add: s3_def)
  have w: "bu_wait_status 10001 s2 = (True, s3)"
    using bu_wait_status_ready [of s2 n0 reply 10001] assms(2) s2(1) by (simp add: s3_def prod_eq_iff)
  have swap1: "bu_swap 0 bu s1 = (bu\<lparr>bx_byte := reply k\<rparr>, s2)"
    using assms(3) by (simp add: bu_swap_def s2_def in8_def Let_def s1 rd flip: assms(3))
  have swap2: "bu_swap 0 b s3 = (b\<lparr>bx_byte := 0x47\<rparr>, out8 BU_DATA 0 (emit (Rd BU_DATA 0x47) s3))" for b
    using assms(5) by (simp add: bu_swap_def in8_def Let_def s3 rd flip: assms(3))
  have "bu_rd_state12 bu s1 = (1, bu\<lparr>bx_byte := 0x47, bx_stop := True\<rparr>, out8 BU_DATA 0 (emit (Rd BU_DATA 0x47) s3))"
    using assms(4) by (simp add: bu_rd_state12_def swap1 swap2 w)
  then show ?thesis
    by (auto simp: bu_rd_routine_def at s1_def [symmetric] out8_def s3)
qed

lemma inj_ucast_u8: "inj (ucast :: u8 \<Rightarrow> u32)"
  by (rule inj_on_inverseI [where g = ucast]) simp

lemma map_ucast_u8: "map (ucast :: u8 \<Rightarrow> u32) xs = map ucast ys \<longleftrightarrow> xs = ys"
  by (simp add: inj_map_eq_map inj_ucast_u8)

lemma bu_same_rq_expect: "bu_same_rq bu0 bu \<Longrightarrow> bu_matches bu = bu_matches bu0"
  by (simp add: bu_same_rq_def bu_matches_def bu_expect_def blk_msb_def blk_lsb_def fun_eq_iff)

definition bu_live :: "bu_t \<Rightarrow> bus_trace \<Rightarrow> (nat \<Rightarrow> u8) \<Rightarrow> bu_t \<Rightarrow> 'a hw_scheme \<Rightarrow> bool" where
  "bu_live bu0 t0 reply bu s \<longleftrightarrow> bu_rel bu0 t0 bu s \<and> bu_answers (hw_env s) (length (reads BU_DATA t0)) reply \<and>
     reads BU_DATA (hw_trace s) = reads BU_DATA t0 @ map ucast (map reply [0..<bu_pos bu])"

lemma bu_live_simple:
  assumes "bu_live bu0 t0 reply bu s" "bu_replies_ok bu0 reply" "bx_state bu \<in> bu_simple" "bu_wf bu" "bu_same_rq bu0 bu"
  obtains bu' s' where "bu_rd_routine bu s = Some (0, bu', s')" "hw_env s' = hw_env s"
    "reads BU_DATA (hw_trace s') = reads BU_DATA t0 @ map ucast (map reply [0..<bu_pos bu'])"
proof -
  have ans: "bu_answers (hw_env s) (length (reads BU_DATA t0)) reply"
    and rd: "reads BU_DATA (hw_trace s) = reads BU_DATA t0 @ map ucast (map reply [0..<bu_pos bu])"
    using assms(1) by (simp_all add: bu_live_def)
  have len: "length (reads BU_DATA (hw_trace s)) - length (reads BU_DATA t0) = bu_pos bu"
    using rd by simp
  have rw: "bx_mode bu = MODE_R \<and> bx_state bu \<le> 11 \<or> bx_mode bu = MODE_W \<and> 16 \<le> bx_state bu \<and> bx_state bu \<le> 25"
    using assms(3,4) by (auto simp: bu_wf_def bu_simple_iff split: if_splits)
  have "bu_pos bu < 141"
    using rw assms(4) by (auto simp: bu_pos_def bu_wf_def)
  then have "bu_matches bu (bu_pos bu) (reply (bu_pos bu))"
    using assms(2) bu_same_rq_expect [OF assms(5)] by (simp add: bu_replies_ok_def)
  then have good: "bu_good bu (reply (bu_pos bu))"
    using rw bu_good_matches_R [OF assms(4)] bu_good_matches_W [OF assms(4)] by auto
  obtain bu' s' where r: "bu_rd_routine bu s = Some (0, bu', s')" "hw_env s' = hw_env s"
    "reads BU_DATA (hw_trace s') = reads BU_DATA (hw_trace s) @ [ucast (reply (bu_pos bu))]"
    "bu' = bu_take bu (reply (bu_pos bu))"
    using bu_rd_routine_simple [OF assms(3), of s] bu_rd_routine_reply [OF assms(3) ans] good len
    by (auto split: option.splits prod.splits)
  have "bu_pos bu' = bu_pos bu + 1"
    using rw bu_take_wf_R(2) [OF assms(4)] bu_take_wf_W(2) [OF assms(4)] by (auto simp: r(4))
  then show ?thesis
    using r(3) rd by (intro that [OF r(1,2)]) simp
qed

lemma bu_live_final:
  assumes "bu_live bu0 t0 reply bu s" "bu_replies_ok bu0 reply" "bx_state bu = 12 \<or> bx_state bu = 26"
    and log: "bu_log bu0 bu (map reply [0..<bu_pos bu])"
  obtains bu' s' where "bu_rd_routine bu s = Some (0, bu', s')" "hw_env s' = hw_env s"
    "reads BU_DATA (hw_trace s') = reads BU_DATA t0 @ map ucast (map reply [0..<bu_pos bu'])"
proof -
  have ans: "bu_answers (hw_env s) (length (reads BU_DATA t0)) reply"
    and rd: "reads BU_DATA (hw_trace s) = reads BU_DATA t0 @ map ucast (map reply [0..<bu_pos bu])"
    and rel: "bu_rel bu0 t0 bu s"
    using assms(1) by (simp_all add: bu_live_def)
  have wf: "bu_wf bu" and rq: "bu_same_rq bu0 bu"
    using log by (simp_all add: bu_log_def)
  have m: "bx_mode bu = MODE_R \<and> bx_state bu = 12 \<and> bu_pos bu = 139 \<or> bx_mode bu = MODE_W \<and> bx_state bu = 26 \<and> bu_pos bu = 137"
    using wf assms(3) by (auto simp: bu_wf_def bu_pos_def split: if_splits)
  have eq: "blk_lsb bu0 = blk_lsb bu" "blk_msb bu0 = blk_msb bu" "bx_mode bu0 = bx_mode bu"
    using rq by (simp_all add: bu_same_rq_def blk_lsb_def blk_msb_def)
  have cs: "bx_mode bu = MODE_R \<longrightarrow> reply (bu_pos bu) = bx_cs bu"
    using log assms(2) m eq by (auto simp: bu_log_def bu_replies_ok_def bu_data_def drop_map take_map)
  have "bu_matches bu0 (bu_pos bu + 1) (reply (bu_pos bu + 1))"
    using assms(2) m by (auto simp: bu_replies_ok_def)
  then have e: "reply (bu_pos bu + 1) = 0x47"
    using m eq by (auto simp: bu_matches_def bu_expect_def)
  obtain bu' s' where r: "bu_rd_routine bu s = Some (0, bu', s')" "hw_env s' = hw_env s" "bx_stop bu'"
    "reads BU_DATA (hw_trace s') = reads BU_DATA (hw_trace s) @ [ucast (reply (bu_pos bu)), 0x47]"
    using bu_rd_routine_final_reply [OF assms(3) ans _ cs e] rd by auto
  have "\<not> bx_stop bu"
    using wf m by (auto simp: bu_wf_def)
  then have "bu_rel bu0 t0 bu' s'"
    using bu_routine_rel [OF rel] r(1) by (metis option.inject prod.inject)
  then obtain rs :: "u8 list" where rs: "length rs = bu_pos bu'" "reads BU_DATA (hw_trace s') = reads BU_DATA t0 @ map ucast rs"
    unfolding bu_rel_def bu_log_def by blast
  have "length (reads BU_DATA (hw_trace s')) = length (reads BU_DATA t0) + bu_pos bu + 2"
    unfolding r(4) rd by simp
  then have "bu_pos bu' = Suc (Suc (bu_pos bu))"
    unfolding rs(2) using rs(1) by simp
  then show ?thesis
    using r(4) rd e by (intro that [OF r(1,2)]) simp
qed

lemma bu_live_step:
  assumes "bu_live bu0 t0 reply bu s" "\<not> bx_stop bu" "bu_replies_ok bu0 reply"
  shows "\<exists>bu' s'. bu_step (bu, s) (bu', s') \<and> bu_live bu0 t0 reply bu' s'"
proof -
  have rel: "bu_rel bu0 t0 bu s" and ans: "bu_answers (hw_env s) (length (reads BU_DATA t0)) reply"
    and rd: "reads BU_DATA (hw_trace s) = reads BU_DATA t0 @ map ucast (map reply [0..<bu_pos bu])"
    using assms(1) by (simp_all add: bu_live_def)
  have log: "bu_log bu0 bu (map reply [0..<bu_pos bu])"
    using rel rd by (auto simp: bu_rel_def map_ucast_u8 simp del: map_map)
  note wf = log [unfolded bu_log_def, THEN conjunct1] and rq = log [unfolded bu_log_def, THEN conjunct2, THEN conjunct1]
  have len: "length (reads BU_DATA (hw_trace s)) - length (reads BU_DATA t0) = bu_pos bu"
    using rd by simp
  obtain bu' s' where r: "bu_rd_routine bu s = Some (0, bu', s')" "hw_env s' = hw_env s"
    "reads BU_DATA (hw_trace s') = reads BU_DATA t0 @ map ucast (map reply [0..<bu_pos bu'])"
  proof (cases "bx_state bu = 12 \<or> bx_state bu = 26")
    case True
    then show ?thesis
      using bu_live_final [OF assms(1,3) True log] that by blast
  next
    case False
    then have "bx_state bu \<in> bu_simple"
      using wf assms(2) by (auto simp: bu_wf_def bu_simple_iff split: if_splits)
    then show ?thesis
      using bu_live_simple [OF assms(1,3) _ wf rq] that by blast
  qed
  have st: "bu_step (bu, s) (bu', s')"
    by (rule bu_step.intros) (use assms(2) r in auto)
  show ?thesis
  proof (intro exI conjI)
    show "bu_live bu0 t0 reply bu' s'"
      using bu_step_rel(1) [OF st rel] r ans by (simp add: bu_live_def)
  qed (rule st)
qed

lemma bu_live_complete:
  assumes "bu_live bu0 t0 reply bu s" "bu_replies_ok bu0 reply"
  shows "\<exists>bu' s'. bu_step\<^sup>*\<^sup>* (bu, s) (bu', s') \<and> bu_live bu0 t0 reply bu' s' \<and> bx_stop bu'"
  using assms(1)
proof (induction "141 - bu_pos bu" arbitrary: bu s rule: less_induct)
  case less
  show ?case
  proof (cases "bx_stop bu")
    case True
    then show ?thesis
      using less.prems by blast
  next
    case False
    obtain bu1 s1 where st: "bu_step (bu, s) (bu1, s1)" "bu_live bu0 t0 reply bu1 s1"
      using bu_live_step [OF less.prems False assms(2)] by blast
    have "bu_rel bu0 t0 bu s" "bu_rel bu0 t0 bu1 s1"
      using less.prems st(2) by (simp_all add: bu_live_def)
    then have "bu_pos bu < bu_pos bu1" "bu_pos bu1 \<le> 141"
      using bu_step_rel(2) [OF st(1)] bu_pos_bound unfolding bu_rel_def by blast+
    then obtain bu' s' where "bu_step\<^sup>*\<^sup>* (bu1, s1) (bu', s')" "bu_live bu0 t0 reply bu' s'" "bx_stop bu'"
      using less.hyps [OF _ st(2)] by fastforce
    then show ?thesis
      using st(1) by (metis converse_rtranclp_into_rtranclp)
  qed
qed

section \<open>Properties of the transfer machine\<close>

text \<open>A card that answers a read of block 0x0102, and a write to it, and a machine connected to it.\<close>

definition bu_demo_reply :: "nat \<Rightarrow> u8" where
  "bu_demo_reply k = (if k = 3 then 0x5a else if k = 4 then 0x5d else if k = 7 then 0x5c else if k = 8 then 0x5d
     else if k = 9 then 1 else if k = 10 then 2 else if k = 136 then 0x5c else if k = 138 then 0x47
     else if k = 139 then 0x9a else if k = 140 then 0x47 else of_nat k)"

definition bu_demo_hw :: hw where
  "bu_demo_hw = \<lparr>hw_env = (\<lambda>t a. if a = BU_DATA then ucast (bu_demo_reply (length (reads BU_DATA t))) else 7), hw_trace = []\<rparr>"

definition bu_demo :: "u8 \<Rightarrow> bu_t" where
  "bu_demo mode = \<lparr>bx_floor = 0, bx_block = 0x0102, bx_card = 0, bx_buffer = replicate 128 0x55, bx_mode = mode,
     bx_cs = 0, bx_cnt = 0, bx_state = 0, bx_stop = False, bx_hw_state = 0, bx_byte = 0\<rparr>"

definition bu_demo0 :: "u8 \<Rightarrow> bu_t" where
  "bu_demo0 mode = (bu_demo mode)\<lparr>bx_cs := 3, bx_state := (if mode = MODE_R then 0 else 16)\<rparr>"

lemma bu_demo_init: "bu_sw_init (bu_demo MODE_R) = Some (bu_demo0 MODE_R)" "bu_sw_init (bu_demo MODE_W) = Some (bu_demo0 MODE_W)"
  by (simp_all add: bu_sw_init_def bu_demo_def bu_demo0_def blk_lsb_def blk_msb_def)

lemma bu_demo_replies: "bu_replies_ok (bu_demo0 MODE_R) bu_demo_reply" "bu_replies_ok (bu_demo0 MODE_W) bu_demo_reply"
proof -
  have fold: "bu_demo_reply 139 = fold (XOR) (map bu_demo_reply [11..<139]) 3"
    by (simp add: bu_demo_reply_def upt_rec)
  have blk: "blk_lsb (bu_demo0 m) = 2" "blk_msb (bu_demo0 m) = 1" "bx_mode (bu_demo0 m) = m" for m
    by (simp_all add: bu_demo0_def bu_demo_def blk_lsb_def blk_msb_def)
  show "bu_replies_ok (bu_demo0 MODE_R) bu_demo_reply" "bu_replies_ok (bu_demo0 MODE_W) bu_demo_reply"
    using fold by (auto simp: bu_replies_ok_def blk bu_matches_def bu_expect_def) (simp_all add: bu_demo_reply_def)
qed

lemma bu_demo_live: "m = MODE_R \<or> m = MODE_W \<Longrightarrow> bu_live (bu_demo0 m) [] bu_demo_reply (bu_demo0 m) bu_demo_hw"
proof -
  assume m: "m = MODE_R \<or> m = MODE_W"
  then have "bu_sw_init (bu_demo m) = Some (bu_demo0 m)" "bu_pos (bu_demo0 m) = 0"
    using bu_demo_init by (auto simp: bu_pos_def bu_demo0_def bu_demo_def)
  moreover have "length (bx_buffer (bu_demo m)) = 128"
    by (simp add: bu_demo_def)
  ultimately show ?thesis
    using bu_rel_init [of "bu_demo m" "bu_demo0 m" bu_demo_hw]
    by (simp add: bu_live_def bu_answers_def bu_demo_hw_def)
qed

text \<open>
  C27: The transfer machine is memory-safe and finite. From a freshly initialised
  transfer, whatever the card answers, the routine is never called through an
  empty or missing entry of the state table while the transfer has not stopped,
  the data states only index the 128-byte buffer inside its bounds, and no
  transfer takes more than 141 acknowledges.
\<close>

theorem bu_transfer_safe:
  assumes "bu_sw_init bu = Some bu0" "length (bx_buffer bu) = BU_BLK_SIZE" "(bu_step ^^ n) (bu0, s0) (bu', s')"
  shows "n \<le> 141 \<and> (\<not> bx_stop bu' \<longrightarrow> (\<exists>st bu'' s''. bu_rd_routine bu' s' = Some (st, bu'', s'')) \<and>
    (bx_state bu' \<in> {11, 22} \<longrightarrow> bx_cnt bu' < length (bx_buffer bu')))"
proof -
  note i = bu_rel_init [OF assms(1,2), of s0]
  have rel: "bu_rel bu0 (hw_trace s0) bu' s'"
    using bu_steps_rel [OF relpowp_imp_rtranclp [OF assms(3)]] i by simp
  then obtain rs where log: "bu_log bu0 bu' rs"
    by (auto simp: bu_rel_def)
  have "n \<le> 141"
    using bu_steps_bound [OF assms(3), of bu0 "hw_trace s0"] i bu_pos_bound [OF log] by simp
  moreover have "\<exists>st bu'' s''. bu_rd_routine bu' s' = Some (st, bu'', s'')" if "\<not> bx_stop bu'"
    using bu_routine_rel [OF rel that] by metis
  moreover have "bx_state bu' \<in> {11, 22} \<longrightarrow> bx_cnt bu' < length (bx_buffer bu')"
    using log by (auto simp: bu_log_def bu_wf_def split: if_splits)
  ultimately show ?thesis
    by blast
qed

theorem bu_transfer_safe_witness:
  "bu_sw_init (bu_demo MODE_R) = Some (bu_demo0 MODE_R) \<and>
   (\<exists>st bu'' s''. bu_rd_routine (bu_demo0 MODE_R) bu_demo_hw = Some (st, bu'', s''))"
  using bu_transfer_safe [OF bu_demo_init(1), of 0 bu_demo_hw "bu_demo0 MODE_R" bu_demo_hw] bu_demo_init(1)
  by (auto simp: bu_demo_def bu_demo0_def)

lemma bu_demo_run:
  assumes "m = MODE_R \<or> m = MODE_W"
  obtains bu' s' where "bu_step\<^sup>*\<^sup>* (bu_demo0 m, bu_demo_hw) (bu', s')" "bx_stop bu'"
  using bu_live_complete [OF bu_demo_live [OF assms]] bu_demo_replies assms by metis

lemma bu_stopped_log:
  assumes "bu_sw_init bu = Some bu0" "length (bx_buffer bu) = BU_BLK_SIZE"
    "bu_step\<^sup>*\<^sup>* (bu0, s0) (bu', s')" "bx_stop bu'"
  obtains rs where "bu_log bu0 bu' rs" "reads BU_DATA (hw_trace s') = reads BU_DATA (hw_trace s0) @ map ucast rs"
    "writes BU_DATA (hw_trace s') = writes BU_DATA (hw_trace s0) @ map ucast (bu_script bu0)"
proof -
  have "bu_rel bu0 (hw_trace s0) bu' s'"
    using bu_steps_rel [OF assms(3)] bu_rel_init [OF assms(1,2), of s0] by simp
  then obtain rs where rs: "bu_log bu0 bu' rs" "reads BU_DATA (hw_trace s') = reads BU_DATA (hw_trace s0) @ map ucast rs"
    "writes BU_DATA (hw_trace s') = writes BU_DATA (hw_trace s0) @ map ucast (take (bu_pos bu') (bu_script bu0))"
    by (auto simp: bu_rel_def)
  have "length (bx_buffer bu0) = BU_BLK_SIZE"
    using assms(1,2) by (auto simp: bu_sw_init_def Let_def split: if_splits)
  moreover have "bu_pos bu' = (if bx_mode bu0 = MODE_R then 141 else 139)" "bx_mode bu0 = MODE_R \<or> bx_mode bu0 = MODE_W"
    using rs(1) assms(4) by (auto simp: bu_log_def bu_wf_def bu_pos_def bu_same_rq_def split: if_splits)
  ultimately have "take (bu_pos bu') (bu_script bu0) = bu_script bu0"
    using length_bu_script [of bu0] by auto
  then show ?thesis
    using rs that by simp
qed

text \<open>What a stopped read has seen on the wire.\<close>

lemma bu_script_read:
  assumes "bx_mode bu = MODE_R"
  shows "bu_script bu = [0x81 + bx_floor bu, 0x52, 0, 0, blk_msb bu, blk_lsb bu] @ replicate 135 0"
proof -
  have zeros: "[0, 0, 0, 0, 0] @ replicate BU_BLK_SIZE 0 @ [0, 0] = replicate 135 (0 :: u8)"
    by (rule nth_equalityI) (auto simp: nth_append nth_Cons')
  show ?thesis
    using assms by (simp add: bu_script_def flip: zeros)
qed

lemma bu_log_read:
  assumes "bu_log bu0 bu' rs" "bx_stop bu'" "bx_mode bu0 = MODE_R"
  shows "length rs = 141" "bx_buffer bu' = take 128 (drop 11 rs)"
    "rs ! 3 = 0x5a \<and> rs ! 4 = 0x5d \<and> rs ! 7 = 0x5c \<and> rs ! 8 = 0x5d \<and> rs ! 9 = blk_msb bu0 \<and> rs ! 10 = blk_lsb bu0 \<and> rs ! 140 = 0x47"
    "rs ! 139 = fold (XOR) (bx_buffer bu') (blk_lsb bu0 XOR blk_msb bu0)"
proof -
  have b': "bx_mode bu' = MODE_R" "blk_msb bu' = blk_msb bu0" "blk_lsb bu' = blk_lsb bu0"
    using assms(1,3) by (auto simp: bu_log_def bu_same_rq_def blk_msb_def blk_lsb_def)
  have fin: "length rs = 141" "bx_cnt bu' = 128" "length (bx_buffer bu') = 128"
    using assms(1,2) b' by (auto simp: bu_log_def bu_wf_def bu_pos_def)
  then show "length rs = 141" "bx_buffer bu' = take 128 (drop 11 rs)"
      "rs ! 139 = fold (XOR) (bx_buffer bu') (blk_lsb bu0 XOR blk_msb bu0)"
    using assms(1) b' by (auto simp: bu_log_def bu_data_def)
  have "bu_matches bu' k (rs ! k)" if "k < 141" for k
    using assms(1) fin that by (simp add: bu_log_def bu_checked_def)
  from this [of 3] this [of 4] this [of 7] this [of 8] this [of 9] this [of 10] this [of 140]
  show "rs ! 3 = 0x5a \<and> rs ! 4 = 0x5d \<and> rs ! 7 = 0x5c \<and> rs ! 8 = 0x5d \<and> rs ! 9 = blk_msb bu0 \<and> rs ! 10 = blk_lsb bu0 \<and> rs ! 140 = 0x47"
    using b' by (simp add: bu_matches_def bu_expect_def)
qed

text \<open>
  C9: A block read that stops has read the block. The driver has sent address,
  command 'R', two zero bytes, the block number high byte first and then zeros,
  141 bytes in all; the card has answered with its identification, both
  acknowledge bytes, the confirmed block number, 128 data bytes, their checksum
  and the end byte; the driver's buffer holds exactly those 128 bytes, and the
  checksum received equals the exclusive-or of the block number and the buffer. A
  transfer in which any of these bytes is wrong does not stop successfully.
\<close>

theorem bu_read_correct:
  assumes "bu_sw_init bu = Some bu0" "length (bx_buffer bu) = BU_BLK_SIZE" "bx_mode bu = MODE_R"
    "bu_step\<^sup>*\<^sup>* (bu0, s0) (bu', s')" "bx_stop bu'"
  shows "\<exists>rs. reads BU_DATA (hw_trace s') = reads BU_DATA (hw_trace s0) @ map ucast rs \<and> length rs = 141 \<and>
    writes BU_DATA (hw_trace s') = writes BU_DATA (hw_trace s0) @
      map ucast ([0x81 + bx_floor bu, 0x52, 0, 0, blk_msb bu, blk_lsb bu] @ replicate 135 0) \<and>
    bx_buffer bu' = take 128 (drop 11 rs) \<and>
    rs ! 3 = 0x5a \<and> rs ! 4 = 0x5d \<and> rs ! 7 = 0x5c \<and> rs ! 8 = 0x5d \<and> rs ! 9 = blk_msb bu \<and> rs ! 10 = blk_lsb bu \<and>
    rs ! 139 = fold (XOR) (bx_buffer bu') (blk_lsb bu XOR blk_msb bu) \<and> rs ! 140 = 0x47"
proof -
  have b0: "bx_floor bu0 = bx_floor bu" "bx_mode bu0 = MODE_R" "blk_msb bu0 = blk_msb bu" "blk_lsb bu0 = blk_lsb bu"
    using assms(1,3) by (auto simp: bu_sw_init_def Let_def blk_msb_def blk_lsb_def)
  obtain rs where rs: "bu_log bu0 bu' rs" "reads BU_DATA (hw_trace s') = reads BU_DATA (hw_trace s0) @ map ucast rs"
    "writes BU_DATA (hw_trace s') = writes BU_DATA (hw_trace s0) @ map ucast (bu_script bu0)"
    using bu_stopped_log [OF assms(1,2,4,5)] by blast
  show ?thesis
    using rs(2,3) bu_log_read [OF rs(1) assms(5) b0(2)] bu_script_read [OF b0(2)] b0 by (intro exI [of _ rs]) simp
qed

theorem bu_read_correct_witness:
  "\<exists>bu' s'. bu_step\<^sup>*\<^sup>* (bu_demo0 MODE_R, bu_demo_hw) (bu', s') \<and> bx_stop bu' \<and>
     (\<exists>rs. bx_buffer bu' = take 128 (drop 11 rs) \<and> length rs = 141 \<and> rs ! 9 = 1)"
proof -
  obtain bu' s' where r: "bu_step\<^sup>*\<^sup>* (bu_demo0 MODE_R, bu_demo_hw) (bu', s')" "bx_stop bu'"
    using bu_demo_run [of MODE_R] by auto
  show ?thesis
    using bu_read_correct [OF bu_demo_init(1) _ _ r] r by (auto simp: bu_demo_def blk_msb_def)
qed

text \<open>
  C21: A block write that stops has written the block. The bytes on the wire are
  the address, command 'W', two zero bytes, the block number, the 128 bytes of
  the buffer, their checksum and four zeros, in this order; the card has
  acknowledged with its identification, the command acknowledge and the good-end
  byte, and the buffer is unchanged.
\<close>

theorem bu_write_correct:
  assumes "bu_sw_init bu = Some bu0" "length (bx_buffer bu) = BU_BLK_SIZE" "bx_mode bu = MODE_W"
    "bu_step\<^sup>*\<^sup>* (bu0, s0) (bu', s')" "bx_stop bu'"
  shows "\<exists>rs :: u8 list. reads BU_DATA (hw_trace s') = reads BU_DATA (hw_trace s0) @ map ucast rs \<and> length rs = 139 \<and>
    writes BU_DATA (hw_trace s') = writes BU_DATA (hw_trace s0) @
      map ucast ([0x81 + bx_floor bu, 0x57, 0, 0, blk_msb bu, blk_lsb bu] @ bx_buffer bu @
        [fold (XOR) (bx_buffer bu) (blk_lsb bu XOR blk_msb bu), 0, 0, 0, 0]) \<and>
    bx_buffer bu' = bx_buffer bu \<and> rs ! 3 = 0x5a \<and> rs ! 4 = 0x5d \<and> rs ! 136 = 0x5c \<and> rs ! 138 = 0x47"
proof -
  have b0: "bx_floor bu0 = bx_floor bu" "bx_mode bu0 = MODE_W" "blk_msb bu0 = blk_msb bu" "blk_lsb bu0 = blk_lsb bu"
    "bx_buffer bu0 = bx_buffer bu"
    using assms(1,3) by (auto simp: bu_sw_init_def Let_def blk_msb_def blk_lsb_def)
  obtain rs where rs: "bu_log bu0 bu' rs" "reads BU_DATA (hw_trace s') = reads BU_DATA (hw_trace s0) @ map ucast rs"
    "writes BU_DATA (hw_trace s') = writes BU_DATA (hw_trace s0) @ map ucast (bu_script bu0)"
    using bu_stopped_log [OF assms(1,2,4,5)] by blast
  have b': "bx_mode bu' = MODE_W" "bx_buffer bu' = bx_buffer bu"
    using rs(1) b0 by (auto simp: bu_log_def bu_same_rq_def)
  have fin: "length rs = 139"
    using rs(1) assms(5) b' by (auto simp: bu_log_def bu_wf_def bu_pos_def)
  have "bu_matches bu' k (rs ! k)" if "k < 139" for k
    using rs(1) fin that by (simp add: bu_log_def bu_checked_def)
  from this [of 3] this [of 4] this [of 136] this [of 138]
  have "rs ! 3 = 0x5a \<and> rs ! 4 = 0x5d \<and> rs ! 136 = 0x5c \<and> rs ! 138 = 0x47"
    using b' by (simp add: bu_matches_def bu_expect_def)
  then show ?thesis
    using rs(2,3) fin b' b0 by (intro exI [of _ rs]) (simp add: bu_script_def)
qed

theorem bu_write_correct_witness:
  "\<exists>bu' s'. bu_step\<^sup>*\<^sup>* (bu_demo0 MODE_W, bu_demo_hw) (bu', s') \<and> bx_stop bu' \<and> bx_buffer bu' = replicate 128 0x55"
proof -
  obtain bu' s' where r: "bu_step\<^sup>*\<^sup>* (bu_demo0 MODE_W, bu_demo_hw) (bu', s')" "bx_stop bu'"
    using bu_demo_run [of MODE_W] by auto
  show ?thesis
    using bu_write_correct [OF bu_demo_init(2) _ _ r] r by (auto simp: bu_demo_def)
qed

text \<open>
  C28: Against a card that answers the protocol correctly the transfer always
  completes: the machine reaches the stopped state and, for a read, its buffer
  holds the bytes the card sent.
\<close>

theorem bu_transfer_completes:
  assumes "bu_sw_init bu = Some bu0" "length (bx_buffer bu) = BU_BLK_SIZE"
    "bu_answers (hw_env s) (length (reads BU_DATA (hw_trace s))) reply" "bu_replies_ok bu0 reply"
  shows "\<exists>bu' s'. bu_step\<^sup>*\<^sup>* (bu0, s) (bu', s') \<and> bx_stop bu' \<and>
    (bx_mode bu = MODE_R \<longrightarrow> bx_buffer bu' = map reply [11..<139])"
proof -
  have pos: "bu_pos bu0 = 0" and mode: "bx_mode bu0 = bx_mode bu"
    using assms(1) by (auto simp: bu_sw_init_def Let_def bu_pos_def split: if_splits)
  have "bu_live bu0 (hw_trace s) reply bu0 s"
    using bu_rel_init [OF assms(1,2), of s] assms(3) pos by (simp add: bu_live_def)
  then obtain bu' s' where r: "bu_step\<^sup>*\<^sup>* (bu0, s) (bu', s')" "bu_live bu0 (hw_trace s) reply bu' s'" "bx_stop bu'"
    using bu_live_complete [OF _ assms(4)] by blast
  then obtain rs where log: "bu_log bu0 bu' rs" and rs: "map ucast rs = (map ucast (map reply [0..<bu_pos bu']) :: u32 list)"
    by (auto simp: bu_live_def bu_rel_def)
  then have rs: "rs = map reply [0..<bu_pos bu']"
    by (simp only: map_ucast_u8)
  have "bx_buffer bu' = map reply [11..<139]" if "bx_mode bu = MODE_R"
    using log that r(3) mode rs
    by (auto simp: bu_log_def bu_wf_def bu_same_rq_def bu_pos_def bu_data_def drop_map take_map)
  then show ?thesis
    using r by blast
qed

theorem bu_transfer_completes_witness:
  "\<exists>bu' s'. bu_step\<^sup>*\<^sup>* (bu_demo0 MODE_R, bu_demo_hw) (bu', s') \<and> bx_stop bu' \<and>
     bx_buffer bu' = map bu_demo_reply [11..<139]"
  using bu_transfer_completes [OF bu_demo_init(1) _ _ bu_demo_replies(1), of bu_demo_hw]
  by (simp add: bu_demo_def bu_answers_def bu_demo_hw_def)

end
