(* ===== verification/BuDrv.thy ===== *)
theory BuDrv
  imports Bu
begin

text \<open>
  The memory-card block driver around the transfer machine, \<^verbatim>\<open>drivers/block/bu.c\<close>
  as it is built by every configuration of the repository
  (\<^verbatim>\<open>CONFIG_PSX_LARGE_CARD\<close>, two cards joined into one device): the request
  function with its retries and its block-to-card mapping, the interrupt and
  timeout handlers, the SIO0 bus lock shared with the keyboard driver, the polled
  first-block read, the card sweep of \<^verbatim>\<open>bu_init\<close> and \<^verbatim>\<open>bu_revalidate\<close> and the
  file operations. Whether an acknowledge interrupt arrives before the timer is
  the device's choice, \<open>bu_ack\<close>.
\<close>

abbreviation (input) BU_MINORS :: nat where "BU_MINORS \<equiv> 2"
abbreviation (input) N_CHECKS :: nat where "N_CHECKS \<equiv> 10"
abbreviation (input) BU_ID :: u32 where "BU_ID \<equiv> 0x1234"

datatype bu_wait = BU_NONE | BU_WAIT | BU_READY | BU_TIMEOUT

record bu_dev =
  fb_id :: u32
  fb_size :: u32
  fb_serial :: u32
  fb_number :: u32
  dv_usage :: int

record bud = blkq +
  bu_curr :: bu_t
  bu_devices :: "bu_dev list"
  bu_sizes :: "int list"
  bu_total :: u32
  bu_current :: int
  bu_state :: bu_wait
  bu_lock :: bool
  bu_probing :: bool
  bu_open :: bool
  bu_rq_step :: u32
  bu_try :: nat
  bu_start :: u32
  bu_len :: u32
  bu_retry_armed :: bool
  bu_timer_on :: bool
  bu_defers :: u32
  bu_kbd_grabs :: u32
  bu_serials :: "u32 list"
  bu_seen :: "bool list"
  bu_use :: int
  bu_ack :: "bus_trace \<Rightarrow> bool"
  bu_mem :: "u32 \<Rightarrow> u8"

section \<open>The SIO0 lock\<close>

definition psx_sio0_trylock :: "'a bud_scheme \<Rightarrow> bool \<times> 'a bud_scheme" where
  "psx_sio0_trylock s =
    (if \<not> bu_lock s \<and> \<not> bu_probing s
     then (True, s\<lparr>bu_kbd_grabs := bu_kbd_grabs s + 1, bu_lock := True\<rparr>)
     else (False, s))"

definition psx_sio0_unlock :: "'a bud_scheme \<Rightarrow> 'a bud_scheme" where
  "psx_sio0_unlock s = s\<lparr>bu_lock := False\<rparr>"

text \<open>
  \<^verbatim>\<open>bu_catch\<close> sleeps between its checks; \<open>freed i\<close> says whether the holder has
  released the lock during the \<open>i\<close>-th sleep.
\<close>

function bu_catch :: "(nat \<Rightarrow> bool) \<Rightarrow> nat \<Rightarrow> nat \<Rightarrow> 'a bud_scheme \<Rightarrow> bool \<times> 'a bud_scheme" where
  "bu_catch freed i checks s =
    (if i < checks
     then if bu_lock s
          then bu_catch freed (i + 1) checks (if freed i then s\<lparr>bu_lock := False\<rparr> else s)
          else (True, s\<lparr>bu_lock := True\<rparr>)
     else (False, s))"
  by pat_completeness auto

termination
  by (relation "measure (\<lambda>(_, i, n, _). n - i)") auto

section \<open>Requests\<close>

text \<open>
  The \<^verbatim>\<open>for (j = 0; j < BU_MINORS; j++)\<close> loop that turns a block number of the joined
  device into a slot and a block of the card in it. All arithmetic is on the
  16-bit \<^verbatim>\<open>block\<close> field.
\<close>

fun bu_map_block :: "bu_dev list \<Rightarrow> nat \<Rightarrow> u16 \<Rightarrow> (nat \<times> u16) option" where
  "bu_map_block [] j b = None"
| "bu_map_block (d # ds) j b =
    (if fb_size d > 0
     then let b = b + 8 in
          if ucast b < fb_size d then Some (j, b) else bu_map_block ds (j + 1) (b - ucast (fb_size d))
     else bu_map_block ds (j + 1) b)"

text \<open>\<^verbatim>\<open>end_request (up); bu_current = -1; bu_lock = FALSE;\<close>\<close>

definition bu_finish :: "bool \<Rightarrow> 'a bud_scheme \<Rightarrow> 'a bud_scheme" where
  "bu_finish up s = (end_request up s)\<lparr>bu_current := - 1, bu_lock := False\<rparr>"

definition bu_arm_retry :: "'a bud_scheme \<Rightarrow> 'a bud_scheme" where
  "bu_arm_retry s = (if bu_retry_armed s then s else s\<lparr>bu_retry_armed := True\<rparr>)"

definition bu_defer :: "'a bud_scheme \<Rightarrow> 'a bud_scheme" where
  "bu_defer s = bu_arm_retry (s\<lparr>bu_defers := bu_defers s + 1\<rparr>)"

text \<open>
  The \<^verbatim>\<open>while (TRUE)\<close> loop that rejects bad requests and claims the first good one
  (True), or finds the queue empty (False).
\<close>

partial_function (option) bu_pick :: "'a bud_scheme \<Rightarrow> (bool \<times> 'a bud_scheme) option" where
  "bu_pick s =
    (case rq_queue s of
       [] \<Rightarrow> Some (False, s)
     | req # _ \<Rightarrow>
         if rq_minor req > 0 then bu_pick (end_request False s)
         else let start = push_bit 2 (rq_sector req); len = push_bit 2 (rq_current_nr_sectors req);
                  s = s\<lparr>bu_start := start, bu_len := len\<rparr> in
              if start + len > bu_total s then bu_pick (end_request False s)
              else if rq_cmd req = READA then bu_pick (end_request False s)
              else Some (True, s\<lparr>bu_curr := (bu_curr s)\<lparr>bx_mode := (if rq_cmd req = READ then MODE_R else MODE_W)\<rparr>,
                                 bu_lock := True, bu_current := 0, bu_rq_step := 0, bu_try := 0\<rparr>))"

text \<open>The block of a write request is copied into the transfer's buffer.\<close>

definition bu_fill :: "request \<Rightarrow> 'a bud_scheme \<Rightarrow> 'a bud_scheme" where
  "bu_fill req s =
    (if rq_cmd req = WRITE
     then s\<lparr>bu_curr := (bu_curr s)\<lparr>bx_buffer :=
            map (\<lambda>i. bu_mem s (rq_buffer req + push_bit 7 (bu_rq_step s) + of_nat i)) [0..<128]\<rparr>\<rparr>
     else s)"

text \<open>Start the transfer of block \<open>b\<close> of the card in slot \<open>j\<close>.\<close>

definition bu_launch :: "nat \<Rightarrow> u16 \<Rightarrow> 'a bud_scheme \<Rightarrow> (bool \<times> 'a bud_scheme) option" where
  "bu_launch j b s =
    (let bu = (bu_curr s)\<lparr>bx_block := b, bx_card := j, bx_floor := 0\<rparr>;
         s = s\<lparr>bu_curr := bu, bu_state := BU_NONE\<rparr> in
     case bu_sw_init bu of
       None \<Rightarrow> Some (True, bu_finish False s)
     | Some bu \<Rightarrow>
         (case bu_rd_routine bu (bu_hw_init s) of
            None \<Rightarrow> None
          | Some (st, bu, s) \<Rightarrow>
              if st < 0 then Some (True, bu_finish False (s\<lparr>bu_curr := bu\<rparr>))
              else Some (False, s\<lparr>bu_curr := bu, bu_timer_on := True\<rparr>)))"

text \<open>
  The rest of \<^verbatim>\<open>do_bu_request\<close>: start one block transfer, or finish the request.
  True: the request has ended; False: a transfer is under way and the timer armed.
\<close>

definition bu_attempt :: "'a bud_scheme \<Rightarrow> (bool \<times> 'a bud_scheme) option" where
  "bu_attempt s =
    (if bu_rq_step s < bu_len s
     then if bu_try s \<ge> N_CHECKS then Some (True, bu_finish False s)
          else let s = s\<lparr>bu_try := bu_try s + 1\<rparr> in
               case rq_queue s of
                 [] \<Rightarrow> None
               | req # _ \<Rightarrow>
                   (let s = bu_fill req s in
                    case bu_map_block (bu_devices s) 0 (ucast (bu_start s + bu_rq_step s)) of
                      None \<Rightarrow> Some (True, bu_finish False s)
                    | Some (j, b) \<Rightarrow> bu_launch j b s)
     else Some (True, bu_finish True s))"

text \<open>\<open>cont\<close> is the flag \<^verbatim>\<open>bu_continue\<close>: called from the interrupt or timeout handler.\<close>

partial_function (option) do_bu_request :: "bool \<Rightarrow> 'a bud_scheme \<Rightarrow> 'a bud_scheme option" where
  "do_bu_request cont s =
    (if \<not> cont \<and> bu_lock s then Some (bu_defer s)
     else do {
       (go, s) \<leftarrow> (if cont then Some (True, s) else bu_pick s);
       if \<not> go then Some s
       else do {
         (ended, s) \<leftarrow> bu_attempt s;
         if \<not> ended then Some s
         else if rq_queue s \<noteq> [] then do_bu_request False s
         else Some s
       }
     })"

definition bu_retry :: "'a bud_scheme \<Rightarrow> 'a bud_scheme option" where
  "bu_retry s = do_bu_request False (s\<lparr>bu_retry_armed := False\<rparr>)"

text \<open>The block copied back into the request's buffer when a read block is complete.\<close>

definition bu_copy_back :: "'a bud_scheme \<Rightarrow> 'a bud_scheme option" where
  "bu_copy_back s =
    (case rq_queue s of
       [] \<Rightarrow> None
     | req # _ \<Rightarrow>
         if rq_cmd req = READ
         then (let dst = rq_buffer req + push_bit 7 (bu_rq_step s); buf = bx_buffer (bu_curr s)
               in Some (s\<lparr>bu_mem := (\<lambda>a. if unat (a - dst) < 128 then buf ! unat (a - dst) else bu_mem s a)\<rparr>))
         else Some s)"

definition bu_interrupt :: "'a bud_scheme \<Rightarrow> 'a bud_scheme option" where
  "bu_interrupt s =
    (if bu_current s < 0 then Some s
     else if bu_open s then Some (s\<lparr>bu_state := BU_READY\<rparr>)
     else case bu_rd_routine (bu_curr s) s of
            None \<Rightarrow> None
          | Some (st, bu, s) \<Rightarrow>
              (let s = s\<lparr>bu_curr := bu\<rparr> in
               if st < 0 then do_bu_request True (s\<lparr>bu_timer_on := False\<rparr>)
               else if bx_stop bu
               then do {
                 s \<leftarrow> bu_copy_back (s\<lparr>bu_timer_on := False\<rparr>);
                 do_bu_request True (s\<lparr>bu_rq_step := bu_rq_step s + 1, bu_try := 0\<rparr>)
               }
               else Some (s\<lparr>bu_timer_on := True\<rparr>)))"

definition bu_timeout :: "'a bud_scheme \<Rightarrow> 'a bud_scheme option" where
  "bu_timeout s =
    (let s = s\<lparr>bu_state := BU_TIMEOUT\<rparr> in
     if bu_current s < 0 then Some s
     else if bu_open s then Some s
     else do_bu_request True (s\<lparr>bu_timer_on := False\<rparr>))"

section \<open>The polled first-block read\<close>

definition bu_ready :: "'a bud_scheme \<Rightarrow> bool \<times> 'a bud_scheme" where
  "bu_ready s =
    (if bu_ack s (hw_trace s)
     then (True, s\<lparr>bu_state := BU_READY, bu_timer_on := False\<rparr>)
     else (False, s\<lparr>bu_state := BU_TIMEOUT, bu_timer_on := False\<rparr>))"

partial_function (option) bu_check_loop :: "bu_t \<Rightarrow> 'a bud_scheme \<Rightarrow> (bool \<times> bu_t \<times> 'a bud_scheme) option" where
  "bu_check_loop bu s =
    (case (if bx_state bu mod 16 \<noteq> 0 then bu_ready s else (True, s)) of
       (ok, s) \<Rightarrow>
         if \<not> ok then Some (False, bu, s)
         else do {
           (st, bu, s) \<leftarrow> bu_rd_routine bu s;
           if st < 0 then Some (False, bu, s)
           else if bx_stop bu then Some (True, bu, s)
           else bu_check_loop bu s
         })"

function bu_check :: "nat \<Rightarrow> bu_t \<Rightarrow> 'a bud_scheme \<Rightarrow> (bool \<times> bu_t \<times> 'a bud_scheme) option" where
  "bu_check tries bu s =
    (if tries \<ge> N_CHECKS then Some (False, bu, delay 100 (out16 BU_CONTROL 0 s))
     else case bu_sw_init bu of
            None \<Rightarrow> Some (False, bu, s)
          | Some bu \<Rightarrow>
              (case bu_check_loop bu (bu_hw_init s) of
                 None \<Rightarrow> None
               | Some (ok, bu, s) \<Rightarrow>
                   if ok then Some (True, bu, delay 100 (out16 BU_CONTROL 0 s))
                   else bu_check (tries + 1) bu s))"
  by pat_completeness auto

termination
  by (relation "measure (\<lambda>(n, _, _). N_CHECKS - n)") auto

definition bu_first_request :: "nat \<Rightarrow> bu_t" where
  "bu_first_request crd = \<lparr>bx_floor = 0, bx_block = 0, bx_card = crd, bx_buffer = replicate 128 0, bx_mode = MODE_R,
     bx_cs = 0, bx_cnt = 0, bx_state = 0, bx_stop = False, bx_hw_state = 0, bx_byte = 0\<rparr>"

definition bu_read_first_block :: "nat \<Rightarrow> 'a bud_scheme \<Rightarrow> (bool \<times> 'a bud_scheme) option" where
  "bu_read_first_block crd s =
    do {
      (ok, bu, s) \<leftarrow> bu_check 0 (bu_first_request crd) s;
      if \<not> ok then Some (False, s)
      else if le32_at (bx_buffer bu) 0 \<noteq> BU_ID then Some (False, s)
      else Some (True, s\<lparr>bu_devices := (bu_devices s)[crd := (bu_devices s ! crd)
             \<lparr>fb_id := le32_at (bx_buffer bu) 0, fb_size := le32_at (bx_buffer bu) 4,
              fb_serial := le32_at (bx_buffer bu) 8, fb_number := le32_at (bx_buffer bu) 12\<rparr>]\<rparr>)
    }"

section \<open>The card sweep\<close>

definition bu_serial_seen :: "u32 \<Rightarrow> 'a bud_scheme \<Rightarrow> bool \<times> 'a bud_scheme" where
  "bu_serial_seen serial s =
    (if serial \<in> set (bu_serials s) then (True, s)
     else if length (bu_serials s) < BU_MINORS then (False, s\<lparr>bu_serials := bu_serials s @ [serial]\<rparr>)
     else (False, s))"

text \<open>Accept the card in slot \<open>i\<close>: its size joins the device.\<close>

definition bu_join :: "nat \<Rightarrow> int \<Rightarrow> 'a bud_scheme \<Rightarrow> int \<times> 'a bud_scheme" where
  "bu_join i total_kb s =
    (let size = fb_size (bu_devices s ! i); kb = sint (drop_bit 3 size - 1) in
     (total_kb + kb, s\<lparr>bu_sizes := (bu_sizes s)[i := kb], bu_total := bu_total s + (size - 8)\<rparr>))"

text \<open>One slot of \<^verbatim>\<open>bu_revalidate\<close>, after its first block has been read (lines 1024-1063).\<close>

definition bu_judge :: "nat \<Rightarrow> bool list \<Rightarrow> int \<Rightarrow> 'a bud_scheme \<Rightarrow> bool list \<times> int \<times> 'a bud_scheme" where
  "bu_judge i seen total_kb s =
    (let number = fb_number (bu_devices s ! i) in
     if number \<ge> 2 \<or> seen ! unat number
     then (seen, total_kb, s\<lparr>bu_sizes := (bu_sizes s)[i := 0]\<rparr>)
     else let (dup, s) = bu_serial_seen (fb_serial (bu_devices s ! i)) s in
          if dup then (seen, total_kb, s\<lparr>bu_sizes := (bu_sizes s)[i := 0]\<rparr>)
          else let (total_kb, s) = bu_join i total_kb s in (seen[unat number := True], total_kb, s))"

fun bu_sweep :: "nat list \<Rightarrow> bool list \<Rightarrow> int \<Rightarrow> 'a bud_scheme \<Rightarrow> (int \<times> 'a bud_scheme) option" where
  "bu_sweep [] seen kb s = Some (kb, s)"
| "bu_sweep (i # is) seen kb s =
    do {
      (found, s) \<leftarrow> bu_read_first_block i (delay 5000 s);
      if \<not> found then bu_sweep is seen kb (s\<lparr>bu_sizes := (bu_sizes s)[i := 0]\<rparr>)
      else case bu_judge i seen kb s of (seen, kb, s) \<Rightarrow> bu_sweep is seen kb s
    }"

datatype bu_err = BU_EBUSY | BU_ENODEV | BU_ENXIO

definition bu_revalidate :: "(nat \<Rightarrow> bool) \<Rightarrow> nat \<Rightarrow> 'a bud_scheme \<Rightarrow> (bu_err option \<times> 'a bud_scheme) option" where
  "bu_revalidate freed crd s =
    (let s = s\<lparr>bu_serials := []\<rparr>;
         (caught, s) = bu_catch freed 0 N_CHECKS s in
     if \<not> caught then Some (Some BU_EBUSY, s)
     else do {
       (kb, s) \<leftarrow> bu_sweep [0, 1] [False, False] 0
                    (s\<lparr>bu_current := int crd, bu_state := BU_NONE, bu_open := True, bu_total := 0, bu_probing := True\<rparr>);
       let s = s\<lparr>bu_sizes := (bu_sizes s)[0 := kb], bu_current := - 1, bu_open := False, bu_lock := False, bu_probing := False\<rparr>;
       Some (if kb = 0 then Some BU_ENODEV else None, s)
     })"

text \<open>One slot of the boot sweep in \<^verbatim>\<open>bu_init\<close> (lines 1195-1251): no serial check.\<close>

definition bu_init_slot :: "(nat \<Rightarrow> bool) \<Rightarrow> nat \<Rightarrow> int \<Rightarrow> 'a bud_scheme \<Rightarrow> (int \<times> 'a bud_scheme) option" where
  "bu_init_slot freed i kb s =
    (let (caught, s) = bu_catch freed 0 N_CHECKS (delay 5000 s) in
     if \<not> caught then Some (kb, s)
     else do {
       (found, s) \<leftarrow> bu_read_first_block i (s\<lparr>bu_current := int i, bu_state := BU_NONE, bu_open := True\<rparr>);
       let (kb, s) =
         (if \<not> found then (kb, s\<lparr>bu_sizes := (bu_sizes s)[i := 0]\<rparr>)
          else let number = fb_number (bu_devices s ! i) in
               if number \<ge> 2 \<or> bu_seen s ! unat number then (kb, s)
               else bu_join i kb (s\<lparr>bu_seen := (bu_seen s)[unat number := True]\<rparr>));
       Some (kb, s\<lparr>bu_current := - 1, bu_open := False, bu_lock := False\<rparr>)
     })"

text \<open>\<open>reg_ok\<close> and \<open>irq_ok\<close>: the block major and the controller interrupt could be claimed.\<close>

definition bu_init :: "(nat \<Rightarrow> nat \<Rightarrow> bool) \<Rightarrow> bool \<Rightarrow> bool \<Rightarrow> 'a bud_scheme \<Rightarrow> (bool \<times> 'a bud_scheme) option" where
  "bu_init freed reg_ok irq_ok s =
    (if \<not> reg_ok then Some (False, s)
     else let s = s\<lparr>bu_sizes := [0, 0]\<rparr> in
          if \<not> irq_ok then Some (False, s)
          else do {
            (kb, s) \<leftarrow> bu_init_slot (freed 0) 0 0 (s\<lparr>bu_probing := True, bu_total := 0\<rparr>);
            (kb, s) \<leftarrow> bu_init_slot (freed 1) 1 kb s;
            Some (True, s\<lparr>bu_sizes := (bu_sizes s)[0 := kb], bu_probing := False\<rparr>)
          })"

section \<open>File operations\<close>

definition bu_check_change :: "nat \<Rightarrow> bool" where
  "bu_check_change minor = (\<not> minor > 0)"

definition bu_do_open :: "(nat \<Rightarrow> bool) \<Rightarrow> nat \<Rightarrow> 'a bud_scheme \<Rightarrow> (bu_err option \<times> 'a bud_scheme) option" where
  "bu_do_open freed crd s =
    (if crd > 0 then Some (Some BU_ENODEV, s)
     else do {
       (e, s) \<leftarrow> (if dv_usage (bu_devices s ! crd) = 0
                  then do {
                    (_, s) \<leftarrow> (if bu_check_change crd then bu_revalidate freed crd s else Some (None, s));
                    Some (bu_sizes s ! crd = 0, s)
                  }
                  else Some (False, s));
       if e then Some (Some BU_ENXIO, s)
       else Some (None, s\<lparr>bu_devices := (bu_devices s)[crd := (bu_devices s ! crd)\<lparr>dv_usage := dv_usage (bu_devices s ! crd) + 1\<rparr>],
                          bu_use := bu_use s + 1\<rparr>)
     })"

definition bu_release :: "nat \<Rightarrow> 'a bud_scheme \<Rightarrow> 'a bud_scheme" where
  "bu_release crd s =
    s\<lparr>bu_devices := (bu_devices s)[crd := (bu_devices s ! crd)\<lparr>dv_usage := dv_usage (bu_devices s ! crd) - 1\<rparr>],
      bu_use := bu_use s - 1\<rparr>"

text \<open>
  \<^verbatim>\<open>bu_ioctl\<close>. The user pointer's null test, \<^verbatim>\<open>access_ok\<close> and \<^verbatim>\<open>copy_to_user\<close> verdicts
  and the generic \<^verbatim>\<open>blk_ioctl\<close> are arguments; the result carries what is copied out.
\<close>

datatype bu_cmd = BLKGETSIZE | BLKRRPART | HDIO_GETGEO | BU_OTHER_CMD u32

datatype bu_ioctl_ret = IO_EINVAL | IO_EFAULT | IO_ENOTTY | IO_SIZE int | IO_GEO int nat nat nat | IO_GENERIC int

definition bu_ioctl_size :: "nat \<Rightarrow> 'a bud_scheme \<Rightarrow> int" where
  "bu_ioctl_size minor s = (bu_sizes s ! minor) * 1024 div 512"

definition bu_ioctl :: "bool \<Rightarrow> bool \<Rightarrow> bool \<Rightarrow> (u32 \<Rightarrow> int) \<Rightarrow> nat \<Rightarrow> bu_cmd \<Rightarrow> 'a bud_scheme \<Rightarrow> bu_ioctl_ret" where
  "bu_ioctl arg_null access_ok copy_ok blk_ioctl minor cmd s =
    (case cmd of
       BLKGETSIZE \<Rightarrow>
         if arg_null then IO_EINVAL else if \<not> access_ok then IO_EFAULT
         else if \<not> copy_ok then IO_EFAULT else IO_SIZE (bu_ioctl_size minor s)
     | BLKRRPART \<Rightarrow> IO_ENOTTY
     | HDIO_GETGEO \<Rightarrow>
         if \<not> access_ok then IO_EFAULT
         else if \<not> copy_ok then IO_EFAULT
         else IO_GEO ((bu_ioctl_size minor s AND NOT 63) div 64) 4 16 4
     | BU_OTHER_CMD c \<Rightarrow> IO_GENERIC (blk_ioctl c))"

declare bu_catch.simps [simp del]
declare bu_check.simps [simp del]

section \<open>What bus traffic leaves alone\<close>

lemma emits_any [simp]: "emits (\<lambda>_. True) s s' \<Longrightarrow> emits (\<lambda>_. True) s (emit e s')"
  by (erule emits_trans) simp

lemma bu_wait_status_any [simp]: "emits (\<lambda>_. True) s s0 \<Longrightarrow> emits (\<lambda>_. True) s (snd (bu_wait_status n s0))"
  by (erule emits_trans) (rule emits_mono [OF bu_wait_status_emits], simp)

text \<open>What every state function leaves alone.\<close>

definition bu_tame :: "'a bu_fn \<Rightarrow> bool" where
  "bu_tame f \<longleftrightarrow> (\<forall>bu s. case f bu s of (st, bu', s') \<Rightarrow>
     emits (\<lambda>_. True) s s' \<and> length (bx_buffer bu') = length (bx_buffer bu) \<and> bx_mode bu' = bx_mode bu \<and>
     bx_block bu' = bx_block bu \<and> bx_card bu' = bx_card bu \<and> bx_floor bu' = bx_floor bu)"

lemma bu_tame_simple:
  "bu_tame bu_rd_state0" "bu_tame bu_rd_state1" "bu_tame bu_rd_state2" "bu_tame bu_rd_state3" "bu_tame bu_rd_state4"
  "bu_tame bu_rd_state5" "bu_tame bu_rd_state6" "bu_tame bu_rd_state7" "bu_tame bu_rd_state8" "bu_tame bu_rd_state9"
  "bu_tame bu_rd_state10" "bu_tame bu_wr_state7" "bu_tame bu_rd_data" "bu_tame bu_wr_data"
  by (simp_all add: bu_tame_def bu_state_defs bu_swap_def bus_defs)

lemma bu_tame_state12: "bu_tame bu_rd_state12"
  by (simp add: bu_tame_def bu_rd_state12_def bu_swap_def bus_defs split_beta)

lemma bu_rd_states_tame: "Some f \<in> set bu_rd_states \<Longrightarrow> bu_tame f"
  by (auto simp: bu_rd_states_def bu_tame_simple bu_tame_state12)

lemma bu_rd_routine_tame:
  assumes "bu_rd_routine bu s = Some (st, bu', s')"
  shows "emits (\<lambda>_. True) s s'" "length (bx_buffer bu') = length (bx_buffer bu)" "bx_mode bu' = bx_mode bu"
    "bx_block bu' = bx_block bu" "bx_card bu' = bx_card bu" "bx_floor bu' = bx_floor bu"
proof -
  obtain f st0 bu0 where f: "Some f \<in> set bu_rd_states" "f bu (bu_select bu s) = (st0, bu0, s')"
      "\<exists>k. bu' = bu0\<lparr>bx_state := k\<rparr>"
    using assms by (auto simp: bu_rd_routine_def split: option.splits prod.splits if_splits) (metis nth_mem bu_t.surjective bu_t.update_convs(8))+
  have sel: "emits (\<lambda>_. True) s (bu_select bu s)"
    by (simp add: bu_select_def bus_defs)
  have "emits (\<lambda>_. True) (bu_select bu s) s'" "length (bx_buffer bu0) = length (bx_buffer bu)" "bx_mode bu0 = bx_mode bu"
      "bx_block bu0 = bx_block bu" "bx_card bu0 = bx_card bu" "bx_floor bu0 = bx_floor bu"
    using bu_rd_states_tame [OF f(1)] f(2) by (auto simp: bu_tame_def split: prod.splits)
  then show "emits (\<lambda>_. True) s s'" "length (bx_buffer bu') = length (bx_buffer bu)" "bx_mode bu' = bx_mode bu"
      "bx_block bu' = bx_block bu" "bx_card bu' = bx_card bu" "bx_floor bu' = bx_floor bu"
    using f(3) emits_trans [OF sel] by auto
qed

lemma bu_hw_init_emits: "emits (\<lambda>_. True) s (bu_hw_init s)"
  by (simp add: bu_hw_init_def bus_defs)

lemma bu_wf_range:
  assumes "bu_wf bu" "\<not> bx_stop bu"
  obtains "bx_mode bu = MODE_R" "bx_state bu \<le> 12" | "bx_mode bu = MODE_W" "16 \<le> bx_state bu" "bx_state bu \<le> 26"
proof (cases "bx_mode bu = MODE_R")
  case True
  then have "bx_state bu \<le> 13" "bx_state bu \<noteq> 13"
    using assms by (simp_all add: bu_wf_def)
  then show ?thesis
    using True that(1) by simp
next
  case False
  then have "bx_mode bu = MODE_W" "16 \<le> bx_state bu" "bx_state bu \<le> 27" "bx_state bu \<noteq> 27"
    using assms by (simp_all add: bu_wf_def)
  then show ?thesis
    using that(2) by simp
qed

lemma bu_final_wf:
  assumes "bu_wf bu" "bx_state bu = 12 \<and> bx_mode bu = MODE_R \<or> bx_state bu = 26 \<and> bx_mode bu = MODE_W"
  shows "bu_wf (bu\<lparr>bx_byte := 0x47, bx_stop := True, bx_state := bx_state bu + 1\<rparr>)"
    "bu_pos bu < bu_pos (bu\<lparr>bx_byte := 0x47, bx_stop := True, bx_state := bx_state bu + 1\<rparr>)"
  using assms(2,1) by (elim disjE conjE; simp add: bu_wf_def bu_pos_def)+

text \<open>A transfer in progress can always take its next step, and stays well formed unless it fails.\<close>

lemma bu_rd_routine_wf:
  assumes "bu_wf bu" "\<not> bx_stop bu"
  obtains st bu' s' where "bu_rd_routine bu s = Some (st, bu', s')" "st = 0 \<or> st = - 1"
    "st = 0 \<Longrightarrow> bu_wf bu' \<and> bu_pos bu < bu_pos bu' \<and> (bx_state bu \<in> bu_simple \<longrightarrow> \<not> bx_stop bu')"
proof (cases "bx_state bu \<in> bu_simple")
  case True
  obtain st bu' s' where r: "bu_rd_routine bu s = Some (st, bu', s')" "st = (if bu_good bu (last_rd s') then 0 else - 1)"
      "bu_good bu (last_rd s') \<Longrightarrow> bu' = bu_take bu (last_rd s')"
    using bu_rd_routine_simple [OF True, of s] by (cases "bu_rd_routine bu s") (auto simp del: if_split_asm)
  have range: "bx_mode bu = MODE_R \<and> bx_state bu \<le> 11 \<or> bx_mode bu = MODE_W \<and> 16 \<le> bx_state bu \<and> bx_state bu \<le> 25"
    using assms(1) True unfolding bu_wf_def bu_simple_iff by (cases "bx_mode bu = MODE_R") simp_all
  have "bu_wf (bu_take bu b)" "bu_pos (bu_take bu b) = bu_pos bu + 1" for b
    using range bu_take_wf_R [OF assms(1)] bu_take_wf_W [OF assms(1)] by blast+
  then show ?thesis
    using r(2,3) assms(2) by (intro that [OF r(1)]) (cases "bu_good bu (last_rd s')"; simp)+
next
  case False
  have fin: "bx_state bu = 12 \<and> bx_mode bu = MODE_R \<or> bx_state bu = 26 \<and> bx_mode bu = MODE_W"
    by (rule bu_wf_range [OF assms]) (use False in \<open>simp_all add: bu_simple_iff\<close>)
  show ?thesis
  proof (rule bu_rd_routine_final [of bu s])
    show "bx_state bu = 12 \<or> bx_state bu = 26"
      using fin by blast
    fix st bu' s'
    assume r: "bu_rd_routine bu s = Some (st, bu', s')" "st = 0 \<or> st = - 1"
      and z: "st = 0 \<Longrightarrow> bu' = bu\<lparr>bx_byte := 0x47, bx_stop := True, bx_state := bx_state bu + 1\<rparr> \<and>
       writes BU_DATA (hw_trace s') = writes BU_DATA (hw_trace s) @ [0, 0] \<and>
       (\<exists>b. reads BU_DATA (hw_trace s') = reads BU_DATA (hw_trace s) @ [ucast b, 0x47] \<and>
            (bx_mode bu = MODE_R \<longrightarrow> b = bx_cs bu))"
    show thesis
      by (rule that [OF r]) (use z bu_final_wf [OF assms(1) fin] False in simp)
  qed
qed

lemma bu_sw_init_wf:
  assumes "bx_mode bu = MODE_R \<or> bx_mode bu = MODE_W" "length (bx_buffer bu) = BU_BLK_SIZE"
  obtains bu' where "bu_sw_init bu = Some bu'" "bu_wf bu'" "\<not> bx_stop bu'" "bx_state bu' \<in> bu_simple" "bx_mode bu' = bx_mode bu"
    "bx_buffer bu' = bx_buffer bu" "bx_block bu' = bx_block bu" "bx_card bu' = bx_card bu"
  using assms by (auto simp: bu_sw_init_def Let_def bu_wf_def bu_simple_def intro!: that)

text \<open>The driver's own fields across bus traffic.\<close>

lemma emits_bud:
  fixes s s' :: "'a bud_scheme"
  assumes "emits P s s'"
  shows "rq_queue s' = rq_queue s" "rq_done s' = rq_done s" "bu_curr s' = bu_curr s" "bu_devices s' = bu_devices s"
    "bu_sizes s' = bu_sizes s" "bu_total s' = bu_total s" "bu_current s' = bu_current s" "bu_state s' = bu_state s"
    "bu_lock s' = bu_lock s" "bu_probing s' = bu_probing s" "bu_open s' = bu_open s" "bu_rq_step s' = bu_rq_step s"
    "bu_try s' = bu_try s" "bu_start s' = bu_start s" "bu_len s' = bu_len s" "bu_retry_armed s' = bu_retry_armed s"
    "bu_timer_on s' = bu_timer_on s" "bu_serials s' = bu_serials s" "bu_seen s' = bu_seen s" "bu_ack s' = bu_ack s"
    "bu_mem s' = bu_mem s" "bud.more s' = bud.more s"
  using emits_more [OF assms] by (cases s; cases s'; simp)+

lemma end_request_bud [simp]:
  fixes s :: "'a bud_scheme"
  shows "bu_curr (end_request up s) = bu_curr s" "bu_devices (end_request up s) = bu_devices s"
    "bu_sizes (end_request up s) = bu_sizes s" "bu_total (end_request up s) = bu_total s"
    "bu_current (end_request up s) = bu_current s" "bu_lock (end_request up s) = bu_lock s"
    "bu_probing (end_request up s) = bu_probing s" "bu_open (end_request up s) = bu_open s"
    "bu_rq_step (end_request up s) = bu_rq_step s" "bu_try (end_request up s) = bu_try s"
    "bu_len (end_request up s) = bu_len s" "bu_start (end_request up s) = bu_start s"
    "bu_retry_armed (end_request up s) = bu_retry_armed s" "bu_timer_on (end_request up s) = bu_timer_on s"
  using end_request_hw(3) [of up s] by (cases s; cases "end_request up s"; simp)+

section \<open>The driver under interleaved events\<close>

text \<open>Every buffer handed to the driver, completed ones first.\<close>

definition bu_hist :: "'a bud_scheme \<Rightarrow> buffer_head list" where
  "bu_hist s = map fst (rq_done s) @ pending s"

lemma bu_hist_end_request [simp]: "rq_queue s \<noteq> [] \<Longrightarrow> bu_hist (end_request up s) = bu_hist s"
  by (simp add: bu_hist_def end_request_pending)

lemma bu_hist_fields:
  fixes s s' :: "'a bud_scheme"
  shows "rq_queue s' = rq_queue s \<Longrightarrow> rq_done s' = rq_done s \<Longrightarrow> bu_hist s' = bu_hist s"
    "rq_queue s' = rq_queue s \<Longrightarrow> rq_work s' = rq_work s"
  by (simp_all add: bu_hist_def pending_def rq_work_def)

text \<open>The driver is idle, and the keyboard does not hold the bus.\<close>

definition bu_idle :: "'a bud_scheme \<Rightarrow> bool" where
  "bu_idle s \<longleftrightarrow> \<not> bu_probing s \<and> \<not> bu_open s \<and> \<not> bu_lock s \<and> bu_current s < 0 \<and> \<not> bu_timer_on s \<and>
     length (bx_buffer (bu_curr s)) = BU_BLK_SIZE"

text \<open>The driver owns the bus for the request at the head of the queue.\<close>

definition bu_busy :: "'a bud_scheme \<Rightarrow> bool" where
  "bu_busy s \<longleftrightarrow> \<not> bu_probing s \<and> \<not> bu_open s \<and> bu_lock s \<and> 0 \<le> bu_current s \<and> rq_queue s \<noteq> [] \<and>
     bu_try s \<le> N_CHECKS \<and>
     length (bx_buffer (bu_curr s)) = BU_BLK_SIZE \<and> (bx_mode (bu_curr s) = MODE_R \<or> bx_mode (bu_curr s) = MODE_W)"

text \<open>A block transfer of that request is in progress, guarded by the timer.\<close>

definition bu_running :: "'a bud_scheme \<Rightarrow> bool" where
  "bu_running s \<longleftrightarrow> bu_busy s \<and> bu_timer_on s \<and> bu_wf (bu_curr s) \<and> \<not> bx_stop (bu_curr s) \<and> bu_rq_step s < bu_len s"

text \<open>What a call may not change: the buffers' order, and an armed retry.\<close>

definition bu_keeps :: "'a bud_scheme \<Rightarrow> 'a bud_scheme \<Rightarrow> bool" where
  "bu_keeps s s' \<longleftrightarrow> bu_hist s' = bu_hist s \<and> (bu_retry_armed s \<longrightarrow> bu_retry_armed s')"

lemma bu_keeps_refl [simp]: "bu_keeps s s"
  by (simp add: bu_keeps_def)

lemma bu_keeps_trans: "bu_keeps s s' \<Longrightarrow> bu_keeps s' s'' \<Longrightarrow> bu_keeps s s''"
  by (simp add: bu_keeps_def)

lemma bu_finish_idle:
  assumes "bu_busy s" "\<not> bu_timer_on s"
  shows "bu_idle (bu_finish up s)" "bu_keeps s (bu_finish up s)" "rq_work (bu_finish up s) < rq_work s"
proof -
  have q: "rq_queue s \<noteq> []"
    using assms by (simp add: bu_busy_def)
  show "bu_idle (bu_finish up s)"
    using assms by (simp add: bu_idle_def bu_busy_def bu_finish_def)
  have "bu_hist (bu_finish up s) = bu_hist (end_request up s)" "rq_work (bu_finish up s) = rq_work (end_request up s)"
    by (rule bu_hist_fields; simp add: bu_finish_def)+
  then show "bu_keeps s (bu_finish up s)" "rq_work (bu_finish up s) < rq_work s"
    using q end_request_work [OF q] by (simp_all add: bu_keeps_def) (simp add: bu_finish_def)
qed

lemma bu_pick_total:
  assumes "bu_idle s"
  shows "\<exists>go s'. bu_pick s = Some (go, s') \<and> bu_keeps s s' \<and> rq_work s' \<le> rq_work s \<and> \<not> bu_timer_on s' \<and>
    (if go then bu_busy s' else bu_idle s' \<and> rq_queue s' = [])"
  using assms
proof (induction "rq_work s" arbitrary: s rule: less_induct)
  case less
  show ?case
  proof (cases "rq_queue s")
    case Nil
    then show ?thesis
      using less.prems by (intro exI [of _ False] exI [of _ s], subst bu_pick.simps) (simp add: bu_idle_def)
  next
    case (Cons req rest)
    define s1 where "s1 = s\<lparr>bu_start := push_bit 2 (rq_sector req), bu_len := push_bit 2 (rq_current_nr_sectors req)\<rparr>"
    have s1: "rq_queue s1 = req # rest" "rq_done s1 = rq_done s" "bu_idle s1" "bu_retry_armed s1 = bu_retry_armed s"
      using Cons less.prems by (simp_all add: s1_def bu_idle_def)
    have keep1: "bu_keeps s s1" "rq_work s1 = rq_work s"
      using bu_hist_fields [of s1 s] s1 Cons by (simp_all add: bu_keeps_def)
    have rec: ?thesis if "bu_pick s = bu_pick (end_request False t)" "bu_keeps s t" "rq_work t = rq_work s" "bu_idle t" "rq_queue t \<noteq> []" for t
    proof -
      have i: "bu_idle (end_request False t)" "bu_keeps s (end_request False t)"
        using that by (simp_all add: bu_idle_def bu_keeps_def)
      have w: "rq_work (end_request False t) < rq_work s"
        using end_request_work [OF that(5)] that(3) by simp
      show ?thesis
        using less.hyps [OF w i(1)] that(1) w bu_keeps_trans [OF i(2)] by fastforce
    qed
    show ?thesis
    proof (cases "rq_minor req > 0 \<or> bu_start s1 + bu_len s1 > bu_total s1 \<or> rq_cmd req = READA")
      case True
      then consider "rq_minor req > 0" | "\<not> rq_minor req > 0" "bu_start s1 + bu_len s1 > bu_total s1 \<or> rq_cmd req = READA"
        by blast
      then show ?thesis
      proof cases
        case 1
        then show ?thesis
          using Cons less.prems by (intro rec [of s]; simp) (subst bu_pick.simps, simp)
      next
        case 2
        then show ?thesis
          using Cons s1 keep1 by (intro rec [of s1]; simp) (subst bu_pick.simps, auto simp: s1_def Let_def)
      qed
    next
      case False
      define s2 where "s2 = s1\<lparr>bu_curr := (bu_curr s1)\<lparr>bx_mode := (if rq_cmd req = READ then MODE_R else MODE_W)\<rparr>,
                                 bu_lock := True, bu_current := 0, bu_rq_step := 0, bu_try := 0\<rparr>"
      have "bu_pick s = Some (True, s2)"
        using False Cons by (subst bu_pick.simps) (simp add: Let_def s2_def s1_def)
      moreover have "bu_keeps s s2" "rq_work s2 = rq_work s"
        using bu_hist_fields [of s2 s] s1 Cons by (simp_all add: bu_keeps_def s2_def)
      moreover have "bu_busy s2" "\<not> bu_timer_on s2"
        using s1 by (auto simp: bu_busy_def s2_def bu_idle_def)
      ultimately show ?thesis
        by auto
    qed
  qed
qed


definition bu_kept :: "'a bud_scheme \<Rightarrow> 'a bud_scheme \<Rightarrow> bool" where
  "bu_kept s s' \<longleftrightarrow> rq_queue s' = rq_queue s \<and> rq_done s' = rq_done s \<and> bu_retry_armed s' = bu_retry_armed s"

lemma bu_kept_keeps: "bu_kept s s' \<Longrightarrow> bu_keeps s s'" "bu_kept s s' \<Longrightarrow> rq_work s' = rq_work s"
  by (simp_all add: bu_kept_def bu_keeps_def bu_hist_def pending_def rq_work_def)

definition bu_outcome :: "'a bud_scheme \<Rightarrow> bool \<Rightarrow> 'a bud_scheme \<Rightarrow> bool" where
  "bu_outcome s ended s' \<longleftrightarrow> bu_keeps s s' \<and>
    (if ended then bu_idle s' \<and> rq_work s' < rq_work s else bu_running s' \<and> rq_work s' = rq_work s)"

lemma bu_finish_outcome: "bu_busy t \<Longrightarrow> \<not> bu_timer_on t \<Longrightarrow> bu_kept s t \<Longrightarrow> bu_outcome s True (bu_finish up t)"
  using bu_finish_idle [of t up] bu_kept_keeps [of s t] bu_keeps_trans by (auto simp: bu_outcome_def)

lemma bu_launch_total:
  assumes "bu_busy s" "\<not> bu_timer_on s" "bu_rq_step s < bu_len s"
  shows "\<exists>ended s'. bu_launch j b s = Some (ended, s') \<and> bu_outcome s ended s'"
proof -
  define bu1 where "bu1 = (bu_curr s)\<lparr>bx_block := b, bx_card := j, bx_floor := 0\<rparr>"
  have b1: "bx_mode bu1 = MODE_R \<or> bx_mode bu1 = MODE_W" "length (bx_buffer bu1) = BU_BLK_SIZE"
    using assms(1) by (simp_all add: bu1_def bu_busy_def)
  obtain bu2 where bu2: "bu_sw_init bu1 = Some bu2" "bu_wf bu2" "\<not> bx_stop bu2" "bx_state bu2 \<in> bu_simple" "bx_mode bu2 = bx_mode bu1"
      "bx_buffer bu2 = bx_buffer bu1"
    by (rule bu_sw_init_wf [OF b1])
  define t where "t = s\<lparr>bu_curr := bu1, bu_state := BU_NONE\<rparr>"
  obtain st bu3 t2 where r: "bu_rd_routine bu2 (bu_hw_init t) = Some (st, bu3, t2)" "st = 0 \<or> st = - 1"
    and ok: "st = 0 \<Longrightarrow> bu_wf bu3 \<and> \<not> bx_stop bu3"
    using bu_rd_routine_wf [OF bu2(2,3), of "bu_hw_init t"] bu2(4) by metis
  note fl = emits_bud [OF emits_trans [OF bu_hw_init_emits bu_rd_routine_tame(1) [OF r(1)]]]
  have b3: "length (bx_buffer bu3) = BU_BLK_SIZE" "bx_mode bu3 = MODE_R \<or> bx_mode bu3 = MODE_W"
    using bu_rd_routine_tame(2,3) [OF r(1)] bu2(5,6) b1 by simp_all
  have res: "bu_launch j b s = (if st < 0 then Some (True, bu_finish False (t2\<lparr>bu_curr := bu3\<rparr>))
      else Some (False, t2\<lparr>bu_curr := bu3, bu_timer_on := True\<rparr>))"
    using bu2(1) r(1) by (simp add: bu_launch_def Let_def bu1_def [symmetric] t_def)
  have busy: "bu_busy (t2\<lparr>bu_curr := bu3\<rparr>)" "\<not> bu_timer_on t2" "bu_kept s (t2\<lparr>bu_curr := bu3\<rparr>)"
      "bu_kept s (t2\<lparr>bu_curr := bu3, bu_timer_on := True\<rparr>)"
    using fl b3 assms by (simp_all add: bu_busy_def t_def bu_kept_def)
  show ?thesis
  proof (cases "st = 0")
    case True
    have "bu_running (t2\<lparr>bu_curr := bu3, bu_timer_on := True\<rparr>)"
      using True ok busy(1) fl assms(3) by (simp add: bu_running_def bu_busy_def t_def)
    then show ?thesis
      using True res bu_kept_keeps [OF busy(4)]
      by (intro exI [of _ False] exI [of _ "t2\<lparr>bu_curr := bu3, bu_timer_on := True\<rparr>"]) (simp add: bu_outcome_def)
  next
    case False
    then have "bu_launch j b s = Some (True, bu_finish False (t2\<lparr>bu_curr := bu3\<rparr>))"
      using r(2) res by simp
    moreover have "bu_outcome s True (bu_finish False (t2\<lparr>bu_curr := bu3\<rparr>))"
      by (rule bu_finish_outcome [OF busy(1) _ busy(3)]) (simp add: busy(2))
    ultimately show ?thesis
      by blast
  qed
qed

lemma bu_attempt_total:
  assumes "bu_busy s" "\<not> bu_timer_on s"
  shows "\<exists>ended s'. bu_attempt s = Some (ended, s') \<and> bu_outcome s ended s'"
proof -
  obtain req rest where q: "rq_queue s = req # rest"
    using assms(1) by (cases "rq_queue s") (auto simp: bu_busy_def)
  show ?thesis
  proof (cases "bu_rq_step s < bu_len s \<and> bu_try s < N_CHECKS")
    case False
    have "bu_outcome s True (bu_finish up s)" for up
      by (rule bu_finish_outcome [OF assms]) (simp add: bu_kept_def)
    then show ?thesis
      using False by (auto simp: bu_attempt_def)
  next
    case True
    define t where "t = bu_fill req (s\<lparr>bu_try := Suc (bu_try s)\<rparr>)"
    have t: "bu_busy t" "\<not> bu_timer_on t" "bu_kept s t" "bu_rq_step t < bu_len t"
      using assms True by (auto simp: t_def bu_fill_def bu_busy_def bu_kept_def)
    have res: "bu_attempt s = (case bu_map_block (bu_devices t) 0 (ucast (bu_start t + bu_rq_step t)) of
                      None \<Rightarrow> Some (True, bu_finish False t) | Some (j, b) \<Rightarrow> bu_launch j b t)"
      using True q unfolding t_def by (simp add: bu_attempt_def Let_def)
    have "bu_outcome s e u" if "bu_outcome t e u" for e u
      using that bu_kept_keeps [OF t(3)] bu_keeps_trans by (auto simp: bu_outcome_def)
    then show ?thesis
      using res bu_finish_outcome [OF t(1,2,3)] bu_launch_total [OF t(1,2,4)]
      by (fastforce split: option.split prod.split)
  qed
qed

lemma do_bu_request_idle:
  assumes "bu_idle s"
  shows "\<exists>s'. do_bu_request False s = Some s' \<and> bu_keeps s s' \<and> rq_work s' \<le> rq_work s \<and>
    (bu_running s' \<or> bu_idle s' \<and> rq_queue s' = [])"
  using assms
proof (induction "rq_work s" arbitrary: s rule: less_induct)
  case less
  obtain go s1 where p: "bu_pick s = Some (go, s1)" "bu_keeps s s1" "rq_work s1 \<le> rq_work s" "\<not> bu_timer_on s1"
      "if go then bu_busy s1 else bu_idle s1 \<and> rq_queue s1 = []"
    using bu_pick_total [OF less.prems] by blast
  have nl: "\<not> bu_lock s"
    using less.prems by (simp add: bu_idle_def)
  show ?case
  proof (cases go)
    case False
    then show ?thesis
      using p nl by (intro exI [of _ s1], subst do_bu_request.simps) simp
  next
    case True
    then have busy: "bu_busy s1"
      using p(5) by simp
    obtain ended s2 where a: "bu_attempt s1 = Some (ended, s2)" "bu_keeps s1 s2"
        "if ended then bu_idle s2 \<and> rq_work s2 < rq_work s1 else bu_running s2 \<and> rq_work s2 = rq_work s1"
      using bu_attempt_total [OF busy p(4)] unfolding bu_outcome_def by blast
    have eq: "do_bu_request False s = (if \<not> ended then Some s2 else if rq_queue s2 \<noteq> [] then do_bu_request False s2 else Some s2)"
      using nl p(1) a(1) True by (subst do_bu_request.simps) simp
    have k: "bu_keeps s s2"
      using bu_keeps_trans p(2) a(2) by blast
    show ?thesis
    proof (cases "ended \<and> rq_queue s2 \<noteq> []")
      case True
      then have "rq_work s2 < rq_work s" "bu_idle s2"
        using a(3) p(3) by simp_all
      then show ?thesis
        using less.hyps [of s2] eq True k bu_keeps_trans by (metis (no_types) less_imp_le order_trans)
    next
      case False
      then show ?thesis
        using eq a(3) p(3) k by (intro exI [of _ s2]) (auto split: if_splits)
    qed
  qed
qed

lemma bu_launch_try: "bu_launch j b s = Some (False, s') \<Longrightarrow> bu_try s' = bu_try s"
  by (auto simp: bu_launch_def Let_def split: option.splits if_splits
      dest!: bu_rd_routine_tame(1) emits_bud(13) [OF emits_trans [OF bu_hw_init_emits]])

lemma bu_attempt_try: "bu_attempt s = Some (False, s') \<Longrightarrow> bu_try s' = bu_try s + 1"
  by (auto simp: bu_attempt_def Let_def bu_fill_def split: option.splits if_splits list.splits dest!: bu_launch_try)

text \<open>Continuing a request restarts its block, with one more try, or ends it.\<close>

lemma do_bu_request_busy:
  assumes "bu_busy s" "\<not> bu_timer_on s"
  shows "\<exists>s'. do_bu_request True s = Some s' \<and> bu_keeps s s' \<and>
    (bu_running s' \<and> rq_work s' = rq_work s \<and> bu_try s' = bu_try s + 1 \<or>
     rq_work s' < rq_work s \<and> (bu_running s' \<or> bu_idle s' \<and> rq_queue s' = []))"
proof -
  obtain ended s2 where a: "bu_attempt s = Some (ended, s2)" "bu_keeps s s2"
      "if ended then bu_idle s2 \<and> rq_work s2 < rq_work s else bu_running s2 \<and> rq_work s2 = rq_work s"
    using bu_attempt_total [OF assms] unfolding bu_outcome_def by blast
  have eq: "do_bu_request True s = (if \<not> ended then Some s2 else if rq_queue s2 \<noteq> [] then do_bu_request False s2 else Some s2)"
    using a(1) by (subst do_bu_request.simps) simp
  consider "\<not> ended" | "ended" "rq_queue s2 = []" | "ended" "rq_queue s2 \<noteq> []"
    by blast
  then show ?thesis
  proof cases
    case 1
    then show ?thesis
      using eq a bu_attempt_try by simp
  next
    case 2
    then show ?thesis
      using eq a by simp
  next
    case 3
    then obtain s' where "do_bu_request False s2 = Some s'" "bu_keeps s2 s'" "rq_work s' \<le> rq_work s2"
        "bu_running s' \<or> bu_idle s' \<and> rq_queue s' = []"
      using do_bu_request_idle [of s2] a(3) by auto
    then show ?thesis
      using 3 eq a(2,3) bu_keeps_trans [OF a(2)] by (intro exI [of _ s']) simp
  qed
qed

section \<open>The polled read returns\<close>

text \<open>What probing a slot may change: the bus, the device table and the wait state.\<close>

definition bu_probes :: "'a bud_scheme \<Rightarrow> 'a bud_scheme \<Rightarrow> bool" where
  "bu_probes s s' \<longleftrightarrow> rq_queue s' = rq_queue s \<and> rq_done s' = rq_done s \<and> bu_curr s' = bu_curr s \<and>
     bu_retry_armed s' = bu_retry_armed s \<and> bu_lock s' = bu_lock s \<and> bu_current s' = bu_current s \<and>
     bu_open s' = bu_open s \<and> bu_probing s' = bu_probing s \<and> bu_total s' = bu_total s \<and> bu_sizes s' = bu_sizes s \<and>
     bu_serials s' = bu_serials s \<and> bu_seen s' = bu_seen s \<and> length (bu_devices s') = length (bu_devices s) \<and>
     (\<not> bu_timer_on s \<longrightarrow> \<not> bu_timer_on s')"

lemma bu_probes_refl [simp]: "bu_probes s s"
  by (simp add: bu_probes_def)

lemma bu_probes_trans [trans]: "bu_probes s s' \<Longrightarrow> bu_probes s' s'' \<Longrightarrow> bu_probes s s''"
  by (simp add: bu_probes_def)

lemma emits_probes: "emits P s s' \<Longrightarrow> bu_probes s s'"
  by (simp add: bu_probes_def emits_bud)

lemma bu_ready_probes: "bu_probes s (snd (bu_ready s))" "bu_devices (snd (bu_ready s)) = bu_devices s"
    "hw_trace (snd (bu_ready s)) = hw_trace s"
  by (simp_all add: bu_ready_def bu_probes_def)

lemma bu_pos_le: "bu_wf bu \<Longrightarrow> bu_pos bu \<le> 141"
  by (auto simp: bu_wf_def bu_pos_def split: if_splits)

lemma bu_check_loop_total:
  assumes "bu_wf bu" "\<not> bx_stop bu"
  shows "\<exists>ok bu' s'. bu_check_loop bu s = Some (ok, bu', s') \<and> bu_probes s s' \<and> bu_devices s' = bu_devices s \<and>
    length (bx_buffer bu') = length (bx_buffer bu) \<and> bx_mode bu' = bx_mode bu"
  using assms
proof (induction "141 - bu_pos bu" arbitrary: bu s rule: less_induct)
  case less
  define r where "r = (if bx_state bu mod 16 \<noteq> 0 then bu_ready s else (True, s))"
  have r: "bu_probes s (snd r)" "bu_devices (snd r) = bu_devices s"
    by (simp_all add: r_def bu_ready_probes)
  show ?case
  proof (cases "fst r")
    case False
    then have "bu_check_loop bu s = Some (False, bu, snd r)"
      by (subst bu_check_loop.simps) (simp add: r_def split_beta)
    then show ?thesis
      using r by blast
  next
    case True
    obtain st bu1 s1 where rt: "bu_rd_routine bu (snd r) = Some (st, bu1, s1)" "st = 0 \<or> st = - 1"
      and wf: "st = 0 \<Longrightarrow> bu_wf bu1 \<and> bu_pos bu < bu_pos bu1"
      using bu_rd_routine_wf [OF less.prems, of "snd r"] by metis
    have eq: "bu_check_loop bu s = (if st < 0 then Some (False, bu1, s1) else if bx_stop bu1 then Some (True, bu1, s1) else bu_check_loop bu1 s1)"
      using True rt(1) by (subst bu_check_loop.simps, unfold r_def [symmetric]) (simp add: split_beta)
    note tame = bu_rd_routine_tame [OF rt(1)]
    have p1: "bu_probes s s1" "bu_devices s1 = bu_devices s"
      using bu_probes_trans [OF r(1) emits_probes [OF tame(1)]] emits_bud(4) [OF tame(1)] r(2) by simp_all
    show ?thesis
    proof (cases "st < 0 \<or> bx_stop bu1")
      case True
      then have "bu_check_loop bu s = Some (\<not> st < 0, bu1, s1)"
        using eq by auto
      then show ?thesis
        using p1 tame(2,3) by blast
    next
      case False
      then have st: "st = 0" "\<not> bx_stop bu1"
        using rt(2) by auto
      then have "141 - bu_pos bu1 < 141 - bu_pos bu"
        using wf bu_pos_le [of bu1] by linarith
      from less.hyps [OF this conjunct1 [OF wf [OF st(1)]] st(2), of s1]
      obtain ok bu' s' where "bu_check_loop bu1 s1 = Some (ok, bu', s')" "bu_probes s1 s'" "bu_devices s' = bu_devices s1"
          "length (bx_buffer bu') = length (bx_buffer bu1)" "bx_mode bu' = bx_mode bu1"
        by blast
      then show ?thesis
        using eq False p1(2) tame(2,3) bu_probes_trans [OF p1(1)] by (intro exI [of _ ok] exI [of _ bu'] exI [of _ s']) simp
    qed
  qed
qed

lemma bu_check_total:
  assumes "length (bx_buffer bu) = BU_BLK_SIZE" "bx_mode bu = MODE_R \<or> bx_mode bu = MODE_W"
  shows "\<exists>ok bu' s'. bu_check n bu s = Some (ok, bu', s') \<and> bu_probes s s' \<and> bu_devices s' = bu_devices s"
  using assms
proof (induction n bu s rule: bu_check.induct)
  case (1 n bu s)
  show ?case
  proof (cases "n \<ge> N_CHECKS")
    case True
    then show ?thesis
      by (intro exI [of _ False] exI [of _ bu] exI [of _ "delay 100 (out16 BU_CONTROL 0 s)"], subst bu_check.simps)
         (simp add: out16_def delay_def bu_probes_def emit_def)
  next
    case False
    obtain bu1 where b1: "bu_sw_init bu = Some bu1" "bu_wf bu1" "\<not> bx_stop bu1" "bx_mode bu1 = bx_mode bu" "bx_buffer bu1 = bx_buffer bu"
      using bu_sw_init_wf [OF 1(3,2)] by metis
    obtain ok bu2 s2 where l: "bu_check_loop bu1 (bu_hw_init s) = Some (ok, bu2, s2)" "bu_probes (bu_hw_init s) s2"
        "bu_devices s2 = bu_devices (bu_hw_init s)" "length (bx_buffer bu2) = length (bx_buffer bu1)" "bx_mode bu2 = bx_mode bu1"
      using bu_check_loop_total [OF b1(2,3), of "bu_hw_init s"] by blast
    have p: "bu_probes s s2" "bu_devices s2 = bu_devices s"
      using bu_probes_trans [OF emits_probes [OF bu_hw_init_emits] l(2)] l(3) emits_bud(4) [OF bu_hw_init_emits, of s] by simp_all
    show ?thesis
    proof (cases ok)
      case True
      then have "bu_check n bu s = Some (True, bu2, delay 100 (out16 BU_CONTROL 0 s2))"
        using False b1(1) l(1) by (subst bu_check.simps) simp
      moreover have "bu_probes s2 (delay 100 (out16 BU_CONTROL 0 s2))" "bu_devices (delay 100 (out16 BU_CONTROL 0 s2)) = bu_devices s2"
        by (simp_all add: out16_def delay_def bu_probes_def emit_def)
      ultimately show ?thesis
        using p bu_probes_trans by metis
    next
      case nok: False
      then have eq: "bu_check n bu s = bu_check (n + 1) bu2 s2"
        using False b1(1) l(1) by (subst bu_check.simps) simp
      have "\<exists>ok bu' s'. bu_check (n + 1) bu2 s2 = Some (ok, bu', s') \<and> bu_probes s2 s' \<and> bu_devices s' = bu_devices s2"
        using 1(1) [OF False b1(1) l(1) refl refl nok] 1(2,3) l(4,5) b1(4,5) by simp
      then show ?thesis
        using eq p bu_probes_trans by metis
    qed
  qed
qed

lemma bu_read_first_block_total:
  "\<exists>ok s'. bu_read_first_block i s = Some (ok, s') \<and> bu_probes s s'"
proof -
  obtain ok bu s1 where c: "bu_check 0 (bu_first_request i) s = Some (ok, bu, s1)" "bu_probes s s1"
    using bu_check_total [of "bu_first_request i" 0 s] by (auto simp: bu_first_request_def)
  then show ?thesis
    by (auto simp: bu_read_first_block_def bu_probes_def)
qed

text \<open>What a sweep may change: besides the probing, the sizes and the serials.\<close>

definition bu_sweeps :: "'a bud_scheme \<Rightarrow> 'a bud_scheme \<Rightarrow> bool" where
  "bu_sweeps s s' \<longleftrightarrow> rq_queue s' = rq_queue s \<and> rq_done s' = rq_done s \<and> bu_curr s' = bu_curr s \<and>
     bu_retry_armed s' = bu_retry_armed s \<and> (\<not> bu_timer_on s \<longrightarrow> \<not> bu_timer_on s') \<and>
     length (bu_devices s') = length (bu_devices s) \<and> length (bu_sizes s') = length (bu_sizes s)"

lemma bu_sweeps_trans: "bu_sweeps s s' \<Longrightarrow> bu_sweeps s' s'' \<Longrightarrow> bu_sweeps s s''"
  by (simp add: bu_sweeps_def)

lemma bu_probes_sweeps: "bu_probes s s' \<Longrightarrow> bu_sweeps s s'"
  by (simp add: bu_probes_def bu_sweeps_def)

lemma bu_judge_sweeps: "bu_sweeps s (snd (snd (bu_judge i seen kb s)))"
  by (simp add: bu_judge_def Let_def bu_serial_seen_def bu_join_def bu_sweeps_def split: prod.split)

lemma bu_sweep_total: "\<exists>kb' s'. bu_sweep is seen kb s = Some (kb', s') \<and> bu_sweeps s s'"
proof (induction "is" arbitrary: seen kb s)
  case Nil
  then show ?case
    by (simp add: bu_sweeps_def)
next
  case (Cons i "is")
  obtain ok s1 where r: "bu_read_first_block i (delay 5000 s) = Some (ok, s1)" "bu_probes (delay 5000 s) s1"
    using bu_read_first_block_total by blast
  have d: "bu_probes s (delay 5000 s)"
    by (simp add: delay_def emits_probes [of "\<lambda>_. True"])
  have p: "bu_sweeps s s1"
    by (rule bu_probes_sweeps [OF bu_probes_trans [OF d r(2)]])
  have p': "bu_sweeps s (s1\<lparr>bu_sizes := (bu_sizes s1)[i := 0]\<rparr>)"
    using p by (simp add: bu_sweeps_def)
  have p'': "bu_sweeps s (snd (snd (bu_judge i seen kb s1)))"
    by (rule bu_sweeps_trans [OF p bu_judge_sweeps])
  obtain seen' kb' t where t: "bu_sweep (i # is) seen kb s = bu_sweep is seen' kb' t" "bu_sweeps s t"
  proof (cases ok)
    case True
    then have "bu_sweep (i # is) seen kb s = bu_sweep is (fst (bu_judge i seen kb s1)) (fst (snd (bu_judge i seen kb s1))) (snd (snd (bu_judge i seen kb s1)))"
      using r(1) by (simp add: split_beta)
    then show ?thesis
      using p'' that by blast
  next
    case False
    then have "bu_sweep (i # is) seen kb s = bu_sweep is seen kb (s1\<lparr>bu_sizes := (bu_sizes s1)[i := 0]\<rparr>)"
      using r(1) by simp
    then show ?thesis
      using p' that by blast
  qed
  obtain kb'' s' where "bu_sweep is seen' kb' t = Some (kb'', s')" "bu_sweeps t s'"
    using Cons.IH by blast
  then show ?case
    using t(1) bu_sweeps_trans [OF t(2)] by simp
qed

section \<open>Events\<close>

text \<open>
  Everything that can call into the driver once it is initialised, one event at a
  time (the handlers run with interrupts off): the block layer queues a request,
  and runs the request function if the queue was empty or is unplugged; the
  controller interrupt; the transfer timer and the retry timer expire; the
  keyboard takes and returns the bus; the device is opened. An open that finds the
  bus taken gets no release within its ten sleeps. \<open>d_kbd\<close> says that the keyboard
  holds the bus.
\<close>

datatype drv_ev = EvSubmit request bool | EvIrq | EvTimer | EvRetry | EvKbdLock | EvKbdUnlock | EvOpen

record 'a drv =
  d_kbd :: bool
  d_bu :: 'a

definition drv_call :: "('s \<Rightarrow> 's option) \<Rightarrow> 's drv \<Rightarrow> 's drv option" where
  "drv_call f d = map_option (\<lambda>s. d\<lparr>d_bu := s\<rparr>) (f (d_bu d))"

definition drv_submit :: "request \<Rightarrow> bool \<Rightarrow> 'a bud_scheme \<Rightarrow> 'a bud_scheme option" where
  "drv_submit r unplug s =
    (let s' = s\<lparr>rq_queue := rq_queue s @ [r]\<rparr> in
     if rq_queue s = [] \<or> unplug then do_bu_request False s' else Some s')"

definition drv_event :: "drv_ev \<Rightarrow> 'a bud_scheme drv \<Rightarrow> 'a bud_scheme drv option" where
  "drv_event e d =
    (case e of
       EvSubmit r unplug \<Rightarrow> drv_call (drv_submit r unplug) d
     | EvIrq \<Rightarrow> drv_call bu_interrupt d
     | EvTimer \<Rightarrow> drv_call (\<lambda>s. if bu_timer_on s then bu_timeout (s\<lparr>bu_timer_on := False\<rparr>) else Some s) d
     | EvRetry \<Rightarrow> drv_call (\<lambda>s. if bu_retry_armed s then bu_retry s else Some s) d
     | EvKbdLock \<Rightarrow> if d_kbd d then Some d
                    else (case psx_sio0_trylock (d_bu d) of (got, s) \<Rightarrow> Some (d\<lparr>d_kbd := got, d_bu := s\<rparr>))
     | EvKbdUnlock \<Rightarrow> if d_kbd d then Some (d\<lparr>d_kbd := False, d_bu := psx_sio0_unlock (d_bu d)\<rparr>) else Some d
     | EvOpen \<Rightarrow> drv_call (\<lambda>s. map_option snd (bu_do_open (\<lambda>_. False) 0 s)) d)"

definition drv_step :: "drv_ev \<Rightarrow> 'a bud_scheme drv option \<Rightarrow> 'a bud_scheme drv option" where
  "drv_step e d = Option.bind d (drv_event e)"

text \<open>The buffers a sequence of events submits.\<close>

fun ev_buffers :: "drv_ev \<Rightarrow> buffer_head list" where
  "ev_buffers (EvSubmit r _) = rq_bh r"
| "ev_buffers _ = []"

text \<open>The driver after \<^verbatim>\<open>bu_init\<close>: two slots, nothing queued, nobody on the bus.\<close>

definition drv_init :: "'a bud_scheme drv \<Rightarrow> bool" where
  "drv_init d \<longleftrightarrow> \<not> d_kbd d \<and> bu_idle (d_bu d) \<and> rq_queue (d_bu d) = [] \<and> rq_done (d_bu d) = []"

definition bu_rest :: "bool \<Rightarrow> 'a bud_scheme \<Rightarrow> bool" where
  "bu_rest kbd s \<longleftrightarrow> \<not> bu_probing s \<and> \<not> bu_open s \<and> bu_lock s = kbd \<and> bu_current s < 0 \<and> \<not> bu_timer_on s \<and>
     length (bx_buffer (bu_curr s)) = BU_BLK_SIZE"

definition bu_ok :: "bool \<Rightarrow> 'a bud_scheme \<Rightarrow> bool" where
  "bu_ok kbd s \<longleftrightarrow> bu_running s \<and> \<not> kbd \<or> bu_rest kbd s \<and> (rq_queue s \<noteq> [] \<longrightarrow> bu_retry_armed s)"

lemma bu_idle_rest: "bu_idle s \<longleftrightarrow> bu_rest False s"
  by (simp add: bu_idle_def bu_rest_def)

lemma do_bu_request_ok:
  assumes "bu_running s \<and> \<not> kbd \<or> bu_rest kbd s"
  shows "\<exists>s'. do_bu_request False s = Some s' \<and> bu_keeps s s' \<and> bu_ok kbd s' \<and> (bu_lock s \<longrightarrow> hw_trace s' = hw_trace s)"
proof (cases "bu_lock s")
  case True
  then have "do_bu_request False s = Some (bu_defer s)"
    by (subst do_bu_request.simps) simp
  then show ?thesis
    using assms True
    by (auto simp: bu_defer_def bu_arm_retry_def bu_keeps_def bu_hist_def pending_def bu_ok_def bu_running_def bu_busy_def bu_rest_def)
next
  case False
  then have "bu_idle s" "\<not> kbd"
    using assms by (auto simp: bu_running_def bu_busy_def bu_rest_def bu_idle_def)
  then show ?thesis
    using do_bu_request_idle [of s] False by (auto simp: bu_ok_def bu_idle_rest)
qed

lemma do_bu_request_cont:
  assumes "bu_busy s" "\<not> bu_timer_on s"
  shows "\<exists>s'. do_bu_request True s = Some s' \<and> bu_keeps s s' \<and> bu_ok False s'"
  using do_bu_request_busy [OF assms] by (auto simp: bu_ok_def bu_idle_rest)

text \<open>A call keeps the invariant, the buffers' order, and off the bus while the keyboard has it.\<close>

definition bu_safe :: "bool \<Rightarrow> 'a bud_scheme \<Rightarrow> 'a bud_scheme option \<Rightarrow> bool" where
  "bu_safe kbd s r \<longleftrightarrow> (\<exists>s'. r = Some s' \<and> bu_ok kbd s' \<and> bu_hist s' = bu_hist s \<and> (kbd \<longrightarrow> hw_trace s' = hw_trace s))"

lemma bu_ok_cases:
  assumes "bu_ok kbd s"
  obtains (running) "bu_running s" "\<not> kbd" | (rest) "bu_rest kbd s" "rq_queue s \<noteq> [] \<longrightarrow> bu_retry_armed s"
  using assms by (auto simp: bu_ok_def)

lemma bu_safe_call:
  assumes "do_bu_request False t = r" "bu_running t \<and> \<not> kbd \<or> bu_rest kbd t" "bu_hist t = bu_hist s" "hw_trace t = hw_trace s"
  shows "bu_safe kbd s r"
  using do_bu_request_ok [OF assms(2)] assms by (auto simp: bu_safe_def bu_keeps_def bu_rest_def)

lemma bu_safe_cont:
  assumes "bu_busy t" "\<not> bu_timer_on t" "bu_hist t = bu_hist s" "\<not> kbd"
  shows "bu_safe kbd s (do_bu_request True t)"
  using do_bu_request_cont [OF assms(1,2)] assms(3,4) by (auto simp: bu_safe_def bu_keeps_def)

lemma bu_safe_same: "bu_ok kbd s \<Longrightarrow> bu_safe kbd s (Some s)"
  by (simp add: bu_safe_def)

lemma bu_safe_retry: "bu_ok kbd s \<Longrightarrow> bu_safe kbd s (bu_retry s)"
  unfolding bu_retry_def
  by (rule bu_safe_call [OF refl]) (auto simp: bu_ok_def bu_running_def bu_busy_def bu_rest_def bu_hist_def pending_def)

lemma bu_safe_timeout:
  assumes "bu_ok kbd s" "bu_timer_on s"
  shows "bu_safe kbd s (bu_timeout (s\<lparr>bu_timer_on := False\<rparr>))"
proof -
  have r: "bu_running s" "\<not> kbd"
    using assms by (auto simp: bu_ok_def bu_rest_def)
  then have "bu_timeout (s\<lparr>bu_timer_on := False\<rparr>) = do_bu_request True (s\<lparr>bu_state := BU_TIMEOUT, bu_timer_on := False\<rparr>)"
    by (simp add: bu_timeout_def bu_running_def bu_busy_def)
  moreover have "bu_safe kbd s (do_bu_request True (s\<lparr>bu_state := BU_TIMEOUT, bu_timer_on := False\<rparr>))"
    using r by (intro bu_safe_cont) (simp_all add: bu_running_def bu_busy_def bu_hist_def pending_def)
  ultimately show ?thesis
    by simp
qed

lemma bu_copy_back_some:
  assumes "rq_queue s \<noteq> []"
  obtains m where "bu_copy_back s = Some (s\<lparr>bu_mem := m\<rparr>)"
proof (cases "rq_queue s")
  case (Cons r rest)
  then have "bu_copy_back s = Some (if rq_cmd r = READ
      then s\<lparr>bu_mem := \<lambda>a. if unat (a - (rq_buffer r + push_bit 7 (bu_rq_step s))) < 128
         then bx_buffer (bu_curr s) ! unat (a - (rq_buffer r + push_bit 7 (bu_rq_step s))) else bu_mem s a\<rparr> else s\<lparr>bu_mem := bu_mem s\<rparr>)"
    by (simp add: bu_copy_back_def Let_def)
  then show ?thesis
    using that [of "bu_mem s"] that by (cases "rq_cmd r = READ") auto
qed (use assms in simp)

lemma bu_safe_interrupt:
  assumes "bu_ok kbd s"
  shows "bu_safe kbd s (bu_interrupt s)"
  using assms
proof (cases rule: bu_ok_cases)
  case rest
  then have "bu_interrupt s = Some s"
    by (simp add: bu_interrupt_def bu_rest_def)
  then show ?thesis
    using assms by (simp add: bu_safe_same)
next
  case running
  then have wf: "bu_wf (bu_curr s)" "\<not> bx_stop (bu_curr s)"
    by (simp_all add: bu_running_def)
  obtain st bu s1 where r: "bu_rd_routine (bu_curr s) s = Some (st, bu, s1)" "st = 0 \<or> st = - 1" and ok: "st = 0 \<Longrightarrow> bu_wf bu"
    using bu_rd_routine_wf [OF wf, of s] by metis
  note tame = bu_rd_routine_tame [OF r(1)]
  note fl = emits_bud [OF tame(1)]
  define t where "t = s1\<lparr>bu_curr := bu, bu_timer_on := False\<rparr>"
  have t: "bu_busy t" "\<not> bu_timer_on t" "bu_hist t = bu_hist s"
    using running fl tame(2,3) by (simp_all add: t_def bu_running_def bu_busy_def bu_hist_def pending_def)
  have eq: "bu_interrupt s = (if st < 0 then do_bu_request True t
      else if bx_stop bu then do { u \<leftarrow> bu_copy_back t; do_bu_request True (u\<lparr>bu_rq_step := bu_rq_step u + 1, bu_try := 0\<rparr>) }
      else Some (s1\<lparr>bu_curr := bu, bu_timer_on := True\<rparr>))"
    using running r(1) by (simp add: bu_interrupt_def bu_running_def bu_busy_def Let_def t_def)
  consider "st < 0" | "st = 0" "bx_stop bu" | "st = 0" "\<not> bx_stop bu"
    using r(2) by linarith
  then show ?thesis
  proof cases
    case 1
    then show ?thesis
      using eq bu_safe_cont [OF t] running by simp
  next
    case 2
    obtain m where "bu_copy_back t = Some (t\<lparr>bu_mem := m\<rparr>)"
      by (rule bu_copy_back_some [of t]) (use t in \<open>auto simp: bu_busy_def\<close>)
    then have "bu_interrupt s = do_bu_request True (t\<lparr>bu_mem := m, bu_rq_step := bu_rq_step t + 1, bu_try := 0\<rparr>)"
      using eq 2 by simp
    moreover have "bu_safe kbd s (do_bu_request True (t\<lparr>bu_mem := m, bu_rq_step := bu_rq_step t + 1, bu_try := 0\<rparr>))"
      using t running by (intro bu_safe_cont) (simp_all add: bu_busy_def bu_hist_def pending_def)
    ultimately show ?thesis
      by simp
  next
    case 3
    have "bu_ok kbd (s1\<lparr>bu_curr := bu, bu_timer_on := True\<rparr>)" "bu_hist (s1\<lparr>bu_curr := bu, bu_timer_on := True\<rparr>) = bu_hist s"
      using 3 ok running fl tame(2,3) by (simp_all add: bu_ok_def bu_running_def bu_busy_def bu_hist_def pending_def)
    then show ?thesis
      using 3 eq running by (simp add: bu_safe_def)
  qed
qed

lemma bu_catch_free: "\<not> bu_lock s \<Longrightarrow> 0 < n \<Longrightarrow> bu_catch f 0 n s = (True, s\<lparr>bu_lock := True\<rparr>)"
  by (subst bu_catch.simps) simp

lemma bu_catch_taken: "bu_lock s \<Longrightarrow> bu_catch (\<lambda>_. False) i n s = (False, s)"
proof (induction "n - i" arbitrary: i)
  case 0
  then show ?case by (subst bu_catch.simps) simp
next
  case (Suc k)
  then show ?case by (subst bu_catch.simps) simp
qed

lemma bu_revalidate_safe:
  assumes "bu_ok kbd s"
  shows "\<exists>e s'. bu_revalidate (\<lambda>_. False) c s = Some (e, s') \<and> bu_ok kbd s' \<and> bu_hist s' = bu_hist s \<and>
    (kbd \<longrightarrow> hw_trace s' = hw_trace s)"
proof (cases "bu_lock s")
  case True
  then have "bu_revalidate (\<lambda>_. False) c s = Some (Some BU_EBUSY, s\<lparr>bu_serials := []\<rparr>)"
    by (simp add: bu_revalidate_def bu_catch_taken Let_def)
  then show ?thesis
    using assms by (auto simp: bu_ok_def bu_running_def bu_busy_def bu_rest_def bu_hist_def pending_def)
next
  case False
  then have rest: "bu_rest False s" "rq_queue s \<noteq> [] \<longrightarrow> bu_retry_armed s" "\<not> kbd"
    using assms by (auto simp: bu_ok_def bu_running_def bu_busy_def bu_rest_def)
  let ?t = "s\<lparr>bu_serials := [], bu_lock := True, bu_current := int c, bu_state := BU_NONE, bu_open := True, bu_total := 0, bu_probing := True\<rparr>"
  obtain kb s1 where sw: "bu_sweep [0, 1] [False, False] 0 ?t = Some (kb, s1)" "bu_sweeps ?t s1"
    using bu_sweep_total by blast
  let ?u = "s1\<lparr>bu_sizes := (bu_sizes s1)[0 := kb], bu_current := - 1, bu_open := False, bu_lock := False, bu_probing := False\<rparr>"
  have "bu_revalidate (\<lambda>_. False) c s = Some (if kb = 0 then Some BU_ENODEV else None, ?u)"
    using sw(1) False by (simp add: bu_revalidate_def bu_catch_free Let_def del: bu_sweep.simps)
  moreover have "bu_ok kbd ?u" "bu_hist ?u = bu_hist s"
    using sw(2) rest by (simp_all add: bu_sweeps_def bu_ok_def bu_rest_def bu_hist_def pending_def)
  ultimately show ?thesis
    using rest(3) by blast
qed

lemma bu_ok_devices: "bu_ok kbd s \<Longrightarrow> bu_ok kbd (s\<lparr>bu_devices := ds, bu_use := n\<rparr>)"
  by (auto simp: bu_ok_def bu_running_def bu_busy_def bu_rest_def)

lemma bu_safe_open:
  assumes "bu_ok kbd s"
  shows "bu_safe kbd s (map_option snd (bu_do_open (\<lambda>_. False) 0 s))"
proof -
  obtain e s1 where r: "bu_revalidate (\<lambda>_. False) 0 s = Some (e, s1)" "bu_ok kbd s1" "bu_hist s1 = bu_hist s" "kbd \<longrightarrow> hw_trace s1 = hw_trace s"
    using bu_revalidate_safe [OF assms] by blast
  have h: "bu_hist (t\<lparr>bu_devices := ds, bu_use := n\<rparr>) = bu_hist t" for t :: "'a bud_scheme" and ds n
    by (simp add: bu_hist_def pending_def)
  show ?thesis
    using r assms bu_ok_devices [OF r(2)] bu_ok_devices [OF assms] by (simp add: bu_do_open_def bu_check_change_def bu_safe_def h)
qed


lemma bu_safe_submit:
  assumes "bu_ok kbd s"
  shows "\<exists>s'. drv_submit r unplug s = Some s' \<and> bu_ok kbd s' \<and> bu_hist s' = bu_hist s @ rq_bh r \<and> (kbd \<longrightarrow> hw_trace s' = hw_trace s)"
proof -
  let ?t = "s\<lparr>rq_queue := rq_queue s @ [r]\<rparr>"
  have h: "bu_hist ?t = bu_hist s @ rq_bh r"
    by (simp add: bu_hist_def pending_def)
  have t: "bu_running ?t \<and> \<not> kbd \<or> bu_rest kbd ?t"
    using assms by (auto simp: bu_ok_def bu_running_def bu_busy_def bu_rest_def)
  show ?thesis
  proof (cases "rq_queue s = [] \<or> unplug")
    case True
    then have "drv_submit r unplug s = do_bu_request False ?t"
      by (auto simp: drv_submit_def)
    moreover have "kbd \<longrightarrow> bu_lock s"
      using assms by (auto simp: bu_ok_def bu_rest_def)
    ultimately show ?thesis
      using do_bu_request_ok [OF t] h by (auto simp: bu_keeps_def)
  next
    case False
    then have "drv_submit r unplug s = Some ?t"
      by (simp add: drv_submit_def)
    moreover have "bu_ok kbd ?t"
      using False assms by (auto simp: bu_ok_def bu_running_def bu_busy_def bu_rest_def)
    ultimately show ?thesis
      using h by simp
  qed
qed

definition drv_inv :: "'a bud_scheme drv option \<Rightarrow> bool" where
  "drv_inv d \<longleftrightarrow> (case d of None \<Rightarrow> False | Some d \<Rightarrow> bu_ok (d_kbd d) (d_bu d))"

lemma drv_event_ok:
  assumes "bu_ok (d_kbd d) (d_bu d)"
  shows "\<exists>d'. drv_event e d = Some d' \<and> bu_ok (d_kbd d') (d_bu d') \<and> bu_hist (d_bu d') = bu_hist (d_bu d) @ ev_buffers e \<and>
    (d_kbd d \<longrightarrow> hw_trace (d_bu d') = hw_trace (d_bu d))"
proof -
  have call: "\<exists>d'. drv_call f d = Some d' \<and> bu_ok (d_kbd d') (d_bu d') \<and> bu_hist (d_bu d') = bu_hist (d_bu d) @ [] \<and>
      (d_kbd d \<longrightarrow> hw_trace (d_bu d') = hw_trace (d_bu d))" if "bu_safe (d_kbd d) (d_bu d) (f (d_bu d))" for f
    using that by (auto simp: drv_call_def bu_safe_def)
  have lock: "bu_ok True (snd (psx_sio0_trylock (d_bu d)))" "bu_hist (snd (psx_sio0_trylock (d_bu d))) = bu_hist (d_bu d)"
    if "fst (psx_sio0_trylock (d_bu d))" "\<not> d_kbd d"
    using that assms by (auto simp: psx_sio0_trylock_def bu_ok_def bu_running_def bu_busy_def bu_rest_def bu_hist_def pending_def split: if_splits)
  have nolock: "snd (psx_sio0_trylock (d_bu d)) = d_bu d" if "\<not> fst (psx_sio0_trylock (d_bu d))"
    using that by (auto simp: psx_sio0_trylock_def)
  have unlock: "bu_ok False (psx_sio0_unlock (d_bu d))" "bu_hist (psx_sio0_unlock (d_bu d)) = bu_hist (d_bu d)" "hw_trace (psx_sio0_unlock (d_bu d)) = hw_trace (d_bu d)"
    if "d_kbd d"
    using that assms by (auto simp: psx_sio0_unlock_def bu_ok_def bu_rest_def bu_hist_def pending_def)
  show ?thesis
  proof (cases e)
    case (EvSubmit r u)
    then show ?thesis
      using bu_safe_submit [OF assms, of r u] by (auto simp: drv_event_def drv_call_def)
  next
    case EvIrq
    then show ?thesis
      using call [of bu_interrupt] bu_safe_interrupt [OF assms] by (simp add: drv_event_def)
  next
    case EvTimer
    then show ?thesis
      using call [of "\<lambda>s. if bu_timer_on s then bu_timeout (s\<lparr>bu_timer_on := False\<rparr>) else Some s"]
        bu_safe_timeout [OF assms] bu_safe_same [OF assms] by (simp add: drv_event_def)
  next
    case EvRetry
    then show ?thesis
      using call [of "\<lambda>s. if bu_retry_armed s then bu_retry s else Some s"] bu_safe_retry [OF assms] bu_safe_same [OF assms]
      by (simp add: drv_event_def)
  next
    case EvOpen
    then show ?thesis
      using call [of "\<lambda>s. map_option snd (bu_do_open (\<lambda>_. False) 0 s)"] bu_safe_open [OF assms] by (simp add: drv_event_def)
  next
    case EvKbdLock
    then show ?thesis
      using lock nolock assms by (cases "fst (psx_sio0_trylock (d_bu d))") (auto simp: drv_event_def split_beta)
  next
    case EvKbdUnlock
    then show ?thesis
      using unlock assms by (auto simp: drv_event_def)
  qed
qed

lemma drv_inv_step: "drv_inv d \<Longrightarrow> drv_inv (drv_step e d)"
proof (cases d)
  case (Some d0)
  assume "drv_inv d"
  then have "bu_ok (d_kbd d0) (d_bu d0)"
    using Some by (simp add: drv_inv_def)
  from drv_event_ok [OF this, of e] show ?thesis
    using Some by (auto simp: drv_inv_def drv_step_def)
qed (simp add: drv_inv_def)

lemma drv_inv_init: "(case d of None \<Rightarrow> False | Some d0 \<Rightarrow> drv_init d0) \<Longrightarrow> drv_inv d"
  by (auto simp: drv_init_def drv_inv_def bu_ok_def bu_idle_rest split: option.splits)

interpretation budrv: step_system "\<lambda>d. case d of None \<Rightarrow> False | Some d0 \<Rightarrow> drv_init d0" drv_step drv_inv
  by unfold_locales (erule drv_inv_init, erule drv_inv_step)

lemma drv_reachable_ok:
  assumes "drv_init d" "fold drv_step es (Some d) = Some d'"
  shows "bu_ok (d_kbd d') (d_bu d')"
  using budrv.reachable_inv [of "Some d" es] assms by (simp add: drv_inv_def)

lemma drv_run:
  assumes "bu_ok (d_kbd d) (d_bu d)"
  shows "\<exists>d'. fold drv_step es (Some d) = Some d' \<and> bu_ok (d_kbd d') (d_bu d') \<and>
    bu_hist (d_bu d') = bu_hist (d_bu d) @ concat (map ev_buffers es)"
  using assms
proof (induction es arbitrary: d)
  case (Cons e es)
  obtain d1 where "drv_event e d = Some d1" "bu_ok (d_kbd d1) (d_bu d1)" "bu_hist (d_bu d1) = bu_hist (d_bu d) @ ev_buffers e"
    using drv_event_ok [OF Cons.prems] by blast
  then show ?case
    using Cons.IH [of d1] by (simp add: drv_step_def)
qed simp


lemma drv_timer_step:
  assumes "bu_running s"
  shows "\<exists>s'. bu_timeout (s\<lparr>bu_timer_on := False\<rparr>) = Some s' \<and>
    (rq_queue s' = [] \<or> bu_running s' \<and> 11 * rq_work s' - bu_try s' < 11 * rq_work s - bu_try s)"
proof -
  let ?t = "s\<lparr>bu_state := BU_TIMEOUT, bu_timer_on := False\<rparr>"
  have t: "bu_busy ?t" "\<not> bu_timer_on ?t"
    using assms by (simp_all add: bu_running_def bu_busy_def)
  have eq: "bu_timeout (s\<lparr>bu_timer_on := False\<rparr>) = do_bu_request True ?t"
    using assms by (simp add: bu_timeout_def bu_running_def bu_busy_def)
  have w: "rq_work ?t = rq_work s" "bu_try ?t = bu_try s"
    by (simp_all add: rq_work_def)
  have pos: "0 < rq_work s" "bu_try s \<le> 10"
    using assms by (auto simp: bu_running_def bu_busy_def rq_work_def neq_Nil_conv)
  obtain s' where s': "do_bu_request True ?t = Some s'"
      "bu_running s' \<and> rq_work s' = rq_work s \<and> bu_try s' = bu_try s + 1 \<or>
       rq_work s' < rq_work s \<and> (bu_running s' \<or> bu_idle s' \<and> rq_queue s' = [])"
    using do_bu_request_busy [OF t] w by auto
  then show ?thesis
    using eq pos by (intro exI [of _ s']) auto
qed

lemma drv_timers_drain:
  assumes "bu_running (d_bu d)"
  shows "\<exists>n d'. n \<le> 11 * rq_work (d_bu d) - bu_try (d_bu d) \<and> fold drv_step (replicate n EvTimer) (Some d) = Some d' \<and>
    rq_queue (d_bu d') = []"
  using assms
proof (induction "11 * rq_work (d_bu d) - bu_try (d_bu d)" arbitrary: d rule: less_induct)
  case less
  obtain s' where s': "bu_timeout ((d_bu d)\<lparr>bu_timer_on := False\<rparr>) = Some s'"
      "rq_queue s' = [] \<or> bu_running s' \<and> 11 * rq_work s' - bu_try s' < 11 * rq_work (d_bu d) - bu_try (d_bu d)"
    using drv_timer_step [OF less.prems] by blast
  have step: "drv_step EvTimer (Some d) = Some (d\<lparr>d_bu := s'\<rparr>)"
    using s'(1) less.prems by (simp add: drv_step_def drv_event_def drv_call_def bu_running_def)
  have pos: "0 < 11 * rq_work (d_bu d) - bu_try (d_bu d)"
    using less.prems by (auto simp: bu_running_def bu_busy_def rq_work_def neq_Nil_conv)
  show ?case
  proof (cases "rq_queue s' = []")
    case True
    then show ?thesis
      using step pos by (intro exI [of _ 1] exI [of _ "d\<lparr>d_bu := s'\<rparr>"]) simp
  next
    case False
    then obtain n d' where "n \<le> 11 * rq_work s' - bu_try s'" "fold drv_step (replicate n EvTimer) (Some (d\<lparr>d_bu := s'\<rparr>)) = Some d'"
        "rq_queue (d_bu d') = []" "11 * rq_work s' - bu_try s' < 11 * rq_work (d_bu d) - bu_try (d_bu d)"
      using less.hyps [of "d\<lparr>d_bu := s'\<rparr>"] s'(2) by auto
    then show ?thesis
      using step by (intro exI [of _ "Suc n"] exI [of _ d']) simp
  qed
qed

section \<open>The lock as the keyboard driver sees it\<close>

interpretation sio0: bus_arbiter psx_sio0_trylock psx_sio0_unlock "\<lambda>s. bu_lock s \<or> bu_probing s" "emits (\<lambda>_. True)"
  by unfold_locales (auto simp: psx_sio0_trylock_def psx_sio0_unlock_def emits_bud)

section \<open>Properties of the driver\<close>

definition bu_boot :: bud where
  "bu_boot = \<lparr>hw_env = (\<lambda>_ _. 0), hw_trace = [], rq_queue = [], rq_done = [],
     bu_curr = \<lparr>bx_floor = 0, bx_block = 0, bx_card = 0, bx_buffer = replicate 128 0, bx_mode = MODE_R, bx_cs = 0, bx_cnt = 0,
                bx_state = 0, bx_stop = False, bx_hw_state = 0, bx_byte = 0\<rparr>,
     bu_devices = [\<lparr>fb_id = BU_ID, fb_size = 1024, fb_serial = 7, fb_number = 0, dv_usage = 0\<rparr>,
                   \<lparr>fb_id = BU_ID, fb_size = 1024, fb_serial = 8, fb_number = 1, dv_usage = 0\<rparr>],
     bu_sizes = [254, 127], bu_total = 2032, bu_current = - 1, bu_state = BU_NONE, bu_lock = False, bu_probing = False,
     bu_open = False, bu_rq_step = 0, bu_try = 0, bu_start = 0, bu_len = 0, bu_retry_armed = False, bu_timer_on = False,
     bu_defers = 0, bu_kbd_grabs = 0, bu_serials = [7, 8], bu_seen = [True, True], bu_use = 0, bu_ack = (\<lambda>_. False), bu_mem = (\<lambda>_. 0)\<rparr>"

definition bu_boot_rq :: request where
  "bu_boot_rq = \<lparr>rq_cmd = READ, rq_minor = 0, rq_sector = 4, rq_hard_sector = 4, rq_nr_sectors = 2, rq_hard_nr_sectors = 2,
     rq_current_nr_sectors = 2, rq_buffer = 0x80100000, rq_bh = [\<lparr>b_size = 1024, b_data = 0x80100000\<rparr>]\<rparr>"

lemma drv_init_boot: "drv_init \<lparr>d_kbd = False, d_bu = bu_boot\<rparr>"
  by (simp add: drv_init_def bu_boot_def bu_idle_def)






lemma bu_boot_runs:
  "\<exists>d'. fold drv_step [EvSubmit bu_boot_rq False] (Some \<lparr>d_kbd = False, d_bu = bu_boot\<rparr>) = Some d' \<and> 0 \<le> bu_current (d_bu d')"
proof -
  let ?s = "bu_boot\<lparr>rq_queue := [bu_boot_rq]\<rparr>"
  define s2 where "s2 = ?s\<lparr>bu_start := 16, bu_len := 8, bu_curr := (bu_curr ?s)\<lparr>bx_mode := MODE_R\<rparr>,
    bu_lock := True, bu_current := 0, bu_rq_step := 0, bu_try := 0\<rparr>"
  have pick: "bu_pick ?s = Some (True, s2)"
    by (subst bu_pick.simps) (simp add: bu_boot_def bu_boot_rq_def s2_def)
  have att: "\<exists>s'. bu_attempt s2 = Some (False, s') \<and> 0 \<le> bu_current s'"
    by (simp add: s2_def bu_attempt_def bu_boot_def bu_boot_rq_def bu_fill_def bu_launch_def bu_sw_init_def bu_rd_routine_def
        bu_rd_states_def bu_rd_state0_def bu_swap_def bu_select_def bu_hw_init_def bus_defs emit_def)
  then obtain s' where "bu_attempt s2 = Some (False, s')" "0 \<le> bu_current s'"
    by blast
  then have "do_bu_request False ?s = Some s'" "0 \<le> bu_current s'"
    using pick by (subst do_bu_request.simps, simp_all) (simp add: bu_boot_def)
  then show ?thesis
    by (simp add: drv_step_def drv_event_def drv_call_def drv_submit_def bu_boot_def)
qed


section \<open>Joining the cards\<close>

text \<open>The data blocks a slot contributes.\<close>

definition fb_room :: "bu_dev \<Rightarrow> nat" where
  "fb_room d = (if fb_size d = 0 then 0 else unat (fb_size d) - 8)"


text \<open>The block \<open>b\<close> of slot \<open>j\<close> is data block number \<open>n\<close> of the joined device.\<close>

definition bu_located :: "bu_dev list \<Rightarrow> nat \<Rightarrow> nat \<times> u16 \<Rightarrow> bool" where
  "bu_located ds n jb \<longleftrightarrow> (case jb of (j, b) \<Rightarrow> j < length ds \<and> 8 \<le> unat b \<and> unat b < unat (fb_size (ds ! j)) \<and>
     n = sum_list (map fb_room (take j ds)) + (unat b - 8))"

lemma unat_of_nat_u16: "n < 65536 \<Longrightarrow> unat (of_nat n :: u16) = n"
  by (simp add: unat_of_nat take_bit_nat_eq_self)

lemma unat_ucast_u16_u32: "unat (ucast (x :: u16) :: u32) = unat x"
  using unsigned_less [of x, where ?'a = nat] by (simp add: unsigned_ucast_eq take_bit_nat_eq_self)

lemma bu_map_block_located:
  assumes "\<forall>d\<in>set ds. fb_size d = 0 \<or> 8 < fb_size d" "n + 8 < 65536" "n < sum_list (map fb_room ds)"
  shows "\<exists>k b. bu_map_block ds j (of_nat n) = Some (j + k, b) \<and> bu_located ds n (k, b)"
  using assms
proof (induction ds arbitrary: j n)
  case (Cons d ds)
  have b8: "unat (of_nat n + 8 :: u16) = n + 8"
    using unat_of_nat_u16 [of "n + 8"] Cons.prems(2) by simp
  have cmp: "(ucast (of_nat n + 8 :: u16) :: u32) < fb_size d \<longleftrightarrow> n + 8 < unat (fb_size d)"
    using b8 by (simp add: word_less_nat_alt unat_ucast_u16_u32)
  show ?case
  proof (cases "fb_size d = 0")
    case True
    then obtain k b where "bu_map_block ds (j + 1) (of_nat n) = Some (j + 1 + k, b)" "bu_located ds n (k, b)"
      using Cons.IH [of n "j + 1"] Cons.prems by (auto simp: fb_room_def)
    then show ?thesis
      using True by (intro exI [of _ "Suc k"] exI [of _ b]) (simp add: bu_located_def fb_room_def)
  next
    case big: False
    then have d8: "8 < unat (fb_size d)" "0 < fb_size d"
      using Cons.prems(1) by (auto simp: word_less_nat_alt word_gt_0)
    show ?thesis
    proof (cases "n + 8 < unat (fb_size d)")
      case True
      then show ?thesis
        using d8 cmp b8 by (intro exI [of _ 0] exI [of _ "of_nat n + 8"]) (simp add: bu_located_def Let_def)
    next
      case False
      define m where "m = n - fb_room d"
      have room: "fb_room d = unat (fb_size d) - 8"
        using big by (simp add: fb_room_def)
      have m: "n = fb_room d + m" "m + 8 < 65536" "m < sum_list (map fb_room ds)" "n + 8 = m + unat (fb_size d)"
        using False d8 Cons.prems(2,3) room by (auto simp: m_def)
      have "(of_nat n + 8 :: u16) = of_nat (n + 8)"
        by simp
      then have red: "(of_nat n + 8 :: u16) - ucast (fb_size d) = of_nat m"
        unfolding m(4) by simp
      obtain k b where "bu_map_block ds (j + 1) (of_nat m) = Some (j + 1 + k, b)" "bu_located ds m (k, b)"
        using Cons.IH [of m "j + 1"] Cons.prems(1) m(2,3) by auto
      moreover have "bu_map_block (d # ds) j (of_nat n) = bu_map_block ds (j + 1) (of_nat m)"
        using False d8 cmp red by (simp add: Let_def)
      ultimately show ?thesis
        using m(1) by (intro exI [of _ "Suc k"] exI [of _ b]) (auto simp: bu_located_def)
    qed
  qed
qed simp

lemma bu_located_inj: "bu_located ds n jb \<Longrightarrow> bu_located ds n' jb \<Longrightarrow> n = n'"
  by (auto simp: bu_located_def split: prod.splits)

text \<open>
  C30: Every block of the joined device has its own place on a card. If each slot
  is empty or holds a card of more than eight blocks, and the joined device stays
  below 65528 blocks (the block field is 16 bits wide), then each data block number
  below the sum of the cards' data areas is mapped to a block of one card inside
  that card and past its eight reserved blocks, at the offset left over after the
  slots before it; so two different numbers never share a place.
\<close>
theorem bu_map_block_correct:
  assumes "\<forall>d\<in>set ds. fb_size d = 0 \<or> 8 < fb_size d" "sum_list (map fb_room ds) < 65528"
  shows "(n < sum_list (map fb_room ds) \<longrightarrow> (\<exists>jb. bu_map_block ds 0 (of_nat n) = Some jb \<and> bu_located ds n jb)) \<and>
    (n < n' \<longrightarrow> n' < sum_list (map fb_room ds) \<longrightarrow> bu_map_block ds 0 (of_nat n) \<noteq> bu_map_block ds 0 (of_nat n'))"
proof -
  have at: "\<exists>jb. bu_map_block ds 0 (of_nat m) = Some jb \<and> bu_located ds m jb" if "m < sum_list (map fb_room ds)" for m
    using bu_map_block_located [OF assms(1), of m 0] assms(2) that by auto
  show ?thesis
    using at [of n] at [of n'] bu_located_inj by fastforce
qed

theorem bu_map_block_correct_witness:
  "\<exists>jb. bu_map_block (bu_devices bu_boot) 0 (of_nat 1500) = Some jb \<and> bu_located (bu_devices bu_boot) 1500 jb"
  using bu_map_block_correct [of "bu_devices bu_boot" 1500] by (simp add: bu_boot_def fb_room_def)

end
