(* ===== verification/Psxkbd.thy ===== *)
theory Psxkbd
  imports BuDrv
begin

text \<open>
  The keyboard driver, \<^verbatim>\<open>drivers/char/psxkbd.c\<close>: the polled byte exchange, the
  Lightspan frame, the Scan Code Set 2 decoder with its prefix state, and the
  timer function that scans the ports and shares SIO0 with the card driver through
  \<^verbatim>\<open>psx_sio0_trylock\<close>. The keys handed to \<^verbatim>\<open>handle_scancode\<close> are the list \<open>kb_out\<close>.
\<close>

abbreviation (input) JOY_DATA :: u32 where "JOY_DATA \<equiv> 0xbf801040"
abbreviation (input) JOY_STAT :: u32 where "JOY_STAT \<equiv> 0xbf801044"
abbreviation (input) JOY_MODE :: u32 where "JOY_MODE \<equiv> 0xbf801048"
abbreviation (input) JOY_CTRL :: u32 where "JOY_CTRL \<equiv> 0xbf80104a"
abbreviation (input) JOY_BAUD :: u32 where "JOY_BAUD \<equiv> 0xbf80104e"
abbreviation (input) KBD_FRAME_LEN :: nat where "KBD_FRAME_LEN \<equiv> 15"
abbreviation (input) KBD_ID :: u8 where "KBD_ID \<equiv> 0x96"
abbreviation (input) KBD_READY :: u8 where "KBD_READY \<equiv> 0x5a"
abbreviation (input) KBD_NO_DEV :: u8 where "KBD_NO_DEV \<equiv> 0xff"
abbreviation (input) KBD_QUIET_MAX :: nat where "KBD_QUIET_MAX \<equiv> 50"

text \<open>The driver's globals, beside the card driver's: the two share the bus lock.\<close>

record kbd = bud +
  kb_slot :: nat
  kb_addr :: u8
  kb_scan :: nat
  kb_quiet :: nat
  kb_present :: bool
  kb_announced :: bool
  kb_ext :: bool
  kb_brk :: bool
  kb_ticks :: nat  \<comment> \<open>delay the timer was last armed with\<close>
  kb_out :: "(u8 \<times> bool) list"

section \<open>Scan codes\<close>

definition psxkbd_set2 :: "(u8 \<times> u8) list" where
  "psxkbd_set2 =
    [(0x1c, 30),(0x32, 48),(0x21, 46),(0x23, 32),(0x24, 18),(0x2b, 33),
     (0x34, 34),(0x33, 35),(0x43, 23),(0x3b, 36),(0x42, 37),(0x4b, 38),
     (0x3a, 50),(0x31, 49),(0x44, 24),(0x4d, 25),(0x15, 16),(0x2d, 19),
     (0x1b, 31),(0x2c, 20),(0x3c, 22),(0x2a, 47),(0x1d, 17),(0x22, 45),
     (0x35, 21),(0x1a, 44),
     (0x45, 11),(0x16,  2),(0x1e,  3),(0x26,  4),(0x25,  5),(0x2e,  6),
     (0x36,  7),(0x3d,  8),(0x3e,  9),(0x46, 10),
     (0x0e, 41),(0x4e, 12),(0x55, 13),(0x5d, 43),(0x54, 26),(0x5b, 27),
     (0x4c, 39),(0x52, 40),(0x41, 51),(0x49, 52),(0x4a, 53),
     (0x66, 14),(0x0d, 15),(0x5a, 28),(0x29, 57),(0x76,  1),(0x58, 58),
     (0x12, 42),(0x59, 54),(0x14, 29),(0x11, 56),
     (0x05, 59),(0x06, 60),(0x04, 61),(0x0c, 62),(0x03, 63),(0x0b, 64),
     (0x83, 65),(0x0a, 66),(0x01, 67),(0x09, 68),(0x78, 87),(0x07, 88),
     (0x7e, 70),(0x77, 69),
     (0x7c, 55),(0x7b, 74),(0x79, 78),(0x71, 83),(0x70, 82),(0x69, 79),
     (0x72, 80),(0x7a, 81),(0x6b, 75),(0x73, 76),(0x74, 77),(0x6c, 71),
     (0x75, 72),(0x7d, 73),
     (0x00, 0)]"

definition psxkbd_set2_e0 :: "(u8 \<times> u8) list" where
  "psxkbd_set2_e0 =
    [(0x14,  97),(0x11, 100),(0x1f, 125),(0x27, 126),(0x2f, 127),(0x70, 110),(0x71, 111),(0x6c, 102),
     (0x69, 107),(0x7d, 104),(0x7a, 109),(0x75, 103),(0x72, 108),(0x6b, 105),(0x74, 106),(0x4a,  98),
     (0x5a,  96),(0x00, 0)]"

text \<open>The search stops at the entry whose keycode is zero.\<close>

fun keycode_in :: "(u8 \<times> u8) list \<Rightarrow> u8 \<Rightarrow> u8" where
  "keycode_in [] code = 0"
| "keycode_in ((c, k) # t) code = (if k = 0 then 0 else if c = code then k else keycode_in t code)"

definition psxkbd_keycode :: "u8 \<Rightarrow> bool \<Rightarrow> u8" where
  "psxkbd_keycode code ext = keycode_in (if ext then psxkbd_set2_e0 else psxkbd_set2) code"

section \<open>The bus\<close>

fun kbd_wait :: "nat \<Rightarrow> u32 \<Rightarrow> 'a hw_scheme \<Rightarrow> bool \<times> 'a hw_scheme" where
  "kbd_wait spins bits s =
    (let (v, s) = in32 JOY_STAT s in
     if v AND bits \<noteq> 0 then (True, s)
     else if spins = 0 then (False, s)
     else kbd_wait (spins - 1) bits s)"

fun kbd_wait_ack :: "nat \<Rightarrow> 'a hw_scheme \<Rightarrow> 'a hw_scheme" where
  "kbd_wait_ack spins s =
    (if spins = 0 then s
     else let (v, s) = in32 JOY_STAT s in if v AND 0x80 \<noteq> 0 then s else kbd_wait_ack (spins - 1) s)"

text \<open>\<open>None\<close> is the timeout result -1. The limits are one more than \<^verbatim>\<open>KBD_TX_SPINS\<close> and \<^verbatim>\<open>KBD_RX_SPINS\<close>.\<close>

definition psxkbd_xfer :: "u8 \<Rightarrow> bool \<Rightarrow> 'a hw_scheme \<Rightarrow> u8 option \<times> 'a hw_scheme" where
  "psxkbd_xfer out want_ack s =
    (let (ok, s) = kbd_wait 4001 0x1 s in
     if \<not> ok then (None, s)
     else let s = out8 JOY_DATA out s;
              (ok, s) = kbd_wait 4001 0x2 s in
          if \<not> ok then (None, s)
          else let (rx, s) = in8 JOY_DATA s;
                   s = (if want_ack then kbd_wait_ack 2000 s else s)
               in (Some rx, s))"

definition kbd_tx :: "u8 \<Rightarrow> u8 list" where
  "kbd_tx addr = [addr, 0x42, 0x00, 0x00, 0x00, 0x00, 0x00, 0x00, 0x00, 0x00, 0x00, 0x00, 0x00, 0x00, 0x06]"

text \<open>
  How many bytes the frame is to have once \<open>rx\<close> has been received: \<open>nn\<close> follows the
  id and ready bytes.
\<close>

definition kbd_want :: "nat \<Rightarrow> u8 list \<Rightarrow> nat" where
  "kbd_want want rx =
    (let i = length rx - 1 in
     if want = KBD_FRAME_LEN \<and> i \<ge> 2 \<and> rx ! (i - 2) = KBD_ID \<and> rx ! (i - 1) = KBD_READY \<and> rx ! i \<noteq> KBD_NO_DEV
     then min KBD_FRAME_LEN (i + 1 + unat (rx ! i))
     else want)"

lemma kbd_want_le: "kbd_want want rx \<le> want"
  by (simp add: kbd_want_def Let_def)

text \<open>The byte loop; \<open>i\<close> is the number of bytes in \<open>rx\<close>.\<close>

function kbd_frame_loop :: "u8 \<Rightarrow> nat \<Rightarrow> u8 list \<Rightarrow> 'a hw_scheme \<Rightarrow> u8 list \<times> 'a hw_scheme" where
  "kbd_frame_loop addr want rx s =
    (if length rx < want
     then case psxkbd_xfer (kbd_tx addr ! length rx) (length rx < want - 1) s of
            (None, s) \<Rightarrow> (rx, s)
          | (Some got, s) \<Rightarrow> kbd_frame_loop addr (kbd_want want (rx @ [got])) (rx @ [got]) s
     else (rx, s))"
  by pat_completeness auto

termination
proof (relation "measure (\<lambda>(_, want, rx, _). want - length rx)", goal_cases)
  case (2 addr want rx s a s' got)
  then show ?case
    using kbd_want_le [of want "rx @ [got]"] by (simp add: diff_less_mono2 le_less_trans)
qed simp

declare kbd_wait.simps [simp del] kbd_wait_ack.simps [simp del] kbd_frame_loop.simps [simp del]

definition psxkbd_frame :: "'a kbd_scheme \<Rightarrow> u8 list \<times> 'a kbd_scheme" where
  "psxkbd_frame s =
    (let addr = kb_addr s;
         ctrl = 0x0003 OR (if kb_slot s \<noteq> 0 then 0x2000 else 0);
         s = out16 JOY_CTRL 0 s;
         s = out16 JOY_MODE 0x000d s;
         s = out16 JOY_BAUD 0x0088 s;
         s = out16 JOY_CTRL ctrl s;
         s = delay 100 s;
         (rx, s) = kbd_frame_loop addr KBD_FRAME_LEN [] s
     in (rx, out16 JOY_CTRL 0 s))"

section \<open>Decoding\<close>

text \<open>The position of the first id byte followed by the ready byte.\<close>

fun kbd_anchor :: "u8 list \<Rightarrow> nat option" where
  "kbd_anchor (a # b # rest) =
    (if a = KBD_ID \<and> b = KBD_READY then Some 0 else map_option Suc (kbd_anchor (b # rest)))"
| "kbd_anchor _ = None"

text \<open>One payload byte.\<close>

definition kbd_byte :: "u8 \<Rightarrow> 'a kbd_scheme \<Rightarrow> 'a kbd_scheme" where
  "kbd_byte code s =
    (if code = 0x00 \<or> code = 0xff then s
     else if code = 0xe0 then s\<lparr>kb_ext := True\<rparr>
     else if code = 0xf0 then s\<lparr>kb_brk := True\<rparr>
     else let keycode = psxkbd_keycode code (kb_ext s);
              s = (if keycode \<noteq> 0 then s\<lparr>kb_out := kb_out s @ [(keycode, \<not> kb_brk s)]\<rparr> else s)
          in s\<lparr>kb_ext := False, kb_brk := False\<rparr>)"

definition psxkbd_decode :: "u8 list \<Rightarrow> 'a kbd_scheme \<Rightarrow> bool \<times> 'a kbd_scheme" where
  "psxkbd_decode rx s =
    (case kbd_anchor rx of
       None \<Rightarrow> (False, s)
     | Some at \<Rightarrow>
         if at + 2 \<ge> length rx then (False, s)
         else if rx ! (at + 2) = KBD_NO_DEV then (True, s)
         else let num = min (unat (rx ! (at + 2))) (length rx - (at + 3))
              in (True, fold kbd_byte (take num (drop (at + 3) rx)) s))"

section \<open>The timer\<close>

definition kbd_next_port :: "'a kbd_scheme \<Rightarrow> 'a kbd_scheme" where
  "kbd_next_port s =
    (if \<not> kb_present s
     then s\<lparr>kb_slot := (kb_scan s div 4) mod 2, kb_addr := 0x01 + of_nat (kb_scan s mod 4), kb_scan := (kb_scan s + 1) mod 8\<rparr>
     else s)"

definition kbd_poll :: "'a kbd_scheme \<Rightarrow> bool \<times> 'a kbd_scheme" where
  "kbd_poll s =
    (case psx_sio0_trylock s of
       (True, s) \<Rightarrow>
         (let (rx, s) = psxkbd_frame s; s = psx_sio0_unlock s
          in if length rx > 0 then psxkbd_decode rx s else (False, s))
     | (False, s) \<Rightarrow> (kb_present s, s))"

definition kbd_presence :: "bool \<Rightarrow> 'a kbd_scheme \<Rightarrow> 'a kbd_scheme" where
  "kbd_presence alive s =
    (if alive
     then let s = s\<lparr>kb_quiet := 0\<rparr> in
          if \<not> kb_present s then s\<lparr>kb_present := True, kb_announced := True\<rparr> else s
     else if kb_quiet s < KBD_QUIET_MAX then s\<lparr>kb_quiet := kb_quiet s + 1\<rparr>
     else s\<lparr>kb_present := False, kb_ext := False, kb_brk := False\<rparr>)"

definition psxkbd_tick :: "'a kbd_scheme \<Rightarrow> 'a kbd_scheme" where
  "psxkbd_tick s =
    (let (alive, s) = kbd_poll (kbd_next_port s);
         s = kbd_presence alive s
     in s\<lparr>kb_ticks := (if kb_present s then 1 else 100)\<rparr>)"

section \<open>Hooks of the generic keyboard layer\<close>

definition kbd_translate :: "u8 \<Rightarrow> u8 \<times> int" where
  "kbd_translate scancode = (scancode, 1)"

definition kbd_setkeycode :: "u32 \<Rightarrow> u32 \<Rightarrow> int" where
  "kbd_setkeycode scancode keycode = - 22"

definition kbd_getkeycode :: "u32 \<Rightarrow> int" where
  "kbd_getkeycode scancode = - 22"

definition kbd_unexpected_up :: "u8 \<Rightarrow> u8" where
  "kbd_unexpected_up keycode = 0x80"

definition kbd_init_hw :: "'a kbd_scheme \<Rightarrow> 'a kbd_scheme" where
  "kbd_init_hw s = s\<lparr>kb_slot := 0, kb_addr := 0x01, kb_quiet := KBD_QUIET_MAX, kb_ticks := 100\<rparr>"

section \<open>What the bus sees of a frame\<close>

lemma kbd_wait_emits: "emits (\<lambda>e. \<not> wr_in UNIV e \<and> \<not> rd_in {JOY_DATA} e) s (snd (kbd_wait n b s))"
proof (induction n arbitrary: s)
  case 0
  show ?case
    by (subst kbd_wait.simps) (auto simp: bus_defs)
next
  case (Suc n)
  show ?case
    using emits_trans [OF _ Suc.IH, of s "snd (in32 JOY_STAT s)"]
    by (subst kbd_wait.simps) (auto simp: bus_defs)
qed

lemma kbd_wait_ack_emits: "emits (\<lambda>e. \<not> wr_in UNIV e \<and> \<not> rd_in {JOY_DATA} e) s (kbd_wait_ack n s)"
proof (induction n arbitrary: s)
  case 0
  show ?case
    by (subst kbd_wait_ack.simps) simp
next
  case (Suc n)
  show ?case
    using emits_trans [OF _ Suc.IH, of s "snd (in32 JOY_STAT s)"]
    by (subst kbd_wait_ack.simps) (auto simp: bus_defs)
qed

lemmas kbd_wait_frame [simp] =
  emits_writes [OF kbd_wait_emits wr_in_mono [OF conjunct1]] emits_reads [OF kbd_wait_emits conjunct2]
  emits_writes [OF kbd_wait_ack_emits wr_in_mono [OF conjunct1]] emits_reads [OF kbd_wait_ack_emits conjunct2]
  emits_more [OF kbd_wait_emits] emits_env [OF kbd_wait_emits] emits_more [OF kbd_wait_ack_emits] emits_env [OF kbd_wait_ack_emits]

text \<open>One exchange: a byte may be sent, and is sent if one is received; nothing else is written.\<close>

lemma psxkbd_xfer_bus:
  assumes "psxkbd_xfer out w s = (r, s')"
  obtains (none) "r = None" "writes JOY_DATA (hw_trace s') = writes JOY_DATA (hw_trace s)"
      "reads JOY_DATA (hw_trace s') = reads JOY_DATA (hw_trace s)"
  | (sent) "r = None" "writes JOY_DATA (hw_trace s') = writes JOY_DATA (hw_trace s) @ [ucast out]"
      "reads JOY_DATA (hw_trace s') = reads JOY_DATA (hw_trace s)"
  | (both) v where "r = Some v" "writes JOY_DATA (hw_trace s') = writes JOY_DATA (hw_trace s) @ [ucast out]"
      "reads JOY_DATA (hw_trace s') = reads JOY_DATA (hw_trace s) @ [ucast v]"
  using assms
  by (auto simp: psxkbd_xfer_def Let_def split_beta bus_defs split: if_splits)

interpretation kbdport: byte_port "\<lambda>b. psxkbd_xfer b w" "\<lambda>s. writes JOY_DATA (hw_trace s)" "\<lambda>s. reads JOY_DATA (hw_trace s)" for w
  by unfold_locales (erule psxkbd_xfer_bus, simp_all)+

lemma kbd_wait_any [simp]: "emits (\<lambda>_. True) s0 s \<Longrightarrow> emits (\<lambda>_. True) s0 (snd (kbd_wait n b s))"
    "emits (\<lambda>_. True) s0 s \<Longrightarrow> emits (\<lambda>_. True) s0 (kbd_wait_ack n s)"
  by (erule emits_trans, rule emits_mono, rule kbd_wait_emits kbd_wait_ack_emits, simp)+

lemma psxkbd_xfer_emits: "emits (\<lambda>_. True) s (snd (psxkbd_xfer out w s))"
  by (simp add: psxkbd_xfer_def Let_def split_beta bus_defs)

lemma kbd_frame_loop_emits: "emits (\<lambda>_. True) s (snd (kbd_frame_loop addr want rx s))"
proof (induction addr want rx s rule: kbd_frame_loop.induct)
  case (1 addr want rx s)
  show ?case
    using psxkbd_xfer_emits [of s "kbd_tx addr ! length rx" "length rx < want - 1"] 1
    by (subst kbd_frame_loop.simps) (auto split: prod.splits option.splits intro: emits_trans)
qed

text \<open>\<open>rx\<close> and the bytes sent so far, relative to the trace at the start of the frame.\<close>

definition kbd_log :: "u8 \<Rightarrow> bus_trace \<Rightarrow> u8 list \<Rightarrow> nat \<Rightarrow> bus_trace \<Rightarrow> bool" where
  "kbd_log addr t0 rx n t \<longleftrightarrow> reads JOY_DATA t = reads JOY_DATA t0 @ map ucast rx \<and>
     writes JOY_DATA t = writes JOY_DATA t0 @ map ucast (take n (kbd_tx addr)) \<and> n \<le> KBD_FRAME_LEN"

lemma length_kbd_tx [simp]: "length (kbd_tx addr) = KBD_FRAME_LEN"
  by (simp add: kbd_tx_def)

lemma kbd_frame_loop_log:
  assumes "kbd_log addr t0 rx (length rx) (hw_trace s)" "want \<le> KBD_FRAME_LEN" "kbd_frame_loop addr want rx s = (rx', s')"
  shows "\<exists>n. kbd_log addr t0 rx' n (hw_trace s') \<and> (n = length rx' \<or> n = Suc (length rx'))"
  using assms
proof (induction addr want rx s rule: kbd_frame_loop.induct)
  case (1 addr want rx s)
  show ?case
  proof (cases "length rx < want")
    case False
    then show ?thesis
      using 1 by (subst (asm) kbd_frame_loop.simps) auto
  next
    case True
    obtain r s1 where x: "psxkbd_xfer (kbd_tx addr ! length rx) (length rx < want - 1) s = (r, s1)"
      by (cases "psxkbd_xfer (kbd_tx addr ! length rx) (length rx < want - 1) s") auto
    have tk: "take (Suc (length rx)) (kbd_tx addr) = take (length rx) (kbd_tx addr) @ [kbd_tx addr ! length rx]"
      using True 1(3) by (intro take_Suc_conv_app_nth) simp
    from x show ?thesis
    proof (cases rule: psxkbd_xfer_bus)
      case none
      then show ?thesis
        using 1(2-4) True x by (subst (asm) kbd_frame_loop.simps) (auto simp: kbd_log_def)
    next
      case sent
      then show ?thesis
        using 1(2-4) True x tk by (subst (asm) kbd_frame_loop.simps) (auto simp: kbd_log_def intro!: exI [of _ "Suc (length rx)"])
    next
      case (both v)
      have "kbd_frame_loop addr (kbd_want want (rx @ [v])) (rx @ [v]) s1 = (rx', s')"
        using 1(4) True x both by (subst (asm) kbd_frame_loop.simps) simp
      moreover have "kbd_log addr t0 (rx @ [v]) (length (rx @ [v])) (hw_trace s1)"
        using 1(2,3) True tk both by (simp add: kbd_log_def)
      ultimately show ?thesis
        using 1(1) [OF True x [symmetric]] both kbd_want_le [of want "rx @ [v]"] 1(3) by simp
    qed
  qed
qed

section \<open>The decoder\<close>

text \<open>A key transition as the keyboard sends it: extended prefix, break prefix, code.\<close>

definition kbd_code :: "bool \<times> u8 \<times> bool \<Rightarrow> u8 list" where
  "kbd_code ev = (case ev of (ext, code, down) \<Rightarrow>
     (if ext then [0xe0] else []) @ (if down then [] else [0xf0]) @ [code])"

text \<open>The frame that carries \<open>chunk\<close>: a floating first byte, id, ready, count, payload.\<close>

definition kbd_frame_of :: "u8 \<Rightarrow> u8 list \<Rightarrow> u8 list" where
  "kbd_frame_of h chunk = [h, KBD_ID, KBD_READY, of_nat (length chunk)] @ chunk"

lemma keycode_none:
  "psxkbd_keycode 0 ext = 0" "psxkbd_keycode 0xff ext = 0" "psxkbd_keycode 0xe0 ext = 0" "psxkbd_keycode 0xf0 ext = 0"
  by (simp_all add: psxkbd_keycode_def psxkbd_set2_def psxkbd_set2_e0_def)

lemma keycode_special: "psxkbd_keycode code ext \<noteq> 0 \<Longrightarrow> code \<noteq> 0 \<and> code \<noteq> 0xff \<and> code \<noteq> 0xe0 \<and> code \<noteq> 0xf0"
  using keycode_none by blast

lemma kbd_byte_event:
  assumes "psxkbd_keycode code ext \<noteq> 0" "\<not> kb_ext s" "\<not> kb_brk s"
  shows "fold kbd_byte (kbd_code (ext, code, down)) s = s\<lparr>kb_out := kb_out s @ [(psxkbd_keycode code ext, down)], kb_ext := False, kb_brk := False\<rparr>"
  using keycode_special [OF assms(1)] assms
  by (cases ext; cases down) (simp_all add: kbd_code_def kbd_byte_def Let_def)

lemma kbd_bytes_events:
  assumes "\<forall>(ext, code, down)\<in>set evs. psxkbd_keycode code ext \<noteq> 0" "\<not> kb_ext s" "\<not> kb_brk s"
  shows "kb_out (fold kbd_byte (concat (map kbd_code evs)) s) = kb_out s @ map (\<lambda>(ext, code, down). (psxkbd_keycode code ext, down)) evs"
  using assms
proof (induction evs arbitrary: s)
  case (Cons ev evs)
  obtain ext code down where ev: "ev = (ext, code, down)"
    by (cases ev)
  have k: "psxkbd_keycode code ext \<noteq> 0"
    using Cons.prems(1) ev by simp
  show ?case
    using Cons.prems Cons.IH by (simp add: ev kbd_byte_event [OF k Cons.prems(2,3)])
qed simp

lemma psxkbd_decode_frame:
  assumes "length chunk \<le> 11"
  shows "psxkbd_decode (kbd_frame_of h chunk) s = (True, fold kbd_byte chunk s)"
proof -
  have n: "unat (of_nat (length chunk) :: u8) = length chunk"
    using assms by (simp add: unat_of_nat take_bit_nat_eq_self)
  have ne: "(of_nat (length chunk) :: u8) \<noteq> KBD_NO_DEV"
  proof
    assume "(of_nat (length chunk) :: u8) = KBD_NO_DEV"
    then show False
      using n assms by simp
  qed
  have "kbd_anchor (kbd_frame_of h chunk) = Some 1"
    by (simp add: kbd_frame_of_def)
  then show ?thesis
    using n ne by (simp add: psxkbd_decode_def kbd_frame_of_def)
qed

lemma psxkbd_decode_frames:
  assumes "\<forall>c\<in>set chunks. length c \<le> 11"
  shows "fold (\<lambda>c s. snd (psxkbd_decode (kbd_frame_of h c) s)) chunks s = fold kbd_byte (concat chunks) s"
  using assms by (induction chunks arbitrary: s) (simp_all add: psxkbd_decode_frame)

lemma fold_kbd_byte_bus: "hw_trace (fold kbd_byte bs s) = hw_trace s" "bu_lock (fold kbd_byte bs s) = bu_lock s"
    "bu_probing (fold kbd_byte bs s) = bu_probing s"
  by (induction bs arbitrary: s) (auto simp: kbd_byte_def Let_def)

lemma psxkbd_decode_bus: "hw_trace (snd (psxkbd_decode rx s)) = hw_trace s" "bu_lock (snd (psxkbd_decode rx s)) = bu_lock s"
    "bu_probing (snd (psxkbd_decode rx s)) = bu_probing s"
  by (simp_all add: psxkbd_decode_def Let_def fold_kbd_byte_bus split: option.split)

section \<open>Sharing SIO0\<close>

lemma psxkbd_frame_emits: "emits (\<lambda>_. True) s (snd (psxkbd_frame s))"
proof -
  let ?s = "delay 100 (out16 JOY_CTRL (0x0003 OR (if kb_slot s \<noteq> 0 then 0x2000 else 0))
    (out16 JOY_BAUD 0x0088 (out16 JOY_MODE 0x000d (out16 JOY_CTRL 0 s))))"
  have "emits (\<lambda>_. True) s ?s"
    by (simp add: bus_defs)
  from emits_trans [OF this kbd_frame_loop_emits [of ?s "kb_addr s" KBD_FRAME_LEN "[]"]] show ?thesis
    by (simp add: psxkbd_frame_def Let_def split_beta out16_def)
qed

lemma psxkbd_frame_deselects: "last (writes JOY_CTRL (hw_trace (snd (psxkbd_frame s)))) = 0"
  by (simp add: psxkbd_frame_def Let_def split_beta out16_def)

lemma kbd_poll_busy:
  assumes "bu_lock s \<or> bu_probing s"
  shows "kbd_poll s = (kb_present s, s)"
  unfolding kbd_poll_def by (rule sio0.turn_skipped [OF assms])

lemma kbd_poll_free:
  assumes "\<not> (bu_lock s \<or> bu_probing s)"
  shows "\<not> bu_lock (snd (kbd_poll s))" "\<not> bu_probing (snd (kbd_poll s))" "last (writes JOY_CTRL (hw_trace (snd (kbd_poll s)))) = 0"
proof -
  let ?s1 = "snd (psx_sio0_trylock s)"
  let ?s2 = "psx_sio0_unlock (snd (psxkbd_frame ?s1))"
  have eq: "kbd_poll s = (if length (fst (psxkbd_frame ?s1)) > 0 then psxkbd_decode (fst (psxkbd_frame ?s1)) ?s2 else (False, ?s2))"
    unfolding kbd_poll_def by (subst sio0.turn_taken [OF assms]) (simp add: Let_def split_beta)
  have "\<not> (bu_lock ?s2 \<or> bu_probing ?s2)"
    by (rule sio0.give_frees [OF assms psxkbd_frame_emits])
  moreover have "last (writes JOY_CTRL (hw_trace ?s2)) = 0"
    using psxkbd_frame_deselects by (simp add: psx_sio0_unlock_def)
  ultimately show "\<not> bu_lock (snd (kbd_poll s))" "\<not> bu_probing (snd (kbd_poll s))" "last (writes JOY_CTRL (hw_trace (snd (kbd_poll s)))) = 0"
    using eq by (simp_all add: psxkbd_decode_bus)
qed

lemma kbd_presence_bus [simp]: "hw_trace (kbd_presence a s) = hw_trace s" "bu_lock (kbd_presence a s) = bu_lock s"
    "bu_probing (kbd_presence a s) = bu_probing s" "kb_out (kbd_presence a s) = kb_out s"
  by (simp_all add: kbd_presence_def Let_def)

lemma kbd_next_port_bus [simp]: "hw_trace (kbd_next_port s) = hw_trace s" "bu_lock (kbd_next_port s) = bu_lock s"
    "bu_probing (kbd_next_port s) = bu_probing s" "kb_out (kbd_next_port s) = kb_out s"
  by (simp_all add: kbd_next_port_def)

section \<open>Properties of the keyboard driver\<close>

text \<open>
  One frame never exceeds its buffer and always ends with the port
  deselected, whatever the device does: at most fifteen bytes are received, the
  bytes received are the ones the device sent, the bytes sent are a prefix of the
  Lightspan request with the current address and at most one longer than what was
  received, and the last write to the control register is zero.
\<close>
theorem psxkbd_frame_bounds:
  "case psxkbd_frame s of (rx, s') \<Rightarrow> length rx \<le> KBD_FRAME_LEN \<and>
     reads JOY_DATA (hw_trace s') = reads JOY_DATA (hw_trace s) @ map ucast rx \<and>
     (\<exists>n. (n = length rx \<or> n = Suc (length rx)) \<and> n \<le> KBD_FRAME_LEN \<and>
        writes JOY_DATA (hw_trace s') = writes JOY_DATA (hw_trace s) @ map ucast (take n (kbd_tx (kb_addr s)))) \<and>
     last (writes JOY_CTRL (hw_trace s')) = 0"
proof -
  let ?s = "delay 100 (out16 JOY_CTRL (0x0003 OR (if kb_slot s \<noteq> 0 then 0x2000 else 0))
    (out16 JOY_BAUD 0x0088 (out16 JOY_MODE 0x000d (out16 JOY_CTRL 0 s))))"
  obtain rx s1 where l: "kbd_frame_loop (kb_addr s) KBD_FRAME_LEN [] ?s = (rx, s1)"
    by (cases "kbd_frame_loop (kb_addr s) KBD_FRAME_LEN [] ?s")
  have "kbd_log (kb_addr s) (hw_trace s) [] (length []) (hw_trace ?s)"
    by (simp add: kbd_log_def bus_defs)
  from kbd_frame_loop_log [OF this order_refl l] obtain n where n: "kbd_log (kb_addr s) (hw_trace s) rx n (hw_trace s1)"
      "n = length rx \<or> n = Suc (length rx)"
    by blast
  have "psxkbd_frame s = (rx, out16 JOY_CTRL 0 s1)"
    using l by (simp add: psxkbd_frame_def Let_def)
  then show ?thesis
    using n by (auto simp: kbd_log_def out16_def)
qed

text \<open>
  C34: Keys survive any framing. Take any sequence of key presses and releases of
  keys the driver knows, plain or extended, write it in Scan Code Set 2, cut the
  byte stream into frames of up to eleven bytes at arbitrary places - between a
  prefix and its code too - and decode the frames one after another: the console
  receives exactly those keys, in order, each with the right keycode and direction.
\<close>
theorem psxkbd_decode_roundtrip:
  assumes "\<forall>(ext, code, down)\<in>set evs. psxkbd_keycode code ext \<noteq> 0" "\<not> kb_ext s" "\<not> kb_brk s"
    "concat chunks = concat (map kbd_code evs)" "\<forall>c\<in>set chunks. length c \<le> 11"
  shows "kb_out (fold (\<lambda>c s. snd (psxkbd_decode (kbd_frame_of h c) s)) chunks s) =
    kb_out s @ map (\<lambda>(ext, code, down). (psxkbd_keycode code ext, down)) evs"
  using kbd_bytes_events [OF assms(1-3)] by (simp add: psxkbd_decode_frames [OF assms(5)] assms(4))

text \<open>
  C35: A poll respects the bus lock and gives it back. If the card driver holds
  SIO0 or is sweeping the cards, a tick does nothing on the bus and reports no
  key; otherwise it leaves the lock free and the port deselected. In both cases
  the lock is as it was before.
\<close>
theorem psxkbd_tick_shares_bus:
  "(bu_lock s \<or> bu_probing s \<longrightarrow> hw_trace (psxkbd_tick s) = hw_trace s \<and> kb_out (psxkbd_tick s) = kb_out s) \<and>
   (\<not> (bu_lock s \<or> bu_probing s) \<longrightarrow> last (writes JOY_CTRL (hw_trace (psxkbd_tick s))) = 0) \<and>
   bu_lock (psxkbd_tick s) = bu_lock s \<and> bu_probing (psxkbd_tick s) = bu_probing s"
proof (cases "bu_lock s \<or> bu_probing s")
  case True
  then show ?thesis
    using kbd_poll_busy [of "kbd_next_port s"] by (simp add: psxkbd_tick_def Let_def split_beta)
next
  case False
  then show ?thesis
    using kbd_poll_free [of "kbd_next_port s"] by (simp add: psxkbd_tick_def Let_def split_beta)
qed

definition kbd_demo :: kbd where
  "kbd_demo = bud.extend bu_boot \<lparr>kb_slot = 0, kb_addr = 1, kb_scan = 0, kb_quiet = 50, kb_present = False, kb_announced = False,
     kb_ext = False, kb_brk = False, kb_ticks = 100, kb_out = []\<rparr>"

theorem psxkbd_decode_roundtrip_witness:
  "kb_out (fold (\<lambda>c s. snd (psxkbd_decode (kbd_frame_of 0xff c) s)) [[0x1c, 0xf0], [0x1c, 0xe0, 0xf0, 0x75]] kbd_demo) =
    [(30, True), (30, False), (103, False)]"
  using psxkbd_decode_roundtrip [of "[(False, 0x1c, True), (False, 0x1c, False), (True, 0x75, False)]" kbd_demo
      "[[0x1c, 0xf0], [0x1c, 0xe0, 0xf0, 0x75]]" "0xff"]
  by (simp add: kbd_demo_def bud.defs kbd_code_def psxkbd_keycode_def psxkbd_set2_def psxkbd_set2_e0_def)

theorem psxkbd_tick_shares_bus_witness:
  "hw_trace (psxkbd_tick (kbd_demo\<lparr>bu_lock := True\<rparr>)) = [] \<and> bu_lock (psxkbd_tick (kbd_demo\<lparr>bu_lock := True\<rparr>))"
  using psxkbd_tick_shares_bus [of "kbd_demo\<lparr>bu_lock := True\<rparr>"] by (simp add: kbd_demo_def bud.defs bu_boot_def)

end
