(* ===== verification/BuProbe.thy ===== *)
theory BuProbe
  imports BuDrv
begin

text \<open>
  What the polled read of a card's first block establishes (\<^verbatim>\<open>bu_check\<close>,
  \<^verbatim>\<open>bu_read_first_block\<close> of \<^verbatim>\<open>drivers/block/bu.c\<close>), and what the sweeps do with it.
\<close>

section \<open>A successful check is a complete transfer\<close>

lemma bu_rel_trace: "hw_trace s' = hw_trace s \<Longrightarrow> bu_rel bu0 t0 bu s \<Longrightarrow> bu_rel bu0 t0 bu s'"
  by (simp add: bu_rel_def)

lemma bu_check_loop_result:
  assumes "bu_check_loop bu s = Some (ok, bu', s')" "bu_rel bu0 t0 bu s" "\<not> bx_stop bu"
  shows "(ok \<longrightarrow> bu_rel bu0 t0 bu' s' \<and> bx_stop bu') \<and> length (bx_buffer bu') = length (bx_buffer bu) \<and>
    bx_mode bu' = bx_mode bu \<and> bx_block bu' = bx_block bu \<and> bx_card bu' = bx_card bu \<and> bx_floor bu' = bx_floor bu"
  using assms
proof (induction bu s "(ok, bu', s')" arbitrary: ok bu' s' rule: bu_check_loop.raw_induct [rotated, consumes 1, case_names step])
  case (step rec bu s)
  define r where "r = (if bx_state bu mod 16 \<noteq> 0 then bu_ready s else (True, s))"
  have body: "(if \<not> fst r then Some (False, bu, snd r)
      else do { (st, bu, s) \<leftarrow> bu_rd_routine bu (snd r);
         if st < 0 then Some (False, bu, s) else if bx_stop bu then Some (True, bu, s) else rec bu s }) = Some (ok, bu', s')"
    using step.hyps(2) unfolding r_def [symmetric] by (simp add: split_beta)
  show ?case
  proof (cases "fst r")
    case False
    then show ?thesis
      using body by simp
  next
    case True
    have "bu_rel bu0 t0 bu (snd r)"
      by (rule bu_rel_trace [OF _ step.prems(1)]) (simp add: r_def bu_ready_def)
    from bu_routine_rel [OF this step.prems(2)] obtain st bu1 s1 where rt: "bu_rd_routine bu (snd r) = Some (st, bu1, s1)"
        "st = 0 \<or> st = - 1" "st = 0 \<Longrightarrow> bu_rel bu0 t0 bu1 s1"
      by metis
    note tame = bu_rd_routine_tame [OF rt(1)]
    have res: "(if st < 0 then Some (False, bu1, s1) else if bx_stop bu1 then Some (True, bu1, s1) else rec bu1 s1) = Some (ok, bu', s')"
      using body True rt(1) by simp
    show ?thesis
    proof (cases "st < 0 \<or> bx_stop bu1")
      case True
      then show ?thesis
        using res rt tame by (auto split: if_splits)
    next
      case False
      then show ?thesis
        using step.hyps(1) [of bu1 s1 ok bu' s'] res rt tame by auto
    qed
  qed
qed

lemma bu_check_sound:
  assumes "bu_check n bu s = Some (True, bu', s')" "length (bx_buffer bu) = BU_BLK_SIZE" "bx_mode bu = MODE_R"
  shows "\<exists>bu0 t0 s1. bu_rel bu0 t0 bu' s1 \<and> bx_stop bu' \<and> bx_mode bu0 = MODE_R \<and> bx_block bu0 = bx_block bu \<and>
    bx_floor bu0 = bx_floor bu \<and> s' = delay 100 (out16 BU_CONTROL 0 s1)"
  using assms
proof (induction n bu s rule: bu_check.induct)
  case (1 n bu s)
  have n: "\<not> N_CHECKS \<le> n"
    using 1(2) by (subst (asm) bu_check.simps) (auto split: if_splits)
  obtain bu1 where b1: "bu_sw_init bu = Some bu1" "bx_mode bu1 = bx_mode bu" "bx_buffer bu1 = bx_buffer bu" "bx_block bu1 = bx_block bu"
      "\<not> bx_stop bu1" "bx_floor bu1 = bx_floor bu"
    using 1(3,4) by (auto simp: bu_sw_init_def Let_def)
  have rel: "bu_rel bu1 (hw_trace (bu_hw_init s)) bu1 (bu_hw_init s)"
    by (rule bu_rel_init [OF b1(1) 1(3)])
  obtain ok bu2 s2 where l: "bu_check_loop bu1 (bu_hw_init s) = Some (ok, bu2, s2)"
    using 1(2) n b1(1) by (subst (asm) bu_check.simps) (auto split: option.splits)
  note res = bu_check_loop_result [OF l rel b1(5)]
  show ?case
  proof (cases ok)
    case True
    then have "bu' = bu2" "s' = delay 100 (out16 BU_CONTROL 0 s2)"
      using 1(2) n b1(1) l by (subst (asm) bu_check.simps, simp)+
    then show ?thesis
      using res True b1 1(4) by auto
  next
    case False
    then have "bu_check (n + 1) bu2 s2 = Some (True, bu', s')"
      using 1(2) n b1(1) l by (subst (asm) bu_check.simps) simp
    then show ?thesis
      using 1(1) [OF n b1(1) l refl refl False] res b1 1(3,4) by simp
  qed
qed


section \<open>A card that answers is found\<close>

lemma bu_live_same: "hw_trace s' = hw_trace s \<Longrightarrow> hw_env s' = hw_env s \<Longrightarrow> bu_live bu0 t0 reply bu s \<Longrightarrow> bu_live bu0 t0 reply bu s'"
  unfolding bu_live_def by (simp add: bu_rel_trace)

lemma bu_check_loop_live:
  assumes "bu_live bu0 t0 reply bu s" "bu_replies_ok bu0 reply" "\<not> bx_stop bu" "bu_ack s = (\<lambda>_. True)"
  shows "\<exists>bu' s'. bu_check_loop bu s = Some (True, bu', s') \<and> bu_live bu0 t0 reply bu' s' \<and> bx_stop bu'"
  using assms(1,3,4)
proof (induction "141 - bu_pos bu" arbitrary: bu s rule: less_induct)
  case less
  define r where "r = (if bx_state bu mod 16 \<noteq> 0 then bu_ready s else (True, s))"
  have r: "fst r" "bu_ack (snd r) = (\<lambda>_. True)" "hw_trace (snd r) = hw_trace s" "hw_env (snd r) = hw_env s"
    using less.prems(3) by (simp_all add: r_def bu_ready_def)
  obtain bu1 s1 where st: "bu_step (bu, snd r) (bu1, s1)" "bu_live bu0 t0 reply bu1 s1"
    using bu_live_step [OF bu_live_same [OF r(3,4) less.prems(1)] less.prems(2) assms(2)] by blast
  then have rt: "bu_rd_routine bu (snd r) = Some (0, bu1, s1)"
    by (auto elim: bu_stepE)
  have eq: "bu_check_loop bu s = (if bx_stop bu1 then Some (True, bu1, s1) else bu_check_loop bu1 s1)"
    using r(1) rt by (subst bu_check_loop.simps, unfold r_def [symmetric]) (simp add: split_beta)
  show ?case
  proof (cases "bx_stop bu1")
    case True
    then show ?thesis
      using eq st(2) by simp
  next
    case False
    have "bu_rel bu0 t0 bu (snd r)" "bu_rel bu0 t0 bu1 s1"
      using bu_live_same [OF r(3,4) less.prems(1)] st(2) by (simp_all add: bu_live_def)
    then have "141 - bu_pos bu1 < 141 - bu_pos bu"
      using bu_step_rel(2) [OF st(1)] bu_pos_bound unfolding bu_rel_def by (meson diff_less_mono2 less_le_trans)
    moreover have "bu_ack s1 = (\<lambda>_. True)"
      using emits_bud(20) [OF bu_rd_routine_tame(1) [OF rt]] r(2) by simp
    ultimately show ?thesis
      using less.hyps [OF _ st(2) False] eq False by simp
  qed
qed

text \<open>The bytes a card holding \<open>blk\<close> in its block 0 answers to a read of it.\<close>

definition bu_card_reply :: "u8 list \<Rightarrow> nat \<Rightarrow> u8" where
  "bu_card_reply blk k = (if k = 3 then 0x5a else if k = 4 \<or> k = 8 then 0x5d else if k = 7 then 0x5c
     else if 11 \<le> k \<and> k < 139 then blk ! (k - 11) else if k = 139 then fold (XOR) blk 0 else if k = 140 then 0x47 else 0)"

lemma bu_card_reply_data: "length blk = 128 \<Longrightarrow> map (bu_card_reply blk) [11..<139] = blk"
  by (rule nth_equalityI) (simp_all add: bu_card_reply_def nth_map_upt del: upt_rec_numeral)

lemma bu_first_init:
  "bu_sw_init (bu_first_request i) = Some (bu_first_request i)" "bx_mode (bu_first_request i) = MODE_R" "blk_msb (bu_first_request i) = 0" "blk_lsb (bu_first_request i) = 0"
  by (simp_all add: bu_sw_init_def bu_first_request_def blk_lsb_def blk_msb_def)

lemma bu_card_replies_ok:
  assumes "length blk = 128"
  shows "bu_replies_ok (bu_first_request i) (bu_card_reply blk)"
proof -
  have "bu_matches (bu_first_request i) k (bu_card_reply blk k)" for k
    by (simp add: bu_matches_def bu_expect_def bu_first_init bu_card_reply_def)
  moreover have "bu_card_reply blk 139 = fold (XOR) blk 0"
    by (simp add: bu_card_reply_def)
  ultimately show ?thesis
    using bu_card_reply_data [OF assms] by (simp add: bu_replies_ok_def bu_first_init del: upt_rec_numeral)
qed

definition fb_load :: "u8 list \<Rightarrow> bu_dev \<Rightarrow> bu_dev" where
  "fb_load blk d = d\<lparr>fb_id := le32_at blk 0, fb_size := le32_at blk 4, fb_serial := le32_at blk 8, fb_number := le32_at blk 12\<rparr>"

lemma bu_read_first_block_live:
  assumes "bu_answers (hw_env s) (length (reads BU_DATA (hw_trace s))) (bu_card_reply blk)" "length blk = 128"
    "bu_ack s = (\<lambda>_. True)" "le32_at blk 0 = BU_ID"
  shows "\<exists>s'. bu_read_first_block i s = Some (True, s') \<and> bu_devices s' = (bu_devices s)[i := fb_load blk (bu_devices s ! i)] \<and> bu_probes s s'"
proof -
  let ?bu = "bu_first_request i" and ?s = "bu_hw_init s"
  have hw: "hw_env ?s = hw_env s" "reads BU_DATA (hw_trace ?s) = reads BU_DATA (hw_trace s)" "bu_ack ?s = bu_ack s"
    by (simp_all add: bu_hw_init_def bus_defs emit_def)
  have "bu_pos ?bu = 0" "length (bx_buffer ?bu) = BU_BLK_SIZE" "bx_mode ?bu = MODE_R"
    by (simp_all add: bu_first_request_def bu_pos_def)
  then have live: "bu_live ?bu (hw_trace ?s) (bu_card_reply blk) ?bu ?s"
    using bu_rel_init [OF bu_first_init(1), of i ?s] assms(1) hw by (simp add: bu_live_def)
  then obtain bu' s1 where l: "bu_check_loop ?bu ?s = Some (True, bu', s1)" "bu_live ?bu (hw_trace ?s) (bu_card_reply blk) bu' s1" "bx_stop bu'"
    using bu_check_loop_live [OF live bu_card_replies_ok [OF assms(2)]] assms(3) hw(3) by (auto simp: bu_first_request_def)
  have log: "bu_log ?bu bu' (map (bu_card_reply blk) [0..<bu_pos bu'])"
    using l(2) by (auto simp: bu_live_def bu_rel_def map_ucast_u8 simp del: map_map)
  have m: "bx_mode ?bu = MODE_R"
    by (simp add: bu_first_request_def)
  note rd = bu_log_read [OF log l(3) m]
  have "bx_buffer bu' = map (bu_card_reply blk) [11..<139]"
    using rd(1) by (simp add: rd(2) drop_map take_map drop_upt take_upt del: upt_rec_numeral)
  then have buf: "bx_buffer bu' = blk"
    using bu_card_reply_data [OF assms(2)] by simp
  have chk: "bu_check 0 ?bu s = Some (True, bu', delay 100 (out16 BU_CONTROL 0 s1))"
    using l(1) bu_first_init(1) by (subst bu_check.simps) simp
  moreover obtain ok b u where "bu_check 0 ?bu s = Some (ok, b, u)" "bu_probes s u" "bu_devices u = bu_devices s"
    using bu_check_total [of ?bu 0 s] by (auto simp: bu_first_request_def)
  ultimately show ?thesis
    using assms(4) buf by (auto simp: bu_read_first_block_def fb_load_def bu_probes_def)
qed

section \<open>Properties of the card sweep\<close>

text \<open>
  C32: A card is only recorded after a complete, checked read of its first block,
  whatever the device does. If the polled read succeeds, the last bytes exchanged
  are a full read transfer of block 0 with every protocol byte and the checksum
  correct, its data starts with the card id, the slot's table entry holds the
  size, serial and number from that data and no other slot has changed, and the
  port has been released.
\<close>
theorem bu_read_first_block_sound:
  assumes "bu_read_first_block i s = Some (True, s')"
  shows "\<exists>t rs. reads BU_DATA (hw_trace s') = reads BU_DATA t @ map ucast rs \<and> length rs = 141 \<and>
    writes BU_DATA (hw_trace s') = writes BU_DATA t @ map ucast ([0x81, 0x52, 0, 0, 0, 0] @ replicate 135 (0 :: u8)) \<and>
    rs ! 3 = 0x5a \<and> rs ! 4 = 0x5d \<and> rs ! 7 = 0x5c \<and> rs ! 8 = 0x5d \<and> rs ! 9 = 0 \<and> rs ! 10 = 0 \<and> rs ! 140 = 0x47 \<and>
    rs ! 139 = fold (XOR) (take 128 (drop 11 rs)) 0 \<and>
    le32_at (take 128 (drop 11 rs)) 0 = BU_ID \<and>
    bu_devices s' = (bu_devices s)[i := fb_load (take 128 (drop 11 rs)) (bu_devices s ! i)] \<and>
    last (writes BU_CONTROL (hw_trace s')) = 0"
proof -
  obtain bu' s1 where c: "bu_check 0 (bu_first_request i) s = Some (True, bu', s1)" "le32_at (bx_buffer bu') 0 = BU_ID"
    and s': "s' = s1\<lparr>bu_devices := (bu_devices s1)[i := fb_load (bx_buffer bu') (bu_devices s1 ! i)]\<rparr>"
    using assms by (auto simp: bu_read_first_block_def fb_load_def bind_eq_Some_conv split: if_splits)
  have m: "length (bx_buffer (bu_first_request i)) = BU_BLK_SIZE" "bx_mode (bu_first_request i) = MODE_R"
    by (simp_all add: bu_first_request_def)
  have dev: "bu_devices s1 = bu_devices s"
    using bu_check_total [of "bu_first_request i" 0 s] m c(1) by auto
  obtain bu0 t s2 where r: "bu_rel bu0 t bu' s2" "bx_stop bu'" "bx_mode bu0 = MODE_R" "bx_block bu0 = 0" "bx_floor bu0 = 0"
      "s1 = delay 100 (out16 BU_CONTROL 0 s2)"
    using bu_check_sound [OF c(1) m] by (auto simp: bu_first_request_def)
  have tr: "reads BU_DATA (hw_trace s') = reads BU_DATA (hw_trace s2)" "writes BU_DATA (hw_trace s') = writes BU_DATA (hw_trace s2)"
      "last (writes BU_CONTROL (hw_trace s')) = 0"
    by (simp_all add: s' r(6) delay_def out16_def)
  obtain rs where rs: "bu_log bu0 bu' rs" "reads BU_DATA (hw_trace s2) = reads BU_DATA t @ map ucast rs"
      "writes BU_DATA (hw_trace s2) = writes BU_DATA t @ map ucast (take (bu_pos bu') (bu_script bu0))"
    using r(1) by (auto simp: bu_rel_def)
  note rd = bu_log_read [OF rs(1) r(2,3)]
  have z: "blk_msb bu0 = 0" "blk_lsb bu0 = 0"
    using r(4) by (simp_all add: blk_msb_def blk_lsb_def)
  have "bu_pos bu' = 141"
    using rs(1) rd(1) by (simp add: bu_log_def)
  then have "take (bu_pos bu') (bu_script bu0) = [0x81, 0x52, 0, 0, 0, 0] @ replicate 135 0"
    using bu_script_read [OF r(3)] z r(5) by simp
  then show ?thesis
    using tr rs(2,3) rd z c(2) dev s' by (intro exI [of _ t] exI [of _ rs]) simp
qed


definition bu_demo_block :: "u8 list" where
  "bu_demo_block = [0x34, 0x12, 0, 0, 0, 4, 0, 0, 7, 0, 0, 0, 1, 0, 0, 0] @ replicate 112 0"

definition bu_demo_probe :: bud where
  "bu_demo_probe = bu_boot\<lparr>hw_env := (\<lambda>t a. if a = BU_DATA then ucast (bu_card_reply bu_demo_block (length (reads BU_DATA t))) else 7),
     bu_ack := (\<lambda>_. True)\<rparr>"

lemma bu_demo_probe_found: "\<exists>s'. bu_read_first_block 1 bu_demo_probe = Some (True, s')"
  using bu_read_first_block_live [of bu_demo_probe bu_demo_block 1]
  by (auto simp: bu_demo_probe_def bu_boot_def bu_answers_def bu_demo_block_def le32_at_def le32_decode_def)

theorem bu_read_first_block_sound_witness:
  "\<exists>s' rs. bu_read_first_block 1 bu_demo_probe = Some (True, s') \<and>
     bu_devices s' = (bu_devices bu_demo_probe)[1 := fb_load (take 128 (drop 11 rs)) (bu_devices bu_demo_probe ! 1)]"
  using bu_demo_probe_found bu_read_first_block_sound [of 1 bu_demo_probe] by meson

text \<open>
  A card the sweep rejects is still used. When the card in slot 1 (index 0)
  carries a number out of range, \<^verbatim>\<open>bu_revalidate\<close> reports the slot as ignored and
  sets its size to zero, but the request path looks at the size in the card's first
  block: data block 0 of the joined device is read from, and written to, the
  rejected card.
\<close>
theorem bu_rejected_card_used:
  assumes "length (bu_devices s) = 2" "length (bu_sizes s) = 2"
    "2 \<le> fb_number (bu_devices s ! 0)" "8 < fb_size (bu_devices s ! 0)"
  shows "case bu_judge 0 seen kb s of (seen', kb', s') \<Rightarrow>
    bu_sizes s' ! 0 = 0 \<and> kb' = kb \<and> bu_total s' = bu_total s \<and> bu_map_block (bu_devices s') 0 0 = Some (0, 8)"
proof -
  obtain d e where d: "bu_devices s = [d, e]"
    using assms(1) by (auto simp: length_Suc_conv numeral_2_eq_2)
  have "0 < fb_size d"
    using assms(4) d by (simp add: word_less_nat_alt)
  then show ?thesis
    using assms d by (simp add: bu_judge_def)
qed

theorem bu_rejected_card_used_witness:
  "case bu_judge 0 [False, False] 0 (bu_boot\<lparr>bu_devices := [(bu_devices bu_boot ! 0)\<lparr>fb_number := 4\<rparr>, bu_devices bu_boot ! 1]\<rparr>) of (seen', kb', s') \<Rightarrow>
    bu_sizes s' ! 0 = 0 \<and> kb' = 0 \<and> bu_total s' = 2032 \<and> bu_map_block (bu_devices s') 0 0 = Some (0, 8)"
  using bu_rejected_card_used [of "bu_boot\<lparr>bu_devices := [(bu_devices bu_boot ! 0)\<lparr>fb_number := 4\<rparr>, bu_devices bu_boot ! 1]\<rparr>" 0 "[False, False]"]
  by (simp add: bu_boot_def)

end
