(* ===== verification/Memcard.thy ===== *)
theory Memcard
  imports BuProbe
begin

text \<open>
  The boot loader's memory-card code, \<^verbatim>\<open>bootloader/src/memcard.c\<close>, and the card
  image tool, \<^verbatim>\<open>tools/host/mkmemcard.c\<close>: the polled byte exchange on SIO0, card
  detection, block read and write, the header that marks a card as BlackRoo's, and
  the manager's scan and format. The BIOS pad calls are the flag \<open>pad_on\<close>.
\<close>

abbreviation (input) SIO0_DATA :: u32 where "SIO0_DATA \<equiv> 0x1F801040"
abbreviation (input) SIO0_STAT :: u32 where "SIO0_STAT \<equiv> 0x1F801044"
abbreviation (input) SIO0_MODE :: u32 where "SIO0_MODE \<equiv> 0x1F801048"
abbreviation (input) SIO0_CTRL :: u32 where "SIO0_CTRL \<equiv> 0x1F80104A"
abbreviation (input) SIO0_BAUD :: u32 where "SIO0_BAUD \<equiv> 0x1F80104E"
abbreviation (input) MC_CMD_READ :: u8 where "MC_CMD_READ \<equiv> 0x52"
abbreviation (input) MC_CMD_WRITE :: u8 where "MC_CMD_WRITE \<equiv> 0x57"
abbreviation (input) MC_CMD_ID :: u8 where "MC_CMD_ID \<equiv> 0x53"
abbreviation (input) BU_CARD_BLOCKS :: u32 where "BU_CARD_BLOCKS \<equiv> 1024"

record mcs = hw +
  pad_is_active :: bool
  pad_on :: bool
  mc_present :: "bool list"
  mc_blackroo :: "bool list"
  mc_number :: "int list"

record blackroo_card_header =
  hdr_id :: u32
  hdr_size :: u32
  hdr_serial :: u32
  hdr_number :: u32

definition MC_PORT :: "nat \<Rightarrow> nat" where
  "MC_PORT slot = (slot div 4) mod 2"

definition MC_FLOOR :: "nat \<Rightarrow> nat" where
  "MC_FLOOR slot = slot mod 4"

section \<open>Byte level\<close>

definition memcard_set_pad_active :: "bool \<Rightarrow> 'a mcs_scheme \<Rightarrow> 'a mcs_scheme" where
  "memcard_set_pad_active active s = s\<lparr>pad_is_active := active\<rparr>"

definition pause_pad :: "'a mcs_scheme \<Rightarrow> 'a mcs_scheme" where
  "pause_pad s = (if pad_is_active s then delay 5000 (s\<lparr>pad_on := False\<rparr>) else s)"

definition resume_pad :: "'a mcs_scheme \<Rightarrow> 'a mcs_scheme" where
  "resume_pad s = (if pad_is_active s then s\<lparr>pad_on := True\<rparr> else s)"

definition sio0_gap :: "'a hw_scheme \<Rightarrow> 'a hw_scheme" where
  "sio0_gap s = delay 32000 s"

fun sio0_drain :: "nat \<Rightarrow> 'a hw_scheme \<Rightarrow> 'a hw_scheme" where
  "sio0_drain 0 s = s"
| "sio0_drain (Suc n) s =
    (let (st, s) = in32 SIO0_STAT s; s = (if st AND 2 \<noteq> 0 then snd (in8 SIO0_DATA s) else s) in sio0_drain n s)"

definition sio0_init_card :: "nat \<Rightarrow> 'a hw_scheme \<Rightarrow> 'a hw_scheme" where
  "sio0_init_card port s =
    (let s = out16 SIO0_CTRL 0x0040 s;
         s = delay 500 s;
         s = sio0_drain 10 s;
         s = out16 SIO0_MODE 0x000D s;
         s = out16 SIO0_BAUD 0x0088 s;
         s = out16 SIO0_CTRL (push_bit 13 (of_nat port AND 1) OR 0x0003) s
     in delay 16000 s)"

definition mc_addr :: "nat \<Rightarrow> u8" where
  "mc_addr slot = 0x81 + of_nat (MC_FLOOR slot)"

definition memcard_slot_name :: "int \<Rightarrow> string" where
  "memcard_slot_name slot =
    (if slot < 0 \<or> slot \<ge> 8 then ''?''
     else [''port 1 A'', ''port 1 B'', ''port 1 C'', ''port 1 D'',
           ''port 2 A'', ''port 2 B'', ''port 2 C'', ''port 2 D''] ! nat slot)"

text \<open>\<^verbatim>\<open>while (!(SIO0_STAT & bits)) if (--timeout <= 0) return -1;\<close>\<close>

fun mc_wait :: "nat \<Rightarrow> u32 \<Rightarrow> 'a hw_scheme \<Rightarrow> bool \<times> 'a hw_scheme" where
  "mc_wait timeout bits s =
    (let (v, s) = in32 SIO0_STAT s in
     if v AND bits \<noteq> 0 then (True, s)
     else if timeout \<le> 1 then (False, s)
     else mc_wait (timeout - 1) bits s)"

declare mc_wait.simps [simp del]

definition sio0_xfer :: "u8 \<Rightarrow> 'a hw_scheme \<Rightarrow> u8 option \<times> 'a hw_scheme" where
  "sio0_xfer tx s =
    (let (ok, s) = mc_wait 12000 1 s in
     if \<not> ok then (None, s)
     else let s = out8 SIO0_DATA tx s;
              (ok, s) = mc_wait 12000 2 s in
          if \<not> ok then (None, s)
          else let (rx, s) = in8 SIO0_DATA s in (Some rx, s))"

definition sio0_shutdown :: "'a hw_scheme \<Rightarrow> 'a hw_scheme" where
  "sio0_shutdown s = delay 500 (out16 SIO0_CTRL 0x0040 s)"

section \<open>Card commands\<close>

text \<open>The tests made on an answer: any, none timed out, or exactly a byte.\<close>

definition rx_any :: "u8 option \<Rightarrow> bool" where "rx_any r = True"
definition rx_ok :: "u8 option \<Rightarrow> bool" where "rx_ok r = (r \<noteq> None)"
definition rx_is :: "u8 \<Rightarrow> u8 option \<Rightarrow> bool" where "rx_is v r = (r = Some v)"

definition mc_close :: "'a mcs_scheme \<Rightarrow> 'a mcs_scheme" where
  "mc_close s = resume_pad (sio0_shutdown s)"

definition mc_open :: "nat \<Rightarrow> 'a mcs_scheme \<Rightarrow> 'a mcs_scheme" where
  "mc_open slot s = sio0_init_card (MC_PORT slot) (pause_pad s)"

definition memcard_detect :: "nat \<Rightarrow> 'a mcs_scheme \<Rightarrow> bool \<times> 'a mcs_scheme" where
  "memcard_detect slot s =
    (let (ok, _, s) = port_steps sio0_xfer
           ([(mc_addr slot, rx_ok), (MC_CMD_ID, rx_ok), (0, rx_is 0x5A), (0, rx_is 0x5D)] @ replicate 8 (0, rx_any))
           (mc_open slot s)
     in (ok, mc_close s))"

text \<open>The loop that reads the data bytes: the buffer so far and the running checksum.\<close>

fun mc_read_data :: "nat \<Rightarrow> u8 list \<Rightarrow> u8 \<Rightarrow> 'a hw_scheme \<Rightarrow> (u8 list \<times> u8) option \<times> 'a hw_scheme" where
  "mc_read_data 0 buf checksum s = (Some (buf, checksum), s)"
| "mc_read_data (Suc n) buf checksum s =
    (case sio0_xfer 0 s of
       (None, s) \<Rightarrow> (None, s)
     | (Some rx, s) \<Rightarrow> mc_read_data n (buf @ [rx]) (checksum XOR rx) s)"

definition mc_msb :: "nat \<Rightarrow> u8" where "mc_msb block = of_nat (block div 256)"
definition mc_lsb :: "nat \<Rightarrow> u8" where "mc_lsb block = of_nat (block mod 256)"

definition mc_read_steps :: "nat \<Rightarrow> nat \<Rightarrow> (u8 \<times> (u8 option \<Rightarrow> bool)) list" where
  "mc_read_steps slot block =
    [(mc_addr slot, rx_ok), (MC_CMD_READ, rx_any), (0, rx_is 0x5A), (0, rx_is 0x5D), (mc_msb block, rx_any), (mc_lsb block, rx_any),
     (0, rx_is 0x5C), (0, rx_is 0x5D), (0, rx_is (mc_msb block)), (0, rx_is (mc_lsb block))]"

text \<open>\<open>Some\<close> is the buffer of a successful read.\<close>

definition memcard_read_block :: "nat \<Rightarrow> nat \<Rightarrow> 'a mcs_scheme \<Rightarrow> u8 list option \<times> 'a mcs_scheme" where
  "memcard_read_block slot block s =
    (let (ok, _, s) = port_steps sio0_xfer (mc_read_steps slot block) (mc_open slot s) in
     if \<not> ok then (None, mc_close s)
     else case mc_read_data 128 [] (mc_msb block XOR mc_lsb block) s of
            (None, s) \<Rightarrow> (None, mc_close s)
          | (Some (buf, checksum), s) \<Rightarrow>
              (let (ok, _, s) = port_steps sio0_xfer [(0, rx_is checksum), (0, rx_is 0x47)] s
               in (if ok then Some buf else None, mc_close s)))"

definition mc_write_steps :: "nat \<Rightarrow> nat \<Rightarrow> u8 list \<Rightarrow> (u8 \<times> (u8 option \<Rightarrow> bool)) list" where
  "mc_write_steps slot block buf =
    [(mc_addr slot, rx_ok), (MC_CMD_WRITE, rx_any), (0, rx_is 0x5A), (0, rx_is 0x5D), (mc_msb block, rx_any), (mc_lsb block, rx_any)] @
    map (\<lambda>b. (b, rx_any)) buf @
    [(fold (XOR) buf (mc_msb block XOR mc_lsb block), rx_any), (0, rx_is 0x5C), (0, rx_is 0x5D), (0, rx_is 0x47)]"

definition memcard_write_block :: "nat \<Rightarrow> nat \<Rightarrow> u8 list \<Rightarrow> 'a mcs_scheme \<Rightarrow> bool \<times> 'a mcs_scheme" where
  "memcard_write_block slot block buf s =
    (let (ok, _, s) = port_steps sio0_xfer (mc_write_steps slot block buf) (mc_open slot s) in (ok, mc_close s))"

section \<open>The BlackRoo header\<close>

definition hdr_bytes :: "blackroo_card_header \<Rightarrow> u8 list" where
  "hdr_bytes h = le32_encode (hdr_id h) @ le32_encode (hdr_size h) @ le32_encode (hdr_serial h) @ le32_encode (hdr_number h)"

definition hdr_read :: "u8 list \<Rightarrow> blackroo_card_header" where
  "hdr_read b = \<lparr>hdr_id = le32_at b 0, hdr_size = le32_at b 4, hdr_serial = le32_at b 8, hdr_number = le32_at b 12\<rparr>"

definition memcard_format_block :: "u32 \<Rightarrow> u8 list" where
  "memcard_format_block sequence_number =
    hdr_bytes \<lparr>hdr_id = BU_ID, hdr_size = BU_CARD_BLOCKS, hdr_serial = 0xABCD0000 + sequence_number, hdr_number = sequence_number\<rparr> @
    replicate 112 0"

definition memcard_format :: "nat \<Rightarrow> u32 \<Rightarrow> 'a mcs_scheme \<Rightarrow> bool \<times> 'a mcs_scheme" where
  "memcard_format slot sequence_number s = memcard_write_block slot 0 (memcard_format_block sequence_number) s"

definition memcard_read_header :: "nat \<Rightarrow> 'a mcs_scheme \<Rightarrow> blackroo_card_header option \<times> 'a mcs_scheme" where
  "memcard_read_header slot s = (case memcard_read_block slot 0 s of (r, s) \<Rightarrow> (map_option hdr_read r, s))"

definition memcard_is_blackroo :: "nat \<Rightarrow> 'a mcs_scheme \<Rightarrow> bool \<times> 'a mcs_scheme" where
  "memcard_is_blackroo slot s =
    (case memcard_read_header slot s of (None, s) \<Rightarrow> (False, s) | (Some h, s) \<Rightarrow> (hdr_id h = BU_ID, s))"

section \<open>The manager\<close>

definition mc_visible_slots :: "nat list" where
  "mc_visible_slots = [0, 4]"

definition mc_scan_slot :: "nat \<Rightarrow> 'a mcs_scheme \<Rightarrow> 'a mcs_scheme" where
  "mc_scan_slot slot s =
    (let (present, s) = memcard_detect slot s;
         s = s\<lparr>mc_present := (mc_present s)[slot := present], mc_blackroo := (mc_blackroo s)[slot := False],
               mc_number := (mc_number s)[slot := - 1]\<rparr>;
         s = (if present
              then case memcard_read_header slot s of
                     (None, s) \<Rightarrow> s
                   | (Some h, s) \<Rightarrow>
                       if hdr_id h = BU_ID
                       then s\<lparr>mc_blackroo := (mc_blackroo s)[slot := True], mc_number := (mc_number s)[slot := sint (hdr_number h)]\<rparr>
                       else s
              else s)
     in sio0_gap s)"

definition mc_scan :: "'a mcs_scheme \<Rightarrow> 'a mcs_scheme" where
  "mc_scan s = fold mc_scan_slot mc_visible_slots (s\<lparr>mc_present := replicate 8 False, mc_blackroo := replicate 8 False\<rparr>)"

text \<open>What the manager does when a format has been confirmed.\<close>

definition mc_format_slot :: "nat \<Rightarrow> 'a mcs_scheme \<Rightarrow> 'a mcs_scheme" where
  "mc_format_slot slot s =
    (let (ok, s) = memcard_format slot (of_nat slot) s in
     if ok then s\<lparr>mc_blackroo := (mc_blackroo s)[slot := True], mc_number := (mc_number s)[slot := int slot]\<rparr>
     else s\<lparr>mc_blackroo := (mc_blackroo s)[slot := False]\<rparr>)"

text \<open>
  One pass of the manager's loop: the buttons newly pressed and the answers of the
  confirmation screen drive the cursor and the actions. The result tells whether
  the menu is left; the button history is reset to 0 after an action.
\<close>

record mc_buttons =
  pad_up :: bool
  pad_down :: bool
  pad_select :: bool
  pad_square :: bool
  pad_circle :: bool
  pad_start :: bool

definition memcard_manager_step :: "mc_buttons \<Rightarrow> bool \<Rightarrow> nat \<Rightarrow> 'a mcs_scheme \<Rightarrow> (nat \<times> 'a mcs_scheme) option" where
  "memcard_manager_step pressed confirmed selected s =
    (let selected = (if pad_up pressed \<and> selected > 0 then selected - 1 else selected);
         selected = (if pad_down pressed \<and> selected < 1 then selected + 1 else selected) in
     if pad_select pressed then None
     else let s = (if pad_square pressed then mc_scan s else s);
              slot = mc_visible_slots ! selected;
              s = (if pad_circle pressed \<and> mc_present s ! slot then snd (memcard_read_block slot 0 s) else s);
              s = (if pad_start pressed \<and> mc_present s ! slot \<and> confirmed then mc_format_slot slot s else s)
          in Some (selected, s))"

section \<open>Card images\<close>

text \<open>
  \<^verbatim>\<open>make_serial\<close> seeds the C library's generator with the time and process id at
  every call; \<open>rnd seed k\<close> is the \<open>k\<close>-th value after seeding.
\<close>

definition make_serial :: "(u32 \<Rightarrow> nat \<Rightarrow> u32) \<Rightarrow> u32 \<Rightarrow> u32 \<Rightarrow> u32" where
  "make_serial rnd now pid = rnd (now XOR pid) 0 XOR push_bit 16 (rnd (now XOR pid) 1)"

text \<open>The image, given the data file's content if there is one.\<close>

definition create_card :: "u32 \<Rightarrow> u32 \<Rightarrow> u8 list option \<Rightarrow> u8 list" where
  "create_card serial card_number data =
    (let card = hdr_bytes \<lparr>hdr_id = BU_ID, hdr_size = 1024, hdr_serial = serial, hdr_number = card_number\<rparr> @ replicate (131072 - 16) 0 in
     case data of
       None \<Rightarrow> card
     | Some d \<Rightarrow> (let d = take (131072 - 1024) d in take 1024 card @ d @ drop (1024 + length d) card))"

text \<open>\<^verbatim>\<open>--raid\<close>: the images in order, \<open>clock i\<close> being the time at which card \<open>i\<close> is made.\<close>

definition mkmemcard_raid :: "(u32 \<Rightarrow> nat \<Rightarrow> u32) \<Rightarrow> (nat \<Rightarrow> u32) \<Rightarrow> u32 \<Rightarrow> int \<Rightarrow> u8 list list option" where
  "mkmemcard_raid rnd clock pid count =
    (if count < 1 \<or> count > 8 then None
     else Some (map (\<lambda>i. create_card (make_serial rnd (clock i) pid) (of_nat i) None) [0..<nat count]))"

section \<open>What the bus sees\<close>

lemma mc_wait_emits: "emits (\<lambda>e. \<not> wr_in UNIV e \<and> \<not> rd_in {SIO0_DATA} e) s (snd (mc_wait n b s))"
proof (induction n arbitrary: s)
  case 0
  show ?case
    by (subst mc_wait.simps) (auto simp: bus_defs)
next
  case (Suc n)
  show ?case
    using emits_trans [OF _ Suc.IH, of s "snd (in32 SIO0_STAT s)"]
    by (subst mc_wait.simps) (auto simp: bus_defs)
qed

lemmas mc_wait_frame [simp] =
  emits_writes [OF mc_wait_emits wr_in_mono [OF conjunct1]] emits_reads [OF mc_wait_emits conjunct2]
  emits_more [OF mc_wait_emits] emits_env [OF mc_wait_emits]

interpretation mcport: byte_port sio0_xfer "\<lambda>s. writes SIO0_DATA (hw_trace s)" "\<lambda>s. reads SIO0_DATA (hw_trace s)"
proof
  fix b v :: u8 and s s' :: "'a hw_scheme"
  assume "sio0_xfer b s = (Some v, s')"
  then show "writes SIO0_DATA (hw_trace s') = writes SIO0_DATA (hw_trace s) @ [ucast b] \<and>
      reads SIO0_DATA (hw_trace s') = reads SIO0_DATA (hw_trace s) @ [ucast v]"
    by (auto simp: sio0_xfer_def Let_def split_beta bus_defs split: if_splits)
next
  fix b :: u8 and s s' :: "'a hw_scheme"
  assume "sio0_xfer b s = (None, s')"
  then show "(writes SIO0_DATA (hw_trace s') = writes SIO0_DATA (hw_trace s) \<or>
      writes SIO0_DATA (hw_trace s') = writes SIO0_DATA (hw_trace s) @ [ucast b]) \<and>
      reads SIO0_DATA (hw_trace s') = reads SIO0_DATA (hw_trace s)"
    by (auto simp: sio0_xfer_def Let_def split_beta bus_defs split: if_splits)
qed

lemma mc_close_bus [simp]:
  "reads SIO0_DATA (hw_trace (mc_close s)) = reads SIO0_DATA (hw_trace s)"
  "writes SIO0_DATA (hw_trace (mc_close s)) = writes SIO0_DATA (hw_trace s)"
  "last (writes SIO0_CTRL (hw_trace (mc_close s))) = 0x40"
  by (simp_all add: mc_close_def resume_pad_def sio0_shutdown_def bus_defs)

lemma mc_read_data_log:
  "mc_read_data n buf cs s = (Some (buf', cs'), s') \<Longrightarrow>
     \<exists>d. buf' = buf @ d \<and> length d = n \<and> cs' = fold (XOR) d cs \<and>
       reads SIO0_DATA (hw_trace s') = reads SIO0_DATA (hw_trace s) @ map ucast d \<and>
       writes SIO0_DATA (hw_trace s') = writes SIO0_DATA (hw_trace s) @ replicate n 0"
proof (induction n arbitrary: buf cs s)
  case (Suc n)
  obtain v s1 where x: "sio0_xfer 0 s = (Some v, s1)" "mc_read_data n (buf @ [v]) (cs XOR v) s1 = (Some (buf', cs'), s')"
    using Suc.prems by (auto split: prod.splits option.splits)
  obtain d where "buf' = (buf @ [v]) @ d" "length d = n" "cs' = fold (XOR) d (cs XOR v)"
      "reads SIO0_DATA (hw_trace s') = reads SIO0_DATA (hw_trace s1) @ map ucast d"
      "writes SIO0_DATA (hw_trace s') = writes SIO0_DATA (hw_trace s1) @ replicate n 0"
    using Suc.IH [OF x(2)] by blast
  then show ?case
    using mcport.xfer_some [OF x(1)] by (intro exI [of _ "v # d"]) (simp add: xor.commute)
qed simp

lemma length_10: "length rs = 10 \<Longrightarrow> \<exists>a b c d e f g h i j. rs = [a, b, c, d, e, f, g, h, i, j]"
  by (auto simp: numeral_eq_Suc length_Suc_conv)

lemma map_filter_two: "length (List.map_filter id [x, y]) = 2 \<Longrightarrow> \<exists>u v. x = Some u \<and> y = Some v"
  by (cases x; cases y) (simp_all add: List.map_filter_simps)

text \<open>The acknowledge phase of a read.\<close>

lemma mc_read_ack:
  assumes "port_steps sio0_xfer (mc_read_steps slot block) s = (True, rs, s')"
  obtains a b where "reads SIO0_DATA (hw_trace s') = reads SIO0_DATA (hw_trace s) @
      map ucast (a @ [0x5A, 0x5D] @ b @ [0x5C, 0x5D, mc_msb block, mc_lsb block])"
    "length a = 1 \<or> length a = 2" "length b \<le> 2"
    "length a = 2 \<Longrightarrow> length b = 2 \<Longrightarrow> writes SIO0_DATA (hw_trace s') = writes SIO0_DATA (hw_trace s) @
      map ucast [mc_addr slot, MC_CMD_READ, 0, 0, mc_msb block, mc_lsb block, 0, 0, 0, 0]"
proof -
  have t: "length rs = 10" "\<forall>i<10. snd (mc_read_steps slot block ! i) (rs ! i)"
    using mcport.steps_tests [OF assms] by (simp_all add: mc_read_steps_def)
  obtain r0 r1 r2 r3 r4 r5 r6 r7 r8 r9 where rs: "rs = [r0, r1, r2, r3, r4, r5, r6, r7, r8, r9]"
    using length_10 [OF t(1)] by blast
  have v: "r2 = Some 0x5A" "r3 = Some 0x5D" "r6 = Some 0x5C" "r7 = Some 0x5D" "r8 = Some (mc_msb block)" "r9 = Some (mc_lsb block)" "r0 \<noteq> None"
    using t(2) [rule_format, of 2] t(2) [rule_format, of 3] t(2) [rule_format, of 6] t(2) [rule_format, of 7]
      t(2) [rule_format, of 8] t(2) [rule_format, of 9] t(2) [rule_format, of 0]
    by (simp_all add: rs mc_read_steps_def rx_is_def rx_ok_def)
  let ?a = "List.map_filter id [r0, r1]" and ?b = "List.map_filter id [r4, r5]"
  have mf: "List.map_filter id rs = ?a @ [0x5A, 0x5D] @ ?b @ [0x5C, 0x5D, mc_msb block, mc_lsb block]"
    by (simp add: rs v List.map_filter_simps split: option.split)
  show ?thesis
  proof (rule that [of ?a ?b])
    show "length ?a = 1 \<or> length ?a = 2" "length ?b \<le> 2"
      using v(7) by (auto simp: List.map_filter_simps split: option.split)
    show "reads SIO0_DATA (hw_trace s') = reads SIO0_DATA (hw_trace s) @
      map ucast (?a @ [0x5A, 0x5D] @ ?b @ [0x5C, 0x5D, mc_msb block, mc_lsb block])"
      using mcport.steps_got [OF assms] mf by simp
  next
    assume "length ?a = 2" "length ?b = 2"
    then obtain u0 u1 u4 u5 where u: "r0 = Some u0" "r1 = Some u1" "r4 = Some u4" "r5 = Some u5"
      using map_filter_two by metis
    then have "rs = map Some [u0, u1, 0x5A, 0x5D, u4, u5, 0x5C, 0x5D, mc_msb block, mc_lsb block]"
      by (simp add: rs v)
    from mcport.steps_sent [OF assms [unfolded this]]
    show "writes SIO0_DATA (hw_trace s') = writes SIO0_DATA (hw_trace s) @
      map ucast [mc_addr slot, MC_CMD_READ, 0, 0, mc_msb block, mc_lsb block, 0, 0, 0, 0]"
      by (simp add: mc_read_steps_def)
  qed
qed


lemma port_final_two:
  assumes "port_steps sio0_xfer [(0, rx_is x), (0, rx_is y)] s = (True, rs, s')"
  shows "reads SIO0_DATA (hw_trace s') = reads SIO0_DATA (hw_trace s) @ map ucast [x, y] \<and>
    writes SIO0_DATA (hw_trace s') = writes SIO0_DATA (hw_trace s) @ [0, 0]"
proof -
  have t: "length rs = 2" "rs ! 0 = Some x" "rs ! 1 = Some y"
    using mcport.steps_tests [OF assms] by (auto simp: rx_is_def nth_Cons' split: if_splits)
  then have "rs = map Some [x, y]"
    by (auto simp: numeral_2_eq_2 length_Suc_conv)
  from mcport.steps_sent [OF assms [unfolded this]] show ?thesis
    by simp
qed

lemma replicate_zeros: "map ucast (replicate n (0 :: u8)) = replicate n (0 :: u32)"
  by simp

lemma hdr_read_bytes [codec]: "hdr_read (hdr_bytes h @ ys) = h"
  by (simp add: hdr_read_def hdr_bytes_def le32_at_append2)

lemma length_hdr_bytes [simp, codec]: "length (hdr_bytes h) = 16"
  by (simp add: hdr_bytes_def)

lemma fb_load_hdr: "fb_load b d = d\<lparr>fb_id := hdr_id (hdr_read b), fb_size := hdr_size (hdr_read b), fb_serial := hdr_serial (hdr_read b),
    fb_number := hdr_number (hdr_read b)\<rparr>"
  by (simp add: fb_load_def hdr_read_def)

lemma format_block: "length (memcard_format_block n) = 128"
    "hdr_read (memcard_format_block n) = \<lparr>hdr_id = BU_ID, hdr_size = BU_CARD_BLOCKS, hdr_serial = 0xABCD0000 + n, hdr_number = n\<rparr>"
  by (simp_all add: memcard_format_block_def hdr_read_bytes)

section \<open>Properties of the boot loader's card code\<close>


section \<open>A card that answers is read\<close>

text \<open>An always-ready port whose \<open>k\<close>-th byte is \<open>reply k\<close>.\<close>

definition mc_answers :: "(bus_trace \<Rightarrow> u32 \<Rightarrow> u32) \<Rightarrow> (nat \<Rightarrow> u8) \<Rightarrow> bool" where
  "mc_answers env reply \<longleftrightarrow> (\<forall>t. env t SIO0_STAT = 3 \<and> ucast (env t SIO0_DATA) = reply (length (reads SIO0_DATA t)))"

lemma mc_wait_ready: "mc_answers (hw_env s) reply \<Longrightarrow> b = 1 \<or> b = 2 \<Longrightarrow> mc_wait n b s = (True, emit (Rd SIO0_STAT 3) s)"
  by (subst mc_wait.simps) (auto simp: mc_answers_def bus_defs)

lemma sio0_xfer_ready:
  assumes "mc_answers (hw_env s) reply"
  obtains s' where "sio0_xfer b s = (Some (reply (length (reads SIO0_DATA (hw_trace s)))), s')" "hw_env s' = hw_env s"
    "length (reads SIO0_DATA (hw_trace s')) = Suc (length (reads SIO0_DATA (hw_trace s)))"
proof -
  have r: "ucast (hw_env s t SIO0_DATA) = reply (length (reads SIO0_DATA t))" for t
    using assms by (simp add: mc_answers_def)
  have "sio0_xfer b s = (Some (reply (length (reads SIO0_DATA (hw_trace s)))),
      emit (Rd SIO0_DATA (ucast (reply (length (reads SIO0_DATA (hw_trace s))))))
        (emit (Rd SIO0_STAT 3) (emit (Wr SIO0_DATA (ucast b)) (emit (Rd SIO0_STAT 3) s))))"
    using assms by (simp add: sio0_xfer_def mc_wait_ready [where reply = reply] bus_defs r)
  then show ?thesis
    by (rule that) simp_all
qed

lemma port_steps_ready:
  assumes "mc_answers (hw_env s) reply" "\<forall>i<length ps. snd (ps ! i) (Some (reply (length (reads SIO0_DATA (hw_trace s)) + i)))"
  shows "\<exists>rs s'. port_steps sio0_xfer ps s = (True, rs, s') \<and> hw_env s' = hw_env s \<and>
    length (reads SIO0_DATA (hw_trace s')) = length (reads SIO0_DATA (hw_trace s)) + length ps"
  using assms
proof (induction ps arbitrary: s)
  case (Cons p ps)
  obtain b test where p: "p = (b, test)"
    by (cases p)
  obtain s1 where x: "sio0_xfer b s = (Some (reply (length (reads SIO0_DATA (hw_trace s)))), s1)" "hw_env s1 = hw_env s"
      "length (reads SIO0_DATA (hw_trace s1)) = Suc (length (reads SIO0_DATA (hw_trace s)))"
    by (rule sio0_xfer_ready [OF Cons.prems(1)])
  have "test (Some (reply (length (reads SIO0_DATA (hw_trace s)))))"
    using Cons.prems(2) [rule_format, of 0] p by simp
  moreover have "\<forall>i<length ps. snd (ps ! i) (Some (reply (length (reads SIO0_DATA (hw_trace s1)) + i)))"
    using Cons.prems(2) [rule_format, of "Suc _"] x(3) by simp
  ultimately show ?case
    using Cons.IH [of s1] Cons.prems(1) x p by (auto split: prod.splits)
qed simp

lemma mc_read_data_ready:
  assumes "mc_answers (hw_env s) reply"
  shows "\<exists>s'. mc_read_data n buf cs s =
      (let d = map reply [length (reads SIO0_DATA (hw_trace s))..<length (reads SIO0_DATA (hw_trace s)) + n] in (Some (buf @ d, fold (XOR) d cs), s')) \<and>
    hw_env s' = hw_env s \<and> length (reads SIO0_DATA (hw_trace s')) = length (reads SIO0_DATA (hw_trace s)) + n"
  using assms
proof (induction n arbitrary: buf cs s)
  case (Suc n)
  obtain s1 where x: "sio0_xfer 0 s = (Some (reply (length (reads SIO0_DATA (hw_trace s)))), s1)" "hw_env s1 = hw_env s"
      "length (reads SIO0_DATA (hw_trace s1)) = Suc (length (reads SIO0_DATA (hw_trace s)))"
    by (rule sio0_xfer_ready [OF Suc.prems])
  have u: "[k..<Suc (k + n)] = k # [Suc k..<Suc (k + n)]" for k
    by (rule upt_conv_Cons) simp
  show ?case
    using Suc.IH [of s1 "buf @ [reply (length (reads SIO0_DATA (hw_trace s)))]" "cs XOR reply (length (reads SIO0_DATA (hw_trace s)))"] Suc.prems x
    by (auto simp: Let_def u xor.commute simp del: upt_Suc)
qed simp

text \<open>The bytes a card holding \<open>blk\<close> answers to the read of block \<open>n\<close>.\<close>

definition mc_card_reply :: "nat \<Rightarrow> u8 list \<Rightarrow> nat \<Rightarrow> u8" where
  "mc_card_reply n blk k = (if k = 2 then 0x5A else if k = 3 \<or> k = 7 then 0x5D else if k = 6 then 0x5C
     else if k = 8 then mc_msb n else if k = 9 then mc_lsb n else if 10 \<le> k \<and> k < 138 then blk ! (k - 10)
     else if k = 138 then fold (XOR) blk (mc_msb n XOR mc_lsb n) else if k = 139 then 0x47 else 0)"

lemma memcard_read_block_ready:
  assumes "mc_answers (hw_env s) (\<lambda>k. mc_card_reply block blk (k - length (reads SIO0_DATA (hw_trace (mc_open slot s)))))" "length blk = 128"
  shows "\<exists>s'. memcard_read_block slot block s = (Some blk, s')"
proof -
  let ?t = "mc_open slot s" and ?n = "length (reads SIO0_DATA (hw_trace (mc_open slot s)))"
  let ?r = "\<lambda>k. mc_card_reply block blk (k - ?n)"
  have drain: "hw_env (sio0_drain k u) = hw_env u" for k and u :: "'a mcs_scheme"
    by (induction k arbitrary: u) (simp_all add: Let_def bus_defs)
  have e: "hw_env ?t = hw_env s"
    by (simp add: mc_open_def sio0_init_card_def pause_pad_def Let_def bus_defs drain)
  have t10: "i < 10 \<Longrightarrow> i = 0 \<or> i = 1 \<or> i = 2 \<or> i = 3 \<or> i = 4 \<or> i = 5 \<or> i = 6 \<or> i = 7 \<or> i = 8 \<or> i = (9 :: nat)" for i
    by arith
  have "snd (mc_read_steps slot block ! i) (Some (?r (?n + i)))" if "i < 10" for i
    using t10 [OF that] by (elim disjE) (simp_all add: mc_read_steps_def mc_card_reply_def rx_is_def rx_ok_def rx_any_def)
  moreover have "length (mc_read_steps slot block) = 10"
    by (simp add: mc_read_steps_def)
  ultimately obtain rs s1 where a: "port_steps sio0_xfer (mc_read_steps slot block) ?t = (True, rs, s1)" "hw_env s1 = hw_env s"
      "length (reads SIO0_DATA (hw_trace s1)) = ?n + 10"
    using port_steps_ready [of ?t ?r "mc_read_steps slot block"] assms(1) e by auto
  have d: "map ?r [?n + 10..<?n + 10 + 128] = blk"
    by (rule nth_equalityI) (simp_all add: assms(2) mc_card_reply_def)
  obtain s2 where b: "mc_read_data 128 [] (mc_msb block XOR mc_lsb block) s1 = (Some (blk, fold (XOR) blk (mc_msb block XOR mc_lsb block)), s2)"
      "hw_env s2 = hw_env s" "length (reads SIO0_DATA (hw_trace s2)) = ?n + 10 + 128"
    using mc_read_data_ready [of s1 ?r 128 "[]" "mc_msb block XOR mc_lsb block"] assms(1) a(2,3) d by (auto simp: Let_def)
  have "\<exists>rs s3. port_steps sio0_xfer [(0, rx_is (fold (XOR) blk (mc_msb block XOR mc_lsb block))), (0, rx_is 0x47)] s2 = (True, rs, s3)"
    using port_steps_ready [of s2 ?r "[(0, rx_is (fold (XOR) blk (mc_msb block XOR mc_lsb block))), (0, rx_is 0x47)]"] assms(1) b(2,3)
    by (auto simp: less_Suc_eq mc_card_reply_def rx_is_def simp del: port_steps.simps)
  then show ?thesis
    using a(1) b(1) by (auto simp: memcard_read_block_def Let_def simp del: port_steps.simps)
qed

definition mc_demo :: mcs where
  "mc_demo = \<lparr>hw_env = (\<lambda>t a. if a = SIO0_STAT then 3 else ucast (mc_card_reply 5 (replicate 128 0x55) (length (reads SIO0_DATA t) - 10))),
     hw_trace = [], pad_is_active = True, pad_on = True, mc_present = replicate 8 False, mc_blackroo = replicate 8 False,
     mc_number = replicate 8 0\<rparr>"

lemma sio0_drain_ready:
  "\<forall>t. hw_env s t SIO0_STAT = 3 \<Longrightarrow> length (reads SIO0_DATA (hw_trace (sio0_drain n s))) = length (reads SIO0_DATA (hw_trace s)) + n"
  by (induction n arbitrary: s) (simp_all add: bus_defs)

lemma mc_demo_open: "length (reads SIO0_DATA (hw_trace (mc_open 0 mc_demo))) = 10"
proof -
  let ?s = "delay 500 (out16 SIO0_CTRL 0x0040 (pause_pad mc_demo))"
  have "hw_env ?s t SIO0_STAT = 3" "reads SIO0_DATA (hw_trace ?s) = []" for t
    by (simp_all add: pause_pad_def mc_demo_def bus_defs)
  then have "length (reads SIO0_DATA (hw_trace (sio0_drain 10 ?s))) = 10"
    using sio0_drain_ready [of ?s 10] by simp
  then show ?thesis
    by (simp add: mc_open_def sio0_init_card_def Let_def out16_def delay_def)
qed


end
