(* ===== verification/Mem.thy ===== *)
theory Mem
  imports Prelude
begin

text \<open>
  Main memory as the C code sees it: a function from physical addresses to
  bytes. The R3000 of the console has no TLB; the low 29 bits of an address
  select the byte, so KUSEG, KSEG0 and KSEG1 name the same memory. Pointers are
  32-bit words and pointer arithmetic wraps.
\<close>

type_synonym mem = "u32 \<Rightarrow> u8"

definition phys :: "u32 \<Rightarrow> u32" where
  "phys a = a AND 0x1FFFFFFF"

fun put_bytes :: "u32 \<Rightarrow> u8 list \<Rightarrow> mem \<Rightarrow> mem" where
  "put_bytes a [] m = m"
| "put_bytes a (b # bs) m = put_bytes (a + 1) bs (m(phys a := b))"

definition get_bytes :: "mem \<Rightarrow> u32 \<Rightarrow> nat \<Rightarrow> u8 list" where
  "get_bytes m a n = map (\<lambda>i. m (phys (a + of_nat i))) [0..<n]"

definition get32 :: "mem \<Rightarrow> u32 \<Rightarrow> u32" where
  "get32 m a = le32_at (get_bytes m a 4) 0"

definition put32 :: "u32 \<Rightarrow> u32 \<Rightarrow> mem \<Rightarrow> mem" where
  "put32 a v = put_bytes a (le32_encode v)"

text \<open>The physical addresses of \<open>n\<close> bytes from \<open>a\<close>.\<close>

definition span :: "u32 \<Rightarrow> nat \<Rightarrow> u32 set" where
  "span a n = (\<lambda>i. phys (a + of_nat i)) ` {..<n}"

section \<open>Addresses\<close>

lemma unat_phys: "unat (phys a) = unat a mod 2 ^ 29"
proof -
  have "phys a = take_bit 29 a"
    by (simp add: phys_def take_bit_eq_mask mask_eq_exp_minus_1)
  then show ?thesis
    by (simp add: take_bit_eq_mod unat_mod)
qed

lemma mod_u32: "(n mod 2 ^ 32) mod 2 ^ 29 = n mod (2 :: nat) ^ 29"
  by (rule mod_mod_cancel) (simp add: le_imp_power_dvd)

lemma unat_add_mod: "unat (a + b :: u32) mod 2 ^ 29 = (unat a + unat b) mod 2 ^ 29"
  using mod_u32 [of "unat a + unat b"] by (simp add: unat_word_ariths)

lemma unat_phys_add: "unat (phys (a + of_nat k)) = (unat a + k) mod 2 ^ 29"
proof -
  have "(unat a + unat (of_nat k :: u32)) mod 2 ^ 29 = (unat a + k) mod 2 ^ 29"
    using mod_u32 [of k] by (intro mod_add_cong) (simp_all add: unat_of_nat take_bit_eq_mod)
  then show ?thesis
    using unat_add_mod [of a "of_nat k"] by (simp only: unat_phys)
qed

lemma phys_phys [simp]: "phys (phys a) = phys a"
  by (simp add: word_unat_eq_iff unat_phys)

lemma phys_add: "phys (a + b) = phys (phys a + b)"
  unfolding word_unat_eq_iff unat_phys unat_add_mod by (simp add: mod_add_left_eq)

lemma mod_offset_inj:
  assumes "(a + i) mod q = (a + j) mod q" "i < q" "j \<le> (i :: nat)"
  shows "i = j"
proof -
  have "q dvd (a + i) - (a + j)"
    using assms(1,3) by (subst mod_eq_dvd_iff_nat [symmetric]) auto
  then have "q dvd i - j"
    by simp
  moreover have "i - j < q"
    using assms(2) by simp
  ultimately have "i - j = 0"
    using nat_dvd_not_less [of "i - j" q] by blast
  then show ?thesis
    using assms(3) by simp
qed

lemma phys_offset_inj:
  assumes "phys (a + of_nat i) = phys (a + of_nat j)" "i < 2 ^ 29" "j < 2 ^ 29"
  shows "i = j"
proof -
  have e: "(unat a + i) mod 2 ^ 29 = (unat a + j) mod 2 ^ 29"
    using arg_cong [OF assms(1), of unat] unfolding unat_phys_add .
  show ?thesis
  proof (cases "j \<le> i")
    case True
    show ?thesis
      by (rule mod_offset_inj [OF e assms(2) True])
  next
    case False
    then have "i \<le> j"
      by (rule linorder_not_le [THEN iffD1, THEN less_imp_le])
    from mod_offset_inj [OF e [symmetric] assms(3) this] show ?thesis
      by (rule sym)
  qed
qed

lemma phys_linear:
  assumes "unat (phys a) + i < 2 ^ 29"
  shows "unat (phys (a + of_nat i)) = unat (phys a) + i"
proof -
  have "unat (phys (a + of_nat i)) = (unat (phys a) + i) mod 2 ^ 29"
    unfolding unat_phys_add by (simp add: unat_phys mod_add_left_eq)
  then show ?thesis
    using assms by simp
qed

lemma span_linear:
  assumes "unat (phys a) + n \<le> 2 ^ 29" "p \<in> span a n"
  shows "unat (phys a) \<le> unat p \<and> unat p < unat (phys a) + n"
proof -
  obtain i where "i < n" "p = phys (a + of_nat i)"
    using assms(2) by (auto simp: span_def)
  then show ?thesis
    using phys_linear [of a i] assms(1) by simp
qed

lemma span_disjoint:
  assumes "unat (phys a) + n \<le> unat (phys b)" "unat (phys b) + k \<le> 2 ^ 29"
  shows "span a n \<inter> span b k = {}"
  using span_linear [of a n] span_linear [of b k] assms by fastforce

section \<open>Loads and stores\<close>

lemma span_0 [simp]: "span a 0 = {}"
  by (simp add: span_def)

lemma span_Suc: "span a (Suc n) = insert (phys a) (span (a + 1) n)"
  by (simp add: span_def lessThan_Suc_eq_insert_0 image_image add.assoc)

lemma span_add: "span a (n + k) = span a n \<union> span (a + of_nat n) k"
  by (induction n arbitrary: a) (simp_all add: span_Suc add.assoc)

lemma put_bytes_other: "p \<notin> span a (length bs) \<Longrightarrow> put_bytes a bs m p = m p"
proof (induction bs arbitrary: a m)
  case (Cons b bs)
  then show ?case
    by (simp add: span_Suc)
qed simp

lemma put_bytes_nth:
  assumes "i < length bs" "length bs \<le> 2 ^ 29"
  shows "put_bytes a bs m (phys (a + of_nat i)) = bs ! i"
  using assms
proof (induction bs arbitrary: a m i)
  case (Cons b bs)
  show ?case
  proof (cases i)
    case 0
    have "phys a \<notin> span (a + 1) (length bs)"
    proof
      assume "phys a \<in> span (a + 1) (length bs)"
      then obtain j where j: "j < length bs" "phys (a + of_nat 0) = phys (a + of_nat (Suc j))"
        by (auto simp: span_def add.assoc)
      then show False
        using phys_offset_inj [OF j(2)] Cons.prems by simp
    qed
    then show ?thesis
      by (simp add: 0 put_bytes_other)
  next
    case (Suc k)
    have "a + of_nat i = (a + 1) + of_nat k"
      by (simp add: Suc add.assoc)
    then show ?thesis
      using Cons.IH [of k "a + 1"] Cons.prems Suc by (simp add: add.assoc)
  qed
qed simp

lemma length_get_bytes [simp]: "length (get_bytes m a n) = n"
  by (simp add: get_bytes_def)

lemma nth_get_bytes [simp]: "i < n \<Longrightarrow> get_bytes m a n ! i = m (phys (a + of_nat i))"
  by (simp add: get_bytes_def)

lemma get_bytes_add: "get_bytes m a (n + k) = get_bytes m a n @ get_bytes m (a + of_nat n) k"
  by (rule nth_equalityI) (auto simp: nth_append add.assoc simp flip: of_nat_add)

lemma get_bytes_Suc: "get_bytes m a (Suc n) = m (phys a) # get_bytes m (a + 1) n"
  using get_bytes_add [of m a 1 n] by (simp add: get_bytes_def)

lemma get_put_bytes: "length bs \<le> 2 ^ 29 \<Longrightarrow> n = length bs \<Longrightarrow> get_bytes (put_bytes a bs m) a n = bs"
  by (rule nth_equalityI) (simp_all add: put_bytes_nth)

lemma get_put_other: "span a n \<inter> span b (length bs) = {} \<Longrightarrow> get_bytes (put_bytes b bs m) a n = get_bytes m a n"
  by (rule nth_equalityI) (auto simp: span_def intro!: put_bytes_other)

lemma put_bytes_append: "put_bytes a (xs @ ys) m = put_bytes (a + of_nat (length xs)) ys (put_bytes a xs m)"
  by (induction xs arbitrary: a m) (simp_all add: add.assoc)

lemma get32_same: "(\<And>p. p \<in> span a 4 \<Longrightarrow> m' p = m p) \<Longrightarrow> get32 m' a = get32 m a"
proof -
  assume "\<And>p. p \<in> span a 4 \<Longrightarrow> m' p = m p"
  then have "get_bytes m' a 4 = get_bytes m a 4"
    by (intro nth_equalityI) (auto simp: span_def)
  then show ?thesis
    by (simp add: get32_def)
qed

lemma get_put32 [simp]: "get32 (put32 a v m) a = v"
  by (simp add: get32_def put32_def get_put_bytes)

end
