(* ===== verification/Prom.thy ===== *)
theory Prom
  imports Mem Klib
begin

text \<open>
  The kernel's side of the hand-over, \<^verbatim>\<open>arch/mipsnommu/ps/prom\<close>, and the part of
  \<^verbatim>\<open>arch/mipsnommu/kernel/setup.c\<close> that reads the command line: the boot arguments,
  the size of memory, the region given to the allocator and the \<^verbatim>\<open>mem=\<close> option.
\<close>

section \<open>The command line\<close>

abbreviation (input) COMMAND_LINE_SIZE :: nat where "COMMAND_LINE_SIZE \<equiv> 256"
abbreviation (input) BOOT_ARG_ADDR :: u32 where "BOOT_ARG_ADDR \<equiv> 0x80000180"

definition CONFIG_CMDLINE :: cstr where
  "CONFIG_CMDLINE = s2b ''brmon root=/dev/ram0 init=/bin/sh console=ttyS0,115200 console=tty0''"

definition printable :: "u8 \<Rightarrow> bool" where
  "printable c \<longleftrightarrow> \<not> (c < 0x20 \<or> c > 0x7e)"

text \<open>The loop over the line: whether it meets the NUL within \<open>n\<close> bytes, all printable before it.\<close>

fun prom_scan :: "nat \<Rightarrow> mem \<Rightarrow> u32 \<Rightarrow> bool" where
  "prom_scan 0 m p = False"
| "prom_scan (Suc n) m p =
    (if m (phys p) = 0 then True
     else if \<not> printable (m (phys p)) then False
     else prom_scan n m (p + 1))"

definition cstr_at :: "mem \<Rightarrow> u32 \<Rightarrow> nat \<Rightarrow> cstr" where
  "cstr_at m p n = takeWhile (\<lambda>c. c \<noteq> 0) (get_bytes m p n)"

text \<open>The string left in \<^verbatim>\<open>arcs_cmdline\<close>; \<^verbatim>\<open>strcpy\<close> runs only when the NUL is within bounds.\<close>

definition prom_init_cmdline :: "mem \<Rightarrow> cstr" where
  "prom_init_cmdline m =
    (if get_bytes m BOOT_ARG_ADDR 4 = s2b ''BRCL'' \<and> prom_scan (COMMAND_LINE_SIZE - 1) m (BOOT_ARG_ADDR + 4)
     then cstr_at m (BOOT_ARG_ADDR + 4) (COMMAND_LINE_SIZE - 1)
     else CONFIG_CMDLINE)"

text \<open>The copies \<^verbatim>\<open>setup_arch\<close> makes of it, \<^verbatim>\<open>command_line\<close> and \<^verbatim>\<open>saved_command_line\<close>.\<close>

definition setup_command_line :: "cstr \<Rightarrow> cstr" where
  "setup_command_line arcs_cmdline = take (COMMAND_LINE_SIZE - 1) arcs_cmdline"

section \<open>The size of memory\<close>

abbreviation (input) MEM_SIZE_REG_2MB :: u32 where "MEM_SIZE_REG_2MB \<equiv> 0x0888"
abbreviation (input) MEM_SIZE_REG_4MB :: u32 where "MEM_SIZE_REG_4MB \<equiv> 0x0988"
abbreviation (input) MEM_SIZE_REG_8MB :: u32 where "MEM_SIZE_REG_8MB \<equiv> 0x0B88"

text \<open>
  The probe. \<open>cell\<close> is the memory controller: the cell an address selects; \<open>m\<close>
  holds the words of the cells. The result is the size, the value left in the
  register and the memory.
\<close>

definition psx_probe_ram :: "(u32 \<Rightarrow> u32) \<Rightarrow> (u32 \<Rightarrow> u32) \<Rightarrow> u32 \<times> u32 \<times> (u32 \<Rightarrow> u32)" where
  "psx_probe_ram cell m =
    (let base = cell 0xA0000000; at_2mb = cell 0xA0200000; at_4mb = cell 0xA0400000;
         m = m(base := 0xDEADBEEF);
         m = m(at_2mb := 0xCAFEBABE);
         m = m(at_4mb := 0x12345678) in
     if m base \<noteq> 0xDEADBEEF
     then let m = m(base := 0xDEADBEEF);
              m = m(at_2mb := 0xCAFEBABE) in
          if m base = 0xCAFEBABE then (push_bit 20 1, MEM_SIZE_REG_2MB, m)
          else (push_bit 20 2, MEM_SIZE_REG_2MB, m)
     else if m at_2mb = 0xCAFEBABE \<and> m at_4mb = 0x12345678 then (push_bit 20 8, MEM_SIZE_REG_8MB, m)
     else if m at_2mb = 0xCAFEBABE then (push_bit 20 4, MEM_SIZE_REG_4MB, m)
     else (push_bit 20 2, MEM_SIZE_REG_2MB, m))"

datatype ram_config = RAM_AUTO | RAM_8MB | RAM_4MB | RAM_2MB

text \<open>A region of \<^verbatim>\<open>boot_mem_map\<close>: address, size, type.\<close>

type_synonym region = "u32 \<times> u32 \<times> nat"

definition add_memory_region :: "u32 \<Rightarrow> u32 \<Rightarrow> nat \<Rightarrow> region list \<Rightarrow> region list" where
  "add_memory_region start sz typ regions = (if length regions = 32 then regions else regions @ [(start, sz, typ)])"

text \<open>\<open>reserve\<close> is \<^verbatim>\<open>BLACKROO_USER_RESERVE\<close>, \<open>None\<close> when \<^verbatim>\<open>CONFIG_BINFMT_FIXED\<close> is off; \<open>probed\<close> is what the probe returned.\<close>

definition setup_memory_region :: "ram_config \<Rightarrow> u32 option \<Rightarrow> u32 \<Rightarrow> region list \<Rightarrow> region list" where
  "setup_memory_region conf reserve probed regions =
    (let mem_size = (case conf of RAM_AUTO \<Rightarrow> probed | RAM_8MB \<Rightarrow> push_bit 20 8 | RAM_4MB \<Rightarrow> push_bit 20 4 | RAM_2MB \<Rightarrow> push_bit 20 2);
         mem_size = (case reserve of None \<Rightarrow> mem_size | Some r \<Rightarrow> if mem_size > r then mem_size - r else mem_size)
     in add_memory_region 0 mem_size 1 regions)"

text \<open>The pages handed to the allocator, in order; \<open>end\<close> is the physical start of the kernel.\<close>

function prom_free_prom_memory :: "nat \<Rightarrow> nat \<Rightarrow> nat list" where
  "prom_free_prom_memory addr kend = (if addr < kend then addr # prom_free_prom_memory (addr + 4096) kend else [])"
  by pat_completeness auto

termination
  by (relation "measure (\<lambda>(a, e). e - a)") auto

declare prom_free_prom_memory.simps [simp del]

section \<open>The \<^verbatim>\<open>mem=\<close> option\<close>

lemma strtoul_loop_length: "length (snd (strtoul_loop b r s)) \<le> length s"
  by (induction b r s rule: strtoul_loop.induct) auto

lemma memparse_length: "length (snd (memparse s)) \<le> length s"
proof -
  have "length (snd (simple_strtoul s 0)) \<le> length s"
    using strtoul_loop_length [of 16 0 "drop 2 s"] strtoul_loop_length [of 8 0 "drop 1 s"] strtoul_loop_length [of 10 0 s]
    by (auto simp: simple_strtoul_def)
  then show ?thesis
    by (auto simp: memparse_def Let_def case_prod_unfold)
qed

text \<open>One \<^verbatim>\<open>mem=\<close> argument at \<open>from\<close>: the rest, the size and the start.\<close>

definition mem_arg :: "cstr \<Rightarrow> cstr \<times> u32 \<times> u32" where
  "mem_arg from =
    (let (mem_size, from) = memparse (drop 4 from);
         (start_at, from) = (if ch from 0 = 0x40 then memparse (drop 1 from) else (0, from))
     in (from, mem_size, start_at))"

lemma mem_arg_length: "length (fst (mem_arg from)) \<le> length from"
  using memparse_length [of "drop 4 from"] memparse_length [of "drop 1 (snd (memparse (drop 4 from)))"]
  by (auto simp: mem_arg_def Let_def case_prod_unfold)

text \<open>
  The loop: the previous character, the text still to read, the text copied, its
  length counter, whether a \<^verbatim>\<open>mem=\<close> was seen, the map.
\<close>

definition is_mem_arg :: "u8 \<Rightarrow> cstr \<Rightarrow> bool" where
  "is_mem_arg c from \<longleftrightarrow> c = 0x20 \<and> take 4 from = s2b ''mem=''"

function parse_mem_loop :: "u8 \<Rightarrow> cstr \<Rightarrow> cstr \<Rightarrow> nat \<Rightarrow> bool \<Rightarrow> region list \<Rightarrow> cstr \<times> region list" where
  "parse_mem_loop c from to len usermem regions =
    (let (from, to, usermem, regions) =
       (if is_mem_arg c from
        then case mem_arg from of (from', mem_size, start_at) \<Rightarrow>
          (from', butlast to, True, add_memory_region start_at mem_size 1 (if usermem then regions else []))
        else (from, to, usermem, regions)) in
     case from of
       [] \<Rightarrow> (to, regions)
     | c # from \<Rightarrow> if COMMAND_LINE_SIZE \<le> len + 1 then (to, regions) else parse_mem_loop c from (to @ [c]) (len + 1) usermem regions)"
  by pat_completeness auto

termination
proof (relation "measure (\<lambda>(_, from, _). length from)")
  fix c :: u8 and fr to :: cstr and len :: nat and um :: bool and mp :: "region list" and x xa y xb ya xc yb c' fr'
  assume x: "x = (if is_mem_arg c fr
      then case mem_arg fr of (f, ms, sa) \<Rightarrow> (f, butlast to, True, add_memory_region sa ms 1 (if um then mp else []))
      else (fr, to, um, mp))" and e: "(xa, y) = x" "(xb, ya) = y" "(xc, yb) = ya" "xa = c' # fr'"
  have "length (fst x) \<le> length fr"
    using mem_arg_length [of fr] by (auto simp: x case_prod_unfold)
  then show "((c', fr', xb @ [c'], len + 1, xc, yb), c, fr, to, len, um, mp) \<in> measure (\<lambda>(_, from, _). length from)"
    using e by auto
qed simp

declare parse_mem_loop.simps [simp del]

definition parse_mem_cmdline :: "cstr \<Rightarrow> region list \<Rightarrow> cstr \<times> region list" where
  "parse_mem_cmdline saved regions = parse_mem_loop 0x20 saved [] 0 False regions"

section \<open>Facts\<close>

lemma prom_scan_iff: "prom_scan n m p \<longleftrightarrow> length (cstr_at m p n) < n \<and> (\<forall>c\<in>set (cstr_at m p n). printable c)"
  by (induction n arbitrary: p) (auto simp: cstr_at_def get_bytes_Suc)

lemma prom_init_cmdline_eq:
  "prom_init_cmdline m = (let l = cstr_at m (BOOT_ARG_ADDR + 4) 255 in
     if get_bytes m BOOT_ARG_ADDR 4 = s2b ''BRCL'' \<and> length l < 255 \<and> (\<forall>c\<in>set l. printable c) then l else CONFIG_CMDLINE)"
  by (auto simp: prom_init_cmdline_def prom_scan_iff Let_def)

lemma CONFIG_CMDLINE_printable: "\<forall>c\<in>set CONFIG_CMDLINE. printable c"
  by (simp add: CONFIG_CMDLINE_def s2b_def printable_def)

lemma length_prom_init_cmdline: "length (prom_init_cmdline m) < COMMAND_LINE_SIZE"
  by (auto simp: prom_init_cmdline_eq Let_def CONFIG_CMDLINE_def s2b_def)

text \<open>No \<^verbatim>\<open>mem=\<close> argument starts in a line.\<close>

fun no_mem_arg :: "u8 \<Rightarrow> cstr \<Rightarrow> bool" where
  "no_mem_arg c [] = True"
| "no_mem_arg c (d # l) = (\<not> is_mem_arg c (d # l) \<and> no_mem_arg d l)"

lemma parse_mem_loop_plain:
  "no_mem_arg c from \<Longrightarrow> len + length from < 256 \<Longrightarrow> parse_mem_loop c from to len um regions = (to @ from, regions)"
proof (induction "from" arbitrary: c to len)
  case Nil
  then show ?case
    by (subst parse_mem_loop.simps) (simp add: is_mem_arg_def s2b_def)
next
  case (Cons d l)
  then show ?case
    by (subst parse_mem_loop.simps) simp
qed

lemma parse_mem_cmdline_plain:
  "no_mem_arg 0x20 l \<Longrightarrow> length l < 256 \<Longrightarrow> parse_mem_cmdline l regions = (l, regions)"
  by (simp add: parse_mem_cmdline_def parse_mem_loop_plain)

text \<open>
  What the memory probe reports on a machine whose memory repeats. With 8 MB the
  answer is right; with 4 MB the word at 4 MB is the word at 0, so the probe takes
  the branch for less than 4 MB and reports 2 MB; with 2 MB the word at 2 MB is also the
  word at 0, and it reports 1 MB.
\<close>

theorem psx_probe_ram_mirrored:
  assumes "sz \<in> {0x200000, 0x400000, 0x800000}"
  shows "fst (psx_probe_ram (\<lambda>a. phys a AND (sz - 1)) m) = (if sz = 0x800000 then sz else sz div 2)"
  using assms by (auto simp: psx_probe_ram_def Let_def phys_def)

theorem psx_probe_ram_mirrored_witness: "fst (psx_probe_ram (\<lambda>a. phys a AND 0x1FFFFF) (\<lambda>_. 0)) = 0x100000"
  using psx_probe_ram_mirrored [of "0x200000" "\<lambda>_. 0"] by simp

end
