(* ===== verification/Bootmem.thy ===== *)
theory Bootmem
  imports Prom
begin

text \<open>
  The boot-time allocator, \<^verbatim>\<open>mm/bootmem.c\<close>, as far as \<^verbatim>\<open>setup_arch\<close> of
  \<^verbatim>\<open>arch/mipsnommu/kernel/setup.c\<close> uses it, and that use: where the allocator starts,
  which pages it is given, and the initial ram disk that the tools append to the
  kernel image. \<open>None\<close> is \<^verbatim>\<open>BUG()\<close>. There is one node and it starts at page 0.
\<close>

section \<open>The allocator\<close>

text \<open>A set bit is a reserved page.\<close>

record bootmem =
  node_low_pfn :: nat
  node_bootmem_map :: "bool list"

definition bootmem_mapsize :: "nat \<Rightarrow> nat" where
  "bootmem_mapsize pages = (((pages + 7) div 8) + 3) div 4 * 4"

text \<open>
  The allocator, the size of its bitmap and the memory with the bitmap's bytes set.
  Later changes of bits stay within these bytes.
\<close>

definition init_bootmem :: "u32 \<Rightarrow> nat \<Rightarrow> mem \<Rightarrow> bootmem \<times> nat \<times> mem" where
  "init_bootmem start pages m =
    (let mapsize = bootmem_mapsize pages
     in (\<lparr>node_low_pfn = pages, node_bootmem_map = replicate (8 * mapsize) True\<rparr>, mapsize,
         put_bytes (push_bit 12 start) (replicate mapsize 0xff) m))"

fun clear_bits :: "nat list \<Rightarrow> bool list \<Rightarrow> bool list option" where
  "clear_bits [] b = Some b"
| "clear_bits (i # is) b = (if b ! i then clear_bits is (b[i := False]) else None)"

definition free_bootmem :: "u32 \<Rightarrow> u32 \<Rightarrow> bootmem \<Rightarrow> bootmem option" where
  "free_bootmem addr sz bd =
    (let eidx = unat ((addr + sz) div 4096);
         sidx = unat ((addr + 4096 - 1) div 4096) in
     if sz = 0 then None
     else if eidx > node_low_pfn bd then None
     else case clear_bits [sidx..<eidx] (node_bootmem_map bd) of
            None \<Rightarrow> None
          | Some b \<Rightarrow> Some (bd\<lparr>node_bootmem_map := b\<rparr>))"

definition reserve_bootmem :: "u32 \<Rightarrow> u32 \<Rightarrow> bootmem \<Rightarrow> bootmem option" where
  "reserve_bootmem addr sz bd =
    (let sidx = unat (addr div 4096);
         eidx = unat ((addr + sz + 4096 - 1) div 4096) in
     if sz = 0 then None
     else if eidx > node_low_pfn bd then None
     else Some (bd\<lparr>node_bootmem_map := fold (\<lambda>i b. b[i := True]) [sidx..<eidx] (node_bootmem_map bd)\<rparr>))"

section \<open>Handing memory to the allocator\<close>

definition PFN_UP :: "u32 \<Rightarrow> u32" where
  "PFN_UP x = drop_bit 12 (x + 4096 - 1)"

definition PFN_DOWN :: "u32 \<Rightarrow> u32" where
  "PFN_DOWN x = drop_bit 12 x"

definition PFN_PHYS :: "u32 \<Rightarrow> u32" where
  "PFN_PHYS x = push_bit 12 x"

abbreviation (input) INITRD_MAGIC :: u32 where "INITRD_MAGIC \<equiv> 0x494E5244"

text \<open>Where the header of an appended ram disk is, \<open>kend\<close> being the address of \<^verbatim>\<open>_end\<close>.\<close>

definition initrd_header_addr :: "u32 \<Rightarrow> u32" where
  "initrd_header_addr kend =
    (let p = ((kend + 4096 - 1) AND NOT (4096 - 1)) - 8 in if p < kend then p + 4096 else p)"

definition boot_start_pfn :: "mem \<Rightarrow> u32 \<Rightarrow> u32" where
  "boot_start_pfn m kend =
    (let start_pfn = PFN_UP kend;
         hdr = initrd_header_addr kend in
     if get32 m hdr = INITRD_MAGIC \<and> PFN_UP (hdr + 8 + get32 m (hdr + 4)) > start_pfn
     then PFN_UP (hdr + 8 + get32 m (hdr + 4)) else start_pfn)"

definition boot_max_pfn :: "region list \<Rightarrow> u32" where
  "boot_max_pfn regions =
    fold (\<lambda>(addr, sz, typ) max_pfn.
      if typ \<noteq> 1 \<or> PFN_UP addr \<ge> PFN_DOWN (addr + sz) then max_pfn
      else if PFN_DOWN (addr + sz) > max_pfn then PFN_DOWN (addr + sz) else max_pfn) regions 0"

fun free_regions :: "u32 \<Rightarrow> u32 \<Rightarrow> region list \<Rightarrow> bootmem \<Rightarrow> bootmem option" where
  "free_regions start_pfn max_pfn [] bd = Some bd"
| "free_regions start_pfn max_pfn ((addr, sz, typ) # rs) bd =
    (let curr_pfn = (if PFN_UP addr < start_pfn then start_pfn else PFN_UP addr);
         last_pfn = (if PFN_DOWN (addr + sz) > max_pfn then max_pfn else PFN_DOWN (addr + sz)) in
     if typ \<noteq> 1 \<or> PFN_UP addr \<ge> max_pfn \<or> last_pfn \<le> curr_pfn then free_regions start_pfn max_pfn rs bd
     else case free_bootmem (PFN_PHYS curr_pfn) (PFN_PHYS (last_pfn - curr_pfn)) bd of
            None \<Rightarrow> None
          | Some bd \<Rightarrow> free_regions start_pfn max_pfn rs bd)"

text \<open>The search after the allocator is set up: the bounds of the ram disk, if there is one that fits.\<close>

definition find_initrd :: "mem \<Rightarrow> u32 \<Rightarrow> u32 \<Rightarrow> bootmem \<Rightarrow> ((u32 \<times> u32) option \<times> bootmem) option" where
  "find_initrd m kend max_pfn bd =
    (let hdr = initrd_header_addr kend in
     if get32 m hdr = INITRD_MAGIC
     then let initrd_start = hdr + 8;
              initrd_end = initrd_start + get32 m (hdr + 4) in
          if initrd_end > PFN_PHYS max_pfn then Some (None, bd)
          else map_option (Pair (Some (initrd_start, initrd_end))) (reserve_bootmem hdr (initrd_end - hdr + 8) bd)
     else Some (None, bd))"

text \<open>The allocator, the ram disk and the memory after \<^verbatim>\<open>setup_arch\<close>.\<close>

definition setup_arch_mem :: "mem \<Rightarrow> u32 \<Rightarrow> region list \<Rightarrow> (bootmem \<times> (u32 \<times> u32) option \<times> mem) option" where
  "setup_arch_mem m kend regions =
    (let start_pfn = boot_start_pfn m kend;
         max_pfn = boot_max_pfn regions;
         (bd, bootmap_size, m) = init_bootmem start_pfn (unat max_pfn) m in
     Option.bind (free_regions start_pfn max_pfn regions bd) (\<lambda>bd.
     Option.bind (reserve_bootmem (PFN_PHYS start_pfn) (of_nat bootmap_size) bd) (\<lambda>bd.
     Option.bind (find_initrd m kend max_pfn bd) (\<lambda>(initrd, bd).
     Some (bd, initrd, m)))))"

section \<open>Page arithmetic\<close>

lemma unat_add_small: "unat a + unat b < 2 ^ 32 \<Longrightarrow> unat (a + b :: u32) = unat a + unat b"
  by (simp add: unat_word_ariths)

lemma drop_bit_12: "unat (drop_bit 12 (x :: u32)) = unat x div 4096"
  by (simp add: drop_bit_eq_div unat_div)

lemma unat_PFN_DOWN: "unat (PFN_DOWN x) = unat x div 4096"
  by (simp add: PFN_DOWN_def drop_bit_12)

lemma plus_page: "x + 4096 - 1 = x + (4095 :: u32)"
  by simp

lemma unat_PFN_UP:
  assumes "unat x + 4095 < 2 ^ 32"
  shows "unat (PFN_UP x) = (unat x + 4095) div 4096"
proof -
  have "unat (x + 4095) = unat x + 4095"
    using unat_add_small [of x 4095] assms by simp
  then show ?thesis
    unfolding PFN_UP_def drop_bit_12 plus_page by simp
qed

lemma unat_PFN_PHYS: "unat x * 4096 < 2 ^ 32 \<Longrightarrow> unat (PFN_PHYS x) = unat x * 4096"
  by (simp add: PFN_PHYS_def push_bit_eq_mult unat_word_ariths mult.commute)

lemma page_round: "(x :: u32) AND NOT 4095 = push_bit 12 (drop_bit 12 x)"
proof -
  have m: "(4095 :: u32) = mask 12"
    by (simp add: mask_eq_exp_minus_1)
  have "(x :: u32) AND NOT (mask 12) = push_bit 12 (drop_bit 12 x)"
    by (rule bit_word_eqI) (auto simp: bit_and_iff bit_not_iff bit_mask_iff bit_push_bit_iff bit_drop_bit_eq)
  then show ?thesis
    unfolding m .
qed

lemma initrd_header_nat:
  assumes "4096 \<le> unat kend" "unat kend + 8192 < 2 ^ 32"
  defines "h \<equiv> unat (initrd_header_addr kend)"
  shows "unat kend \<le> h" "h < unat kend + 4096" "(h + 8) mod 4096 = 0" "(unat kend + 4095) div 4096 * 4096 \<le> h + 8"
proof -
  let ?p = "(kend + 4096 - 1) AND NOT (4096 - 1) :: u32"
  define q where "q = (unat kend + 4095) div 4096"
  have "unat (kend + 4095) = unat kend + 4095"
    using unat_add_small [of kend 4095] assms by simp
  then have "unat (drop_bit 12 (kend + 4095)) = q"
    by (simp add: drop_bit_12 q_def)
  moreover have "q * 4096 < 2 ^ 32"
    using assms by (simp add: q_def)
  moreover have "?p = PFN_PHYS (drop_bit 12 (kend + 4095))"
    unfolding PFN_PHYS_def plus_page using page_round [of "kend + 4095"] by simp
  ultimately have p: "unat ?p = q * 4096"
    using unat_PFN_PHYS [of "drop_bit 12 (kend + 4095)"] by simp
  have q: "0 < q" "q * 4096 \<le> unat kend + 4095" "unat kend \<le> q * 4096"
    using assms by (auto simp: q_def)
  have p8: "unat (?p - 8) = q * 4096 - 8"
    using p q by (subst unat_sub) (simp_all add: word_le_nat_alt)
  have "unat (?p - 8 + 4096) = q * 4096 - 8 + 4096"
    using p8 q assms unat_add_small [of "?p - 8" 4096] by simp
  then have h: "h = (if q * 4096 - 8 < unat kend then q * 4096 - 8 + 4096 else q * 4096 - 8)"
    using p8 by (simp add: h_def initrd_header_addr_def Let_def word_less_nat_alt)
  show "unat kend \<le> h" "h < unat kend + 4096"
    using h q by auto
  show "(unat kend + 4095) div 4096 * 4096 \<le> h + 8"
    using h q unfolding q_def [symmetric] by auto
  have "h + 8 = (q + 1) * 4096 \<or> h + 8 = q * 4096"
    using h q by auto
  then show "(h + 8) mod 4096 = 0"
    by (metis mod_mult_self2_is_0)
qed

section \<open>Bitmaps\<close>

lemma clear_bits_upt:
  assumes "\<forall>i. a \<le> i \<and> i < e \<longrightarrow> b ! i" "e \<le> length b"
  shows "\<exists>b'. clear_bits [a..<e] b = Some b' \<and> length b' = length b \<and> (\<forall>i<length b. b' ! i \<longleftrightarrow> b ! i \<and> \<not> (a \<le> i \<and> i < e))"
  using assms
proof (induction "e - a" arbitrary: a b)
  case 0
  then show ?case by simp
next
  case (Suc k)
  then have "a < e" "k = e - Suc a" "b ! a" "a < length b"
    by auto
  moreover have "\<exists>b'. clear_bits [Suc a..<e] (b[a := False]) = Some b' \<and> length b' = length (b[a := False]) \<and>
      (\<forall>i<length (b[a := False]). b' ! i \<longleftrightarrow> b[a := False] ! i \<and> \<not> (Suc a \<le> i \<and> i < e))"
    using Suc.prems \<open>k = e - Suc a\<close> by (intro Suc.hyps(1)) (auto simp: nth_list_update)
  ultimately show ?case
    by (auto simp: upt_conv_Cons nth_list_update Suc_le_eq split: if_splits)
qed

lemma set_bits_upt:
  "e \<le> length b \<Longrightarrow> length (fold (\<lambda>i b. b[i := True]) [a..<e] b) = length b \<and>
     (\<forall>i<length b. fold (\<lambda>i b. b[i := True]) [a..<e] b ! i \<longleftrightarrow> b ! i \<or> a \<le> i \<and> i < e)"
proof (induction e)
  case (Suc e)
  then show ?case
    by (cases "a \<le> e") (auto simp: nth_list_update less_Suc_eq)
qed simp


definition bootmem_ok :: "bootmem \<Rightarrow> bool" where
  "bootmem_ok bd \<longleftrightarrow> node_low_pfn bd \<le> length (node_bootmem_map bd)"

lemma free_bootmem_pages:
  assumes "bootmem_ok bd" "unat s < unat M" "unat M * 4096 < 2 ^ 32" "unat M \<le> node_low_pfn bd"
    and "\<forall>i<length (node_bootmem_map bd). node_bootmem_map bd ! i"
  shows "\<exists>bd'. free_bootmem (PFN_PHYS s) (PFN_PHYS (M - s)) bd = Some bd' \<and> node_low_pfn bd' = node_low_pfn bd \<and>
    length (node_bootmem_map bd') = length (node_bootmem_map bd) \<and>
    (\<forall>i<length (node_bootmem_map bd). node_bootmem_map bd' ! i \<longleftrightarrow> \<not> (unat s \<le> i \<and> i < unat M))"
proof -
  have d: "unat (M - s) = unat M - unat s"
    using assms(2) by (simp add: unat_sub word_le_nat_alt)
  have p: "unat (PFN_PHYS s) = unat s * 4096" "unat (PFN_PHYS (M - s)) = (unat M - unat s) * 4096"
    using assms(2,3) unat_PFN_PHYS [of s] unat_PFN_PHYS [of "M - s"] d by auto
  have e: "unat ((PFN_PHYS s + PFN_PHYS (M - s)) div 4096) = unat M"
    using p assms(2,3) unat_add_small [of "PFN_PHYS s" "PFN_PHYS (M - s)"] by (simp add: unat_div)
  have "unat (PFN_PHYS s + 4095) = unat s * 4096 + 4095"
    using p(1) assms(2,3) unat_add_small [of "PFN_PHYS s" 4095] by simp
  then have b: "unat ((PFN_PHYS s + 4096 - 1) div 4096) = unat s"
    unfolding plus_page by (simp add: unat_div)
  have nz: "PFN_PHYS (M - s) \<noteq> 0"
    using p(2) assms(2) by (auto simp: unat_eq_0)
  obtain b' where "clear_bits [unat s..<unat M] (node_bootmem_map bd) = Some b'" "length b' = length (node_bootmem_map bd)"
      "\<forall>i<length (node_bootmem_map bd). b' ! i \<longleftrightarrow> node_bootmem_map bd ! i \<and> \<not> (unat s \<le> i \<and> i < unat M)"
    using clear_bits_upt [of "unat s" "unat M" "node_bootmem_map bd"] assms(1,4,5) by (auto simp: bootmem_ok_def)
  then show ?thesis
    using assms(4,5) nz unfolding free_bootmem_def Let_def e b by auto
qed

lemma reserve_bootmem_pages:
  assumes "bootmem_ok bd" "sz \<noteq> 0" "unat a + unat sz + 4095 < 2 ^ 32" "(unat a + unat sz + 4095) div 4096 \<le> node_low_pfn bd"
  shows "\<exists>bd'. reserve_bootmem a sz bd = Some bd' \<and> node_low_pfn bd' = node_low_pfn bd \<and>
    length (node_bootmem_map bd') = length (node_bootmem_map bd) \<and>
    (\<forall>i<length (node_bootmem_map bd). node_bootmem_map bd' ! i \<longleftrightarrow>
       node_bootmem_map bd ! i \<or> unat a div 4096 \<le> i \<and> i < (unat a + unat sz + 4095) div 4096)"
proof -
  have "unat (a + sz) = unat a + unat sz"
    using assms(3) unat_add_small [of a sz] by simp
  then have "unat (a + sz + 4095) = unat a + unat sz + 4095"
    using assms(3) unat_add_small [of "a + sz" 4095] by simp
  then have "unat ((a + sz + 4096 - 1) div 4096) = (unat a + unat sz + 4095) div 4096" "unat (a div 4096) = unat a div 4096"
    unfolding plus_page by (simp_all add: unat_div)
  then show ?thesis
    using assms(1,2,4) set_bits_upt [of "(unat a + unat sz + 4095) div 4096" "node_bootmem_map bd" "unat a div 4096"]
    unfolding reserve_bootmem_def Let_def by (auto simp: bootmem_ok_def)
qed

lemma boot_start_nat:
  assumes "4096 \<le> unat kend" "unat kend + 8192 < 2 ^ 32" "get32 m (initrd_header_addr kend) = INITRD_MAGIC"
    and "unat (initrd_header_addr kend) + 8 + unat (get32 m (initrd_header_addr kend + 4)) + 4095 < 2 ^ 32"
  shows "unat (boot_start_pfn m kend) =
    (unat (initrd_header_addr kend) + 8 + unat (get32 m (initrd_header_addr kend + 4)) + 4095) div 4096"
proof -
  let ?h = "initrd_header_addr kend" and ?n = "get32 m (initrd_header_addr kend + 4)"
  note h = initrd_header_nat [OF assms(1,2)]
  have h8: "unat (?h + 8) = unat ?h + 8"
    using unat_add_small [of ?h 8] h(2) assms(2) by simp
  then have "unat (?h + 8 + ?n) = unat ?h + 8 + unat ?n"
    using unat_add_small [of "?h + 8" ?n] assms(4) by simp
  then have u: "unat (PFN_UP (?h + 8 + ?n)) = (unat ?h + 8 + unat ?n + 4095) div 4096"
    using unat_PFN_UP [of "?h + 8 + ?n"] assms(4) by simp
  have k: "unat (PFN_UP kend) = (unat kend + 4095) div 4096"
    using unat_PFN_UP [of kend] assms(2) by simp
  have "(unat kend + 4095) div 4096 \<le> (unat ?h + 8) div 4096"
    using h(4) by (simp add: less_eq_div_iff_mult_less_eq)
  also have "\<dots> \<le> (unat ?h + 8 + unat ?n + 4095) div 4096"
    by (rule div_le_mono) simp
  finally show ?thesis
    using u k assms(3) by (simp add: boot_start_pfn_def Let_def word_less_nat_alt)
qed

lemma bootmem_mapsize_bounds:
  "pages \<le> 8 * bootmem_mapsize pages" "0 < pages \<Longrightarrow> 0 < bootmem_mapsize pages" "pages \<le> 32768 \<Longrightarrow> bootmem_mapsize pages \<le> 4096"
  by (auto simp: bootmem_mapsize_def)

section \<open>The ram disk\<close>

lemma boot_max_pfn_one: "PFN_DOWN sz \<noteq> 0 \<Longrightarrow> boot_max_pfn [(0, sz, 1)] = PFN_DOWN sz"
  by (auto simp: boot_max_pfn_def PFN_UP_def word_neq_0_conv)

lemma free_regions_one:
  assumes "unat s < unat (PFN_DOWN sz)"
  shows "free_regions s (PFN_DOWN sz) [(0, sz, 1)] bd = free_bootmem (PFN_PHYS s) (PFN_PHYS (PFN_DOWN sz - s)) bd"
proof -
  have "PFN_UP 0 = 0" "PFN_DOWN sz \<noteq> 0"
    using assms by (auto simp: PFN_UP_def)
  moreover have "s = 0 \<or> 0 < s"
    by (simp add: word_neq_0_conv [symmetric])
  ultimately show ?thesis
    using assms by (elim disjE) (simp_all add: Let_def word_le_nat_alt split: option.split)
qed

lemma clear_bits_only: "clear_bits is b = Some b' \<Longrightarrow> \<not> b' ! i \<Longrightarrow> i < length b \<Longrightarrow> \<not> b ! i \<or> i \<in> set is"
  by (induction "is" b rule: clear_bits.induct) (auto split: if_splits, metis nth_list_update_neq)

lemma clear_bits_length: "clear_bits is b = Some b' \<Longrightarrow> length b' = length b"
  by (induction "is" b rule: clear_bits.induct) (auto split: if_splits)

lemma reserve_bootmem_keeps:
  assumes "reserve_bootmem a sz bd = Some bd'" "\<not> node_bootmem_map bd' ! i" "i < length (node_bootmem_map bd')"
  shows "\<not> node_bootmem_map bd ! i \<and> length (node_bootmem_map bd') = length (node_bootmem_map bd)"
proof -
  have "length (fold (\<lambda>i b. b[i := True]) is b) = length b" "fold (\<lambda>i b. b[i := True]) is b ! i \<or> \<not> b ! i \<or> length b \<le> i" for "is" b
  proof (induction "is" arbitrary: b)
    case (Cons j js)
    {
      case 1
      then show ?case using Cons(1) by simp
    next
      case 2
      then show ?case using Cons(2) [of "b[j := True]"] by (cases "i = j") auto
    }
  qed auto
  then show ?thesis
    using assms by (fastforce simp: reserve_bootmem_def Let_def split: if_splits)
qed

lemma free_bootmem_below:
  assumes "free_bootmem a sz bd = Some bd'" "\<not> node_bootmem_map bd' ! i" "i < length (node_bootmem_map bd')"
  shows "\<not> node_bootmem_map bd ! i \<and> i < length (node_bootmem_map bd) \<or> i < node_low_pfn bd"
proof -
  obtain x e b' where "e \<le> node_low_pfn bd" "clear_bits [x..<e] (node_bootmem_map bd) = Some b'" "node_bootmem_map bd' = b'"
    using assms(1) by (fastforce simp: free_bootmem_def Let_def not_less split: if_splits option.splits)
  then show ?thesis
    using assms(2,3) clear_bits_only [of "[x..<e]" "node_bootmem_map bd" b' i] clear_bits_length [of "[x..<e]" "node_bootmem_map bd" b'] by auto
qed

text \<open>Whatever the allocator considers free lies in the region that was declared.\<close>

lemma setup_arch_free_below:
  assumes "setup_arch_mem m kend [(0, sz, 1)] = Some (bd, ird, m')" "i < length (node_bootmem_map bd)" "\<not> node_bootmem_map bd ! i"
  shows "(i + 1) * 4096 \<le> unat sz"
proof -
  let ?s = "boot_start_pfn m kend" and ?M = "boot_max_pfn [(0, sz, 1)]"
  let ?k = "bootmem_mapsize (unat ?M)"
  let ?b = "\<lparr>node_low_pfn = unat ?M, node_bootmem_map = replicate (8 * ?k) True\<rparr>"
  obtain m1 bd1 bd2 where a: "free_regions ?s ?M [(0, sz, 1)] ?b = Some bd1" "reserve_bootmem (PFN_PHYS ?s) (of_nat ?k) bd1 = Some bd2"
      "find_initrd m1 kend ?M bd2 = Some (ird, bd)"
    using assms(1) by (auto simp: setup_arch_mem_def init_bootmem_def Let_def bind_eq_Some_conv simp del: free_regions.simps)
  have "\<not> node_bootmem_map bd2 ! i" "length (node_bootmem_map bd) = length (node_bootmem_map bd2)"
    using a(3) assms(2,3) reserve_bootmem_keeps [where i = i] by (auto simp: find_initrd_def Let_def split: if_splits)
  then have f: "\<not> node_bootmem_map bd1 ! i" "i < length (node_bootmem_map bd1)"
    using a(2) assms(2) reserve_bootmem_keeps [where i = i] by auto
  have "bd1 = ?b \<or> (\<exists>a z. free_bootmem a z ?b = Some bd1)"
    using a(1) by (auto simp: Let_def split: if_splits option.splits)
  then have "i < unat ?M"
    using f free_bootmem_below [of _ _ ?b bd1 i] by fastforce
  moreover have "unat ?M \<le> unat sz div 4096"
    by (auto simp: boot_max_pfn_def unat_PFN_DOWN)
  ultimately show ?thesis
    by auto
qed

text \<open>What \<^verbatim>\<open>setup_arch\<close> sees of an appended ram disk of \<open>n\<close> bytes in \<open>sz\<close> bytes of memory.\<close>

definition initrd_fits :: "mem \<Rightarrow> u32 \<Rightarrow> u32 \<Rightarrow> bool" where
  "initrd_fits m kend sz \<longleftrightarrow>
    4096 \<le> unat kend \<and> unat kend \<le> unat sz \<and> unat sz \<le> 2 ^ 27 \<and> unat sz mod 4096 = 0 \<and> get32 m (initrd_header_addr kend) = INITRD_MAGIC \<and>
    unat (initrd_header_addr kend) + 8 + unat (get32 m (initrd_header_addr kend + 4)) + 8192 \<le> unat sz"

lemma initrd_below_bitmap:
  assumes "initrd_fits m kend sz" "p \<in> span (initrd_header_addr kend) (8 + unat (get32 m (initrd_header_addr kend + 4)))" "k \<le> 4096"
  shows "p \<notin> span (PFN_PHYS (boot_start_pfn m kend)) k"
proof -
  let ?h = "unat (initrd_header_addr kend)" and ?n = "unat (get32 m (initrd_header_addr kend + 4))"
  have f: "4096 \<le> unat kend" "?h + 8 + ?n + 8192 \<le> 2 ^ 27" "get32 m (initrd_header_addr kend) = INITRD_MAGIC"
    using assms(1) by (auto simp: initrd_fits_def)
  have k: "unat kend + 8192 < 2 ^ 32"
    using assms(1) by (simp add: initrd_fits_def)
  have s: "unat (boot_start_pfn m kend) = (?h + 8 + ?n + 4095) div 4096"
    using boot_start_nat [OF f(1) k f(3)] f(2) by simp
  then have "unat (PFN_PHYS (boot_start_pfn m kend)) = (?h + 8 + ?n + 4095) div 4096 * 4096"
    using unat_PFN_PHYS [of "boot_start_pfn m kend"] f(2) by simp
  moreover have "unat (phys x) = unat x" if "unat x < 2 ^ 29" for x
    using that by (simp add: unat_phys)
  ultimately have "unat (phys (initrd_header_addr kend)) + (8 + ?n) \<le> unat (phys (PFN_PHYS (boot_start_pfn m kend)))"
      "unat (phys (PFN_PHYS (boot_start_pfn m kend))) + k \<le> 2 ^ 29"
    using f(2) assms(3) by simp_all
  from span_disjoint [OF this] assms(2) show ?thesis
    by blast
qed


lemma find_initrd_sound:
  assumes "initrd_fits m kend sz" "bootmem_ok bd" "node_low_pfn bd = unat (PFN_DOWN sz)"
  shows "\<exists>bd'. find_initrd m kend (PFN_DOWN sz) bd =
      Some (Some (initrd_header_addr kend + 8, initrd_header_addr kend + 8 + get32 m (initrd_header_addr kend + 4)), bd') \<and>
    length (node_bootmem_map bd') = length (node_bootmem_map bd) \<and>
    (\<forall>i<length (node_bootmem_map bd). node_bootmem_map bd ! i \<longrightarrow> node_bootmem_map bd' ! i)"
proof -
  let ?h = "initrd_header_addr kend" and ?n = "get32 m (initrd_header_addr kend + 4)"
  have f: "unat ?h + 8 + unat ?n + 8192 \<le> unat sz" "unat sz \<le> 2 ^ 27" "unat sz mod 4096 = 0" "get32 m ?h = INITRD_MAGIC"
    using assms(1) by (auto simp: initrd_fits_def)
  have h8: "unat (?h + 8) = unat ?h + 8"
    using unat_add_small [of ?h 8] f by simp
  have e: "unat (?h + 8 + ?n) = unat ?h + 8 + unat ?n"
    using unat_add_small [of "?h + 8" ?n] h8 f by simp
  have M: "unat (PFN_PHYS (PFN_DOWN sz)) = unat sz"
    using unat_PFN_PHYS [of "PFN_DOWN sz"] f div_mult_mod_eq [of "unat sz" 4096] by (simp add: unat_PFN_DOWN)
  have l: "?h + 8 + ?n - ?h + 8 = 16 + ?n"
    by simp
  have n: "unat (16 + ?n) = 16 + unat ?n"
    using unat_add_small [of 16 ?n] f by simp
  have "(unat ?h + unat (16 + ?n) + 4095) div 4096 \<le> unat sz div 4096"
    using f n by (intro div_le_mono) simp
  then have "(unat ?h + unat (16 + ?n) + 4095) div 4096 \<le> node_low_pfn bd"
    by (simp add: assms(3) unat_PFN_DOWN)
  moreover have "16 + ?n \<noteq> 0" "unat ?h + unat (16 + ?n) + 4095 < 2 ^ 32"
    using n f by (auto simp: unat_eq_0 [symmetric])
  ultimately obtain bd' where "reserve_bootmem ?h (16 + ?n) bd = Some bd'" "length (node_bootmem_map bd') = length (node_bootmem_map bd)"
      "\<forall>i<length (node_bootmem_map bd). node_bootmem_map bd ! i \<longrightarrow> node_bootmem_map bd' ! i"
    using reserve_bootmem_pages [OF assms(2)] by blast
  then show ?thesis
    using f e M l by (simp add: find_initrd_def Let_def word_less_nat_alt)
qed


lemma alloc_pages:
  assumes "unat s + 1 \<le> unat (PFN_DOWN sz)" "unat (PFN_DOWN sz) \<le> 32768"
  defines "k \<equiv> bootmem_mapsize (unat (PFN_DOWN sz))"
  shows "\<exists>bd1 bd. free_regions s (PFN_DOWN sz) [(0, sz, 1)]
        \<lparr>node_low_pfn = unat (PFN_DOWN sz), node_bootmem_map = replicate (8 * k) True\<rparr> = Some bd1 \<and>
    reserve_bootmem (PFN_PHYS s) (of_nat k) bd1 = Some bd \<and> bootmem_ok bd \<and> node_low_pfn bd = unat (PFN_DOWN sz) \<and>
    length (node_bootmem_map bd) = 8 * k \<and>
    (\<forall>i<8 * k. \<not> node_bootmem_map bd ! i \<longrightarrow> unat s \<le> i \<and> i < unat (PFN_DOWN sz))"
proof -
  let ?M = "PFN_DOWN sz" and ?b = "\<lparr>node_low_pfn = unat (PFN_DOWN sz), node_bootmem_map = replicate (8 * k) True\<rparr>"
  note k = bootmem_mapsize_bounds [of "unat ?M", folded k_def]
  have "bootmem_ok ?b" "unat s < unat ?M" "unat ?M * 4096 < 2 ^ 32"
    using k assms by (simp_all add: bootmem_ok_def)
  from free_bootmem_pages [OF this] obtain bd1 where bd1: "free_bootmem (PFN_PHYS s) (PFN_PHYS (?M - s)) ?b = Some bd1"
      "node_low_pfn bd1 = unat ?M" "length (node_bootmem_map bd1) = 8 * k"
      "\<forall>i<8 * k. node_bootmem_map bd1 ! i \<longleftrightarrow> \<not> (unat s \<le> i \<and> i < unat ?M)"
    by auto
  have ks: "unat (of_nat k :: u32) = k" "0 < k"
    using k assms by (auto simp: unat_of_nat take_bit_nat_eq_self)
  then have "(of_nat k :: u32) \<noteq> 0"
    by (metis neq0_conv unat_0)
  moreover have p: "unat (PFN_PHYS s) = unat s * 4096"
    using unat_PFN_PHYS [of s] assms by simp
  have "(unat s * 4096 + k + 4095) div 4096 \<le> unat s + 1"
    using k assms(2) by simp
  then have "(unat (PFN_PHYS s) + unat (of_nat k :: u32) + 4095) div 4096 \<le> node_low_pfn bd1"
      "unat (PFN_PHYS s) + unat (of_nat k :: u32) + 4095 < 2 ^ 32"
    using p ks k bd1(2) assms by simp_all
  moreover have "bootmem_ok bd1"
    using bd1(2,3) k(1) by (simp add: bootmem_ok_def)
  ultimately obtain bd where bd: "reserve_bootmem (PFN_PHYS s) (of_nat k) bd1 = Some bd" "node_low_pfn bd = node_low_pfn bd1"
      "length (node_bootmem_map bd) = 8 * k" "\<forall>i<8 * k. node_bootmem_map bd1 ! i \<longrightarrow> node_bootmem_map bd ! i"
    using reserve_bootmem_pages [of bd1 "of_nat k" "PFN_PHYS s"] bd1(3) by auto
  have "free_regions s ?M [(0, sz, 1)] ?b = Some bd1"
    using free_regions_one [of s sz ?b] bd1(1) assms(1) by simp
  moreover have "bootmem_ok bd"
    using bd(2,3) bd1(2) k(1) by (simp add: bootmem_ok_def)
  moreover have "\<forall>i<8 * k. \<not> node_bootmem_map bd ! i \<longrightarrow> unat s \<le> i \<and> i < unat ?M"
    using bd(4) bd1(4) by auto
  ultimately show ?thesis
    using bd(1-3) bd1(2) by (intro exI [of _ bd1] exI [of _ bd]) simp
qed

lemma setup_arch_initrd:
  assumes "initrd_fits m kend sz"
  shows "\<exists>bd m'. setup_arch_mem m kend [(0, sz, 1)] =
      Some (bd, Some (initrd_header_addr kend + 8, initrd_header_addr kend + 8 + get32 m (initrd_header_addr kend + 4)), m') \<and>
    get_bytes m' (initrd_header_addr kend + 8) (unat (get32 m (initrd_header_addr kend + 4))) =
      get_bytes m (initrd_header_addr kend + 8) (unat (get32 m (initrd_header_addr kend + 4))) \<and>
    (\<forall>i<length (node_bootmem_map bd). \<not> node_bootmem_map bd ! i \<longrightarrow>
       unat (initrd_header_addr kend) + 8 + unat (get32 m (initrd_header_addr kend + 4)) \<le> i * 4096 \<and> (i + 1) * 4096 \<le> unat sz)"
proof -
  let ?h = "initrd_header_addr kend" and ?n = "get32 m (initrd_header_addr kend + 4)" and ?M = "PFN_DOWN sz"
  let ?s = "boot_start_pfn m kend"
  have f: "unat ?h + 8 + unat ?n + 8192 \<le> unat sz" "unat sz \<le> 2 ^ 27" "unat sz mod 4096 = 0" "get32 m ?h = INITRD_MAGIC"
      "4096 \<le> unat kend" "unat kend + 8192 < 2 ^ 32"
    using assms by (auto simp: initrd_fits_def)
  have s: "unat ?s = (unat ?h + 8 + unat ?n + 4095) div 4096"
    using boot_start_nat [OF f(5,6,4)] f by simp
  have sM: "unat ?s < unat ?M" "unat ?M * 4096 = unat sz" "unat ?M \<le> 32768"
    using s f div_mult_mod_eq [of "unat sz" 4096] by (simp_all add: unat_PFN_DOWN)
  define k where "k = bootmem_mapsize (unat ?M)"
  define m' where "m' = put_bytes (PFN_PHYS ?s) (replicate k 0xff) m"
  have k4: "k \<le> 4096"
    using bootmem_mapsize_bounds(3) sM(3) by (simp add: k_def)
  obtain bd1 bd2 where a: "free_regions ?s ?M [(0, sz, 1)] \<lparr>node_low_pfn = unat ?M, node_bootmem_map = replicate (8 * k) True\<rparr> = Some bd1"
      "reserve_bootmem (PFN_PHYS ?s) (of_nat k) bd1 = Some bd2" "bootmem_ok bd2" "node_low_pfn bd2 = unat ?M"
      "length (node_bootmem_map bd2) = 8 * k" "\<forall>i<8 * k. \<not> node_bootmem_map bd2 ! i \<longrightarrow> unat ?s \<le> i \<and> i < unat ?M"
    using alloc_pages [of ?s sz] sM by (auto simp: k_def)
  have same: "m' p = m p" if "p \<in> span ?h (8 + unat ?n)" for p
    using initrd_below_bitmap [OF assms that k4] by (simp add: m'_def put_bytes_other)
  have sub: "span ?h 4 \<subseteq> span ?h (8 + unat ?n)" "span (?h + 4) 4 \<subseteq> span ?h (8 + unat ?n)" "span (?h + 8) (unat ?n) \<subseteq> span ?h (8 + unat ?n)"
    using span_add [of ?h 4 "4 + unat ?n"] span_add [of ?h 8 "unat ?n"] span_add [of "?h + 4" 4 "unat ?n"] by (auto simp: add.assoc)
  have hdr: "get32 m' ?h = get32 m ?h" "get32 m' (?h + 4) = ?n"
    using sub same by (auto intro!: get32_same)
  have "initrd_fits m' kend sz"
    using assms hdr by (simp add: initrd_fits_def)
  from find_initrd_sound [OF this a(3,4)] obtain bd where b: "find_initrd m' kend ?M bd2 = Some (Some (?h + 8, ?h + 8 + ?n), bd)"
      "length (node_bootmem_map bd) = 8 * k" "\<forall>i<8 * k. node_bootmem_map bd2 ! i \<longrightarrow> node_bootmem_map bd ! i"
    using hdr a(5) by auto
  have "boot_max_pfn [(0, sz, 1)] = ?M"
    using sM(1) by (intro boot_max_pfn_one) auto
  then have "setup_arch_mem m kend [(0, sz, 1)] = Some (bd, Some (?h + 8, ?h + 8 + ?n), m')"
    using a(1,2) b(1) by (simp add: setup_arch_mem_def init_bootmem_def Let_def k_def [symmetric] PFN_PHYS_def [symmetric] m'_def [symmetric]
      del: free_regions.simps)
  moreover have "get_bytes m' (?h + 8) (unat ?n) = get_bytes m (?h + 8) (unat ?n)"
    using sub(3) same by (intro nth_equalityI) (auto simp: span_def)
  moreover have "\<forall>i<length (node_bootmem_map bd). \<not> node_bootmem_map bd ! i \<longrightarrow>
      unat ?h + 8 + unat ?n \<le> i * 4096 \<and> (i + 1) * 4096 \<le> unat sz"
  proof (intro allI impI)
    fix i assume i: "i < length (node_bootmem_map bd)" "\<not> node_bootmem_map bd ! i"
    have "unat ?s \<le> i" "i < unat ?M"
      using i b(2,3) a(6) by auto
    then show "unat ?h + 8 + unat ?n \<le> i * 4096 \<and> (i + 1) * 4096 \<le> unat sz"
      using s sM(2) by auto
  qed
  ultimately show ?thesis
    by (intro exI [of _ bd] exI [of _ m'] conjI)
qed

text \<open>
  C6: A ram disk appended to the kernel survives \<^verbatim>\<open>setup_arch\<close>. When the header is on
  the page boundary after the kernel and the disk ends two pages below the end
  of the memory declared, \<^verbatim>\<open>setup_arch\<close> completes without a \<^verbatim>\<open>BUG()\<close>, finds exactly that
  disk, leaves its bytes as they were (the allocator's bitmap is written above it),
  and every page the allocator considers free lies above the disk and below
  the end of the declared memory.
\<close>

theorem initrd_survives:
  assumes "initrd_fits m kend sz"
  shows "\<exists>bd m'. setup_arch_mem m kend [(0, sz, 1)] =
      Some (bd, Some (initrd_header_addr kend + 8, initrd_header_addr kend + 8 + get32 m (initrd_header_addr kend + 4)), m') \<and>
    get_bytes m' (initrd_header_addr kend + 8) (unat (get32 m (initrd_header_addr kend + 4))) =
      get_bytes m (initrd_header_addr kend + 8) (unat (get32 m (initrd_header_addr kend + 4))) \<and>
    (\<forall>i<length (node_bootmem_map bd). \<not> node_bootmem_map bd ! i \<longrightarrow>
       unat (initrd_header_addr kend) + 8 + unat (get32 m (initrd_header_addr kend + 4)) \<le> i * 4096 \<and> (i + 1) * 4096 \<le> unat sz)"
  by (rule setup_arch_initrd [OF assms])

definition initrd_demo :: mem where
  "initrd_demo = put_bytes 0x150FF8 (le32_encode INITRD_MAGIC @ le32_encode 100) (\<lambda>_. 0x55)"

lemma initrd_demo: "initrd_header_addr 0x150000 = 0x150FF8" "get32 initrd_demo 0x150FF8 = INITRD_MAGIC" "get32 initrd_demo 0x150FFC = 100"
proof -
  let ?b = "le32_encode INITRD_MAGIC @ le32_encode 100"
  show "initrd_header_addr 0x150000 = 0x150FF8"
    by (simp add: initrd_header_addr_def)
  have "get_bytes initrd_demo 0x150FF8 8 = ?b"
    unfolding initrd_demo_def by (rule get_put_bytes) simp_all
  then have "get_bytes initrd_demo 0x150FF8 4 @ get_bytes initrd_demo 0x150FFC 4 = ?b"
    using get_bytes_add [of initrd_demo "0x150FF8" 4 4] by simp
  then have "get_bytes initrd_demo 0x150FF8 4 = le32_encode INITRD_MAGIC" "get_bytes initrd_demo 0x150FFC 4 = le32_encode 100"
    by simp_all
  then show "get32 initrd_demo 0x150FF8 = INITRD_MAGIC" "get32 initrd_demo 0x150FFC = 100"
    by (simp_all add: get32_def)
qed

theorem initrd_survives_witness:
  "\<exists>bd m'. setup_arch_mem initrd_demo 0x150000 [(0, 0x1D0000, 1)] = Some (bd, Some (0x151000, 0x151064), m') \<and>
    get_bytes m' 0x151000 100 = get_bytes initrd_demo 0x151000 100"
proof -
  have "initrd_fits initrd_demo 0x150000 0x1D0000"
    by (simp add: initrd_fits_def initrd_demo)
  from initrd_survives [OF this] show ?thesis
    by (auto simp: initrd_demo)
qed

end
