(* ===== verification/BinfmtFixed.thy ===== *)
theory BinfmtFixed
  imports Bootmem
begin

text \<open>
  The loader for statically linked programs, \<^verbatim>\<open>fs/binfmt_fixed.c\<close>: the checks on the
  ELF image, the segments copied to the addresses they were linked for, and the
  argument block at the top of the reserved window. The file is what
  \<^verbatim>\<open>kernel_read\<close> returns, an argument; so are the outcomes of \<^verbatim>\<open>kmalloc\<close> and
  \<^verbatim>\<open>flush_old_exec\<close>.
\<close>

section \<open>ELF structures\<close>

record elfhdr =
  e_ident :: "u8 list"
  e_type :: u16
  e_machine :: u16
  e_entry :: u32
  e_phoff :: u32
  e_phnum :: u16

record elf_phdr =
  p_type :: u32
  p_offset :: u32
  p_vaddr :: u32
  p_filesz :: u32
  p_memsz :: u32

definition elfhdr_of :: "u8 list \<Rightarrow> elfhdr" where
  "elfhdr_of b = \<lparr>e_ident = take 16 b, e_type = le16_at b 16, e_machine = le16_at b 18, e_entry = le32_at b 24,
     e_phoff = le32_at b 28, e_phnum = le16_at b 44\<rparr>"

definition phdr_of :: "u8 list \<Rightarrow> nat \<Rightarrow> elf_phdr" where
  "phdr_of b i = \<lparr>p_type = le32_at b (32 * i), p_offset = le32_at b (32 * i + 4), p_vaddr = le32_at b (32 * i + 8),
     p_filesz = le32_at b (32 * i + 16), p_memsz = le32_at b (32 * i + 20)\<rparr>"

abbreviation (input) ENOEXEC :: int where "ENOEXEC \<equiv> 8"
abbreviation (input) ENOMEM :: int where "ENOMEM \<equiv> 12"
abbreviation (input) EACCES :: int where "EACCES \<equiv> 13"
abbreviation (input) EIO :: int where "EIO \<equiv> 5"
abbreviation (input) PT_LOAD :: u32 where "PT_LOAD \<equiv> 1"
abbreviation (input) BLACKROO_STACK_SIZE :: u32 where "BLACKROO_STACK_SIZE \<equiv> 0x3000"

text \<open>\<^verbatim>\<open>blackroo-user.h\<close>: the end of the window and its size fix its base.\<close>

definition BLACKROO_USER_TOP :: "ram_config \<Rightarrow> u32" where
  "BLACKROO_USER_TOP conf = (case conf of RAM_8MB \<Rightarrow> 0x00800000 | RAM_4MB \<Rightarrow> 0x00400000 | _ \<Rightarrow> 0x00200000)"

definition BLACKROO_USER_BASE :: "ram_config \<Rightarrow> u32 \<Rightarrow> u32" where
  "BLACKROO_USER_BASE conf usize = BLACKROO_USER_TOP conf - usize"

section \<open>The argument block\<close>

definition putstring :: "u32 \<Rightarrow> cstr \<Rightarrow> mem \<Rightarrow> u32 \<times> mem" where
  "putstring p s m = (let p = p - of_nat (length s + 1) in (p, put_bytes p (s @ [0]) m))"

text \<open>The array is stored from its last string to its first.\<close>

definition putstringarray :: "u32 \<Rightarrow> cstr list \<Rightarrow> mem \<Rightarrow> u32 \<times> mem" where
  "putstringarray p array m = foldr (\<lambda>s (p, m). putstring p s m) array (p, m)"

text \<open>\<^verbatim>\<open>while (*p++) ;\<close>\<close>

partial_function (option) skip_string :: "mem \<Rightarrow> u32 \<Rightarrow> u32 option" where
  "skip_string m p = (if m (phys p) = 0 then Some (p + 1) else skip_string m (p + 1))"

fun put_pointers :: "nat \<Rightarrow> u32 \<Rightarrow> u32 \<Rightarrow> mem \<Rightarrow> (u32 \<times> mem) option" where
  "put_pointers 0 t p m = Some (p, put32 t 0 m)"
| "put_pointers (Suc n) t p m =
    (let m = put32 t p m in
     case skip_string m p of None \<Rightarrow> None | Some p \<Rightarrow> put_pointers n (t + 4) p m)"

text \<open>The stack pointer, and \<^verbatim>\<open>arg_start\<close>, \<^verbatim>\<open>arg_end\<close>, \<^verbatim>\<open>env_end\<close>.\<close>

definition create_fixed_tables :: "u32 \<Rightarrow> nat \<Rightarrow> nat \<Rightarrow> mem \<Rightarrow> (u32 \<times> (u32 \<times> u32 \<times> u32) \<times> mem) option" where
  "create_fixed_tables p argc envc m =
    (let sp = p AND NOT 3;
         sp = sp - of_nat (4 * (envc + 1));
         envp = sp;
         sp = sp - of_nat (4 * (argc + 1));
         argv = sp;
         sp = sp - 4;
         m = put32 sp (of_nat argc) m in
     case put_pointers argc argv p m of
       None \<Rightarrow> None
     | Some (p1, m) \<Rightarrow>
        (case put_pointers envc envp p1 m of
           None \<Rightarrow> None
         | Some (p2, m) \<Rightarrow> Some (sp, (p, p1, p2), m)))"

definition fixed_stack :: "u32 \<Rightarrow> cstr \<Rightarrow> cstr list \<Rightarrow> cstr list \<Rightarrow> mem \<Rightarrow> (u32 \<times> (u32 \<times> u32 \<times> u32) \<times> mem) option" where
  "fixed_stack uend filename argv envp m =
    (let stack_top = uend - 16;
         (p, m) = putstringarray stack_top [filename] m;
         (p, m) = putstringarray p envp m;
         (p, m) = putstringarray p argv m
     in create_fixed_tables p (length argv) (length envp) m)"

section \<open>Loading\<close>

text \<open>The check of all segments: the lowest and highest address and the number of segments, or a refusal.\<close>

fun check_segments :: "u32 \<Rightarrow> u32 \<Rightarrow> elf_phdr list \<Rightarrow> u32 \<Rightarrow> u32 \<Rightarrow> nat \<Rightarrow> (u32 \<times> u32 \<times> nat) option" where
  "check_segments ubase uend [] low high nload = Some (low, high, nload)"
| "check_segments ubase uend (ph # phs) low high nload =
    (if p_type ph \<noteq> PT_LOAD then check_segments ubase uend phs low high nload
     else let start = p_vaddr ph; fin = start + p_memsz ph in
          if start < ubase \<or> fin > uend - BLACKROO_STACK_SIZE then None
          else check_segments ubase uend phs (if start < low then start else low) (if fin > high then fin else high) (nload + 1))"

text \<open>The copy: an error code (the process has been killed) or the memory.\<close>

fun load_segments :: "(u32 \<Rightarrow> nat \<Rightarrow> int + u8 list) \<Rightarrow> elf_phdr list \<Rightarrow> mem \<Rightarrow> int \<times> mem" where
  "load_segments kread [] m = (0, m)"
| "load_segments kread (ph # phs) m =
    (if p_type ph \<noteq> PT_LOAD then load_segments kread phs m
     else let (err, m) =
       (if p_filesz ph \<noteq> 0
        then case kread (p_offset ph) (unat (p_filesz ph)) of
               Inl e \<Rightarrow> (e, m)
             | Inr bs \<Rightarrow> (if length bs \<noteq> unat (p_filesz ph) then - EIO else 0, put_bytes (p_vaddr ph) bs m)
        else (0, m)) in
     if err \<noteq> 0 then (err, m)
     else load_segments kread phs
       (if p_memsz ph > p_filesz ph
        then put_bytes (p_vaddr ph + p_filesz ph) (replicate (unat (p_memsz ph - p_filesz ph)) 0) m else m))"

record exec_image =
  x_low :: u32
  x_high :: u32
  x_entry :: u32
  x_sp :: u32
  x_args :: "u32 \<times> u32 \<times> u32"

datatype exec_result = Refused int | Killed int | Started exec_image

definition load_fixed_binary ::
  "u32 \<Rightarrow> u32 \<Rightarrow> (u32 \<Rightarrow> nat \<Rightarrow> int + u8 list) \<Rightarrow> bool \<Rightarrow> bool \<Rightarrow> int \<Rightarrow> u8 list \<Rightarrow> cstr \<Rightarrow> cstr list \<Rightarrow> cstr list \<Rightarrow> mem \<Rightarrow>
   (exec_result \<times> mem) option" where
  "load_fixed_binary ubase uend kread has_read kmalloc_ok flush buf filename argv envp m =
    (let elf = elfhdr_of buf;
         phsize = 32 * unat (e_phnum elf) in
     if take 4 (e_ident elf) \<noteq> [0x7f, 0x45, 0x4c, 0x46] then Some (Refused (- ENOEXEC), m)
     else if e_type elf \<noteq> 2 then Some (Refused (- ENOEXEC), m)
     else if e_machine elf \<noteq> 8 then Some (Refused (- ENOEXEC), m)
     else if \<not> has_read then Some (Refused (- EACCES), m)
     else if e_phnum elf < 1 \<or> phsize > 64 * 32 then Some (Refused (- ENOEXEC), m)
     else if \<not> kmalloc_ok then Some (Refused (- ENOMEM), m)
     else case kread (e_phoff elf) phsize of
       Inl e \<Rightarrow> Some (Refused e, m)
     | Inr bs \<Rightarrow>
        if length bs \<noteq> phsize then Some (Refused (- EIO), m)
        else let phdrs = map (phdr_of bs) [0..<unat (e_phnum elf)] in
          case check_segments ubase uend phdrs (NOT 0) 0 0 of
            None \<Rightarrow> Some (Refused (- ENOEXEC), m)
          | Some (low, high, nload) \<Rightarrow>
             if nload = 0 then Some (Refused (- ENOEXEC), m)
             else if flush \<noteq> 0 then Some (Refused flush, m)
             else (case load_segments kread phdrs m of
               (err, m) \<Rightarrow>
                 if err \<noteq> 0 then Some (Killed err, m)
                 else case fixed_stack uend filename argv envp m of
                        None \<Rightarrow> None
                      | Some (sp, args, m) \<Rightarrow>
                          Some (Started \<lparr>x_low = low, x_high = high, x_entry = e_entry elf, x_sp = sp, x_args = args\<rparr>, m)))"

section \<open>The argument block in memory\<close>

lemma put_bytes_upd: "q \<notin> span a (length xs) \<Longrightarrow> put_bytes a xs (m(q := v)) = (put_bytes a xs m)(q := v)"
proof (induction xs arbitrary: a m)
  case (Cons x xs)
  then have "q \<noteq> phys a" "q \<notin> span (a + 1) (length xs)"
    by (simp_all add: span_Suc)
  then show ?case
    unfolding put_bytes.simps by (subst fun_upd_twist) (auto intro: Cons.IH)
qed simp

lemma put_bytes_swap:
  "span a (length xs) \<inter> span b (length ys) = {} \<Longrightarrow> put_bytes a xs (put_bytes b ys m) = put_bytes b ys (put_bytes a xs m)"
proof (induction ys arbitrary: b m)
  case (Cons y ys)
  have "phys b \<notin> span a (length xs)" "span a (length xs) \<inter> span (b + 1) (length ys) = {}"
    using Cons.prems by (auto simp: span_Suc)
  from Cons.IH [OF this(2)] put_bytes_upd [OF this(1)] show ?case
    by (simp only: put_bytes.simps)
qed simp

lemma span_adjacent: "n + k \<le> 2 ^ 29 \<Longrightarrow> span a n \<inter> span (a + of_nat n) k = {}"
proof -
  assume nk: "n + k \<le> 2 ^ 29"
  have False if "i < n" "j < k" "phys (a + of_nat i) = phys (a + of_nat n + of_nat j)" for i j
  proof -
    have "phys (a + of_nat i) = phys (a + of_nat (n + j))"
      using that(3) by (simp add: add.assoc)
    from phys_offset_inj [OF this] show False
      using that(1,2) nk by simp
  qed
  then show ?thesis
    by (fastforce simp: span_def)
qed

lemma put_bytes_join:
  assumes "length xs + length ys \<le> 2 ^ 29"
  shows "put_bytes a xs (put_bytes (a + of_nat (length xs)) ys m) = put_bytes a (xs @ ys) m"
  using put_bytes_swap [OF span_adjacent [OF assms]] by (simp add: put_bytes_append)

definition flat :: "cstr list \<Rightarrow> u8 list" where
  "flat ss = concat (map (\<lambda>s. s @ [0]) ss)"

lemma flat_simps [simp]: "flat [] = []" "flat (s # ss) = s @ 0 # flat ss"
  by (simp_all add: flat_def)

lemma putstringarray_flat:
  "length (flat ss) \<le> 2 ^ 29 \<Longrightarrow>
   putstringarray p ss m = (p - of_nat (length (flat ss)), put_bytes (p - of_nat (length (flat ss))) (flat ss) m)"
proof (induction ss)
  case Nil
  then show ?case by (simp add: putstringarray_def)
next
  case (Cons s ss)
  let ?q = "p - of_nat (length (flat ss))"
  have "putstringarray p (s # ss) m = putstring ?q s (put_bytes ?q (flat ss) m)"
    using Cons by (simp add: putstringarray_def)
  moreover have "?q = ?q - of_nat (length (s @ [0])) + of_nat (length (s @ [0]))"
    by simp
  ultimately show ?case
    using put_bytes_join [of "s @ [0]" "flat ss" "?q - of_nat (length (s @ [0]))" m] Cons.prems
    by (simp add: putstring_def Let_def algebra_simps)
qed

lemma skip_string_nul: "0 \<notin> set s \<Longrightarrow> get_bytes m p (Suc (length s)) = s @ [0] \<Longrightarrow> skip_string m p = Some (p + of_nat (length s) + 1)"
proof (induction s arbitrary: p)
  case Nil
  then show ?case by (subst skip_string.simps) (simp add: get_bytes_Suc)
next
  case (Cons c s)
  then show ?case
    by (subst skip_string.simps) (simp add: get_bytes_Suc [of _ _ "Suc _"] add.assoc add.commute add.left_commute)
qed

text \<open>The addresses of consecutive strings from \<open>p\<close>, and a table of words.\<close>

fun ptrs :: "u32 \<Rightarrow> cstr list \<Rightarrow> u32 list" where
  "ptrs p [] = []"
| "ptrs p (s # ss) = p # ptrs (p + of_nat (Suc (length s))) ss"

definition word_table :: "u32 list \<Rightarrow> u8 list" where
  "word_table ws = concat (map le32_encode ws)"

lemma word_table_simps [simp]: "word_table [] = []" "word_table (w # ws) = le32_encode w @ word_table ws"
  by (simp_all add: word_table_def)

lemma length_word_table [simp]: "length (word_table ws) = 4 * length ws"
  by (induction ws) simp_all

lemma length_ptrs [simp]: "length (ptrs p ss) = length ss"
  by (induction ss arbitrary: p) simp_all

lemma get_bytes_split:
  assumes "get_bytes m p (length xs + length ys) = xs @ ys"
  shows "get_bytes m p (length xs) = xs" "get_bytes m (p + of_nat (length xs)) (length ys) = ys"
  using assms by (simp_all add: get_bytes_add)

lemma get_bytes_same: "(\<And>p. p \<in> span a n \<Longrightarrow> m' p = m p) \<Longrightarrow> get_bytes m' a n = get_bytes m a n"
  by (rule nth_equalityI) (auto simp: span_def)

lemma put_pointers_flat:
  assumes "\<forall>s\<in>set ss. 0 \<notin> set s" "get_bytes m p (length (flat ss)) = flat ss"
    and "span t (4 * (length ss + 1)) \<inter> span p (length (flat ss)) = {}"
  shows "put_pointers (length ss) t p m = Some (p + of_nat (length (flat ss)), put_bytes t (word_table (ptrs p ss @ [0])) m)"
  using assms
proof (induction ss arbitrary: t p m)
  case Nil
  then show ?case by (simp add: put32_def)
next
  case (Cons s ss)
  let ?m = "put32 t p m" and ?q = "p + of_nat (Suc (length s))"
  have t: "span t (4 * (length (s # ss) + 1)) = span t 4 \<union> span (t + 4) (4 * (length ss + 1))"
    using span_add [of t 4 "4 * (length ss + 1)"] by simp
  have f: "span p (length (flat (s # ss))) = span p (Suc (length s)) \<union> span ?q (length (flat ss))"
    using span_add [of p "Suc (length s)" "length (flat ss)"] by simp
  have "get_bytes ?m p (length (flat (s # ss))) = (s @ [0]) @ flat ss"
    using get_put_other [of p "length (flat (s # ss))" t "le32_encode p" m] Cons.prems(2,3) unfolding t by (auto simp: put32_def)
  then have s: "get_bytes ?m p (Suc (length s)) = s @ [0]" "get_bytes ?m ?q (length (flat ss)) = flat ss"
    using get_bytes_split [of ?m p "s @ [0]" "flat ss"] by simp_all
  have "skip_string ?m p = Some ?q"
    using skip_string_nul [OF _ s(1)] Cons.prems(1) by (simp add: add.assoc add.commute)
  moreover have "put_pointers (length ss) (t + 4) ?q ?m =
      Some (?q + of_nat (length (flat ss)), put_bytes (t + 4) (word_table (ptrs ?q ss @ [0])) ?m)"
    using Cons.prems(1,3) s(2) unfolding t f by (intro Cons.IH) auto
  ultimately show ?case
    by (simp add: put32_def put_bytes_append add.assoc add.commute add.left_commute)
qed

text \<open>The words at the stack pointer for strings stored from \<open>p\<close>.\<close>

definition stack_words :: "u32 \<Rightarrow> cstr list \<Rightarrow> cstr list \<Rightarrow> u32 list" where
  "stack_words p argv envp = of_nat (length argv) # ptrs p argv @ [0] @ ptrs (p + of_nat (length (flat argv))) envp @ [0]"

lemma length_stack_words [simp]: "length (stack_words p argv envp) = length argv + length envp + 3"
  by (simp add: stack_words_def)

lemma word_table_append [simp]: "word_table (xs @ ys) = word_table xs @ word_table ys"
  by (simp add: word_table_def)

lemma create_fixed_tables_eq:
  assumes "\<forall>s\<in>set argv \<union> set envp. 0 \<notin> set s"
    and "get_bytes m p (length (flat argv) + length (flat envp)) = flat argv @ flat envp"
    and "sp = (p AND NOT 3) - of_nat (4 * (length argv + length envp + 3))"
    and "span sp (4 * (length argv + length envp + 3)) \<inter> span p (length (flat argv) + length (flat envp)) = {}"
  shows "create_fixed_tables p (length argv) (length envp) m =
    Some (sp, (p, p + of_nat (length (flat argv)), p + of_nat (length (flat argv)) + of_nat (length (flat envp))),
      put_bytes sp (word_table (stack_words p argv envp)) m)"
proof -
  let ?na = "length argv" and ?ne = "length envp" and ?p1 = "p + of_nat (length (flat argv))"
  let ?at = "sp + 4" and ?et = "sp + 4 + of_nat (4 * (length argv + 1))"
  have adr: "(p AND NOT 3) - of_nat (4 * (?ne + 1)) = ?et" "?et - of_nat (4 * (?na + 1)) = ?at" "?at - 4 = sp"
    using assms(3) by (simp_all add: algebra_simps)
  have tab: "span sp (4 * (?na + ?ne + 3)) = span sp 4 \<union> span ?at (4 * (?na + 1)) \<union> span ?et (4 * (?ne + 1))"
    using span_add [of sp 4 "4 * (?na + 1) + 4 * (?ne + 1)"] span_add [of ?at "4 * (?na + 1)" "4 * (?ne + 1)"]
    by (simp add: algebra_simps Un_assoc)
  have str: "span p (length (flat argv) + length (flat envp)) = span p (length (flat argv)) \<union> span ?p1 (length (flat envp))"
    by (rule span_add)
  have dis: "span p (length (flat argv)) \<inter> span sp 4 = {}" "span ?p1 (length (flat envp)) \<inter> span sp 4 = {}"
      "span ?p1 (length (flat envp)) \<inter> span ?at (4 * (?na + 1)) = {}" "span ?at (4 * (?na + 1)) \<inter> span p (length (flat argv)) = {}"
      "span ?et (4 * (?ne + 1)) \<inter> span ?p1 (length (flat envp)) = {}"
    using assms(4) unfolding tab str by blast+
  have g: "get_bytes m p (length (flat argv)) = flat argv" "get_bytes m ?p1 (length (flat envp)) = flat envp"
    using get_bytes_split [OF assms(2)] .
  let ?m1 = "put32 sp (of_nat ?na) m"
  let ?m2 = "put_bytes ?at (word_table (ptrs p argv @ [0])) ?m1"
  have g1: "get_bytes ?m1 p (length (flat argv)) = flat argv" "get_bytes ?m1 ?p1 (length (flat envp)) = flat envp"
    using g dis(1,2) by (simp_all add: put32_def get_put_other)
  have l: "length (word_table (ptrs p argv @ [0])) = 4 * (?na + 1)"
    by simp
  have "get_bytes ?m2 ?p1 (length (flat envp)) = flat envp"
    using dis(3) g1(2) unfolding l [symmetric] by (subst get_put_other)
  then have "put_pointers ?ne ?et ?p1 ?m2 =
      Some (?p1 + of_nat (length (flat envp)), put_bytes ?et (word_table (ptrs ?p1 envp @ [0])) ?m2)"
    using assms(1) dis(5) by (intro put_pointers_flat) auto
  moreover have "put_pointers ?na ?at p ?m1 = Some (?p1, ?m2)"
    using assms(1) dis(4) g1(1) by (intro put_pointers_flat) auto
  moreover have "put_bytes ?et (word_table (ptrs ?p1 envp @ [0])) ?m2 = put_bytes sp (word_table (stack_words p argv envp)) m"
    by (simp add: stack_words_def put32_def put_bytes_append add.assoc)
  ultimately show ?thesis
    unfolding create_fixed_tables_def Let_def adr by simp
qed

lemma unat_align4: "unat ((x :: u32) AND NOT 3) = unat x div 4 * 4"
proof -
  have m: "(3 :: u32) = mask 2"
    by (simp add: mask_eq_exp_minus_1)
  have n: "\<not> n < 2 \<Longrightarrow> Suc (Suc (n - 2)) = n" "2 \<le> n \<Longrightarrow> Suc (Suc (n - 2)) = n" for n :: nat
    by simp_all
  have "(x :: u32) AND NOT (mask 2) = push_bit 2 (drop_bit 2 x)"
    by (rule bit_word_eqI) (auto simp: bit_and_iff bit_not_iff bit_mask_iff bit_push_bit_iff bit_drop_bit_eq n)
  moreover have "unat x < 2 ^ LENGTH(32)"
    by (rule unsigned_less)
  then have "unat (push_bit 2 (drop_bit 2 x)) = unat x div 4 * 4"
    by (simp add: push_bit_eq_mult drop_bit_eq_div unat_word_ariths unat_div mult.commute)
  ultimately show ?thesis
    unfolding m by simp
qed

lemma unat_sub_nat: "n \<le> unat x \<Longrightarrow> unat (x - of_nat n :: u32) = unat x - n"
proof -
  assume n: "n \<le> unat x"
  moreover have "unat x < 2 ^ LENGTH(32)"
    by (rule unsigned_less)
  ultimately have "n < 2 ^ 32"
    by simp
  then have "unat (of_nat n :: u32) = n"
    by (simp add: unat_of_nat take_bit_nat_eq_self)
  then show ?thesis
    using n by (subst unat_sub) (simp_all add: word_le_nat_alt)
qed

lemma unat_phys_low: "unat x < 2 ^ 29 \<Longrightarrow> unat (phys x) = unat x"
  by (simp add: unat_phys)

text \<open>Where the strings and the words go below the end of the window.\<close>

definition stack_strings :: "cstr \<Rightarrow> cstr list \<Rightarrow> cstr list \<Rightarrow> u8 list" where
  "stack_strings filename argv envp = flat argv @ flat envp @ flat [filename]"

definition stack_p :: "u32 \<Rightarrow> cstr \<Rightarrow> cstr list \<Rightarrow> cstr list \<Rightarrow> u32" where
  "stack_p uend filename argv envp = uend - 16 - of_nat (length (stack_strings filename argv envp))"

definition stack_sp :: "u32 \<Rightarrow> cstr \<Rightarrow> cstr list \<Rightarrow> cstr list \<Rightarrow> u32" where
  "stack_sp uend filename argv envp =
    (stack_p uend filename argv envp AND NOT 3) - of_nat (4 * (length argv + length envp + 3))"

definition stack_fits :: "u32 \<Rightarrow> cstr \<Rightarrow> cstr list \<Rightarrow> cstr list \<Rightarrow> bool" where
  "stack_fits uend filename argv envp \<longleftrightarrow> unat uend \<le> 2 ^ 29 \<and>
     20 + length (stack_strings filename argv envp) + 4 * (length argv + length envp + 3) \<le> unat uend"

lemma stack_addresses:
  assumes "stack_fits uend filename argv envp"
  defines "n \<equiv> 4 * (length argv + length envp + 3)" and "k \<equiv> length (stack_strings filename argv envp)"
  shows "unat (stack_p uend filename argv envp) = unat uend - 16 - k"
    "unat (stack_sp uend filename argv envp) + n \<le> unat (stack_p uend filename argv envp)"
    "unat uend \<le> unat (stack_sp uend filename argv envp) + n + k + 19"
    "unat (stack_sp uend filename argv envp) mod 4 = 0"
proof -
  let ?p = "stack_p uend filename argv envp" and ?sp = "stack_sp uend filename argv envp"
  have f: "20 + k + n \<le> unat uend"
    using assms(1) by (simp add: stack_fits_def n_def k_def)
  have e: "?p = uend - of_nat (16 + k)"
    by (simp add: stack_p_def k_def)
  show p: "unat ?p = unat uend - 16 - k"
    unfolding e using f unat_sub_nat [of "16 + k" uend] by simp
  have a: "unat (?p AND NOT 3) = unat ?p div 4 * 4"
    by (rule unat_align4)
  have sp: "unat ?sp = unat ?p div 4 * 4 - n"
    using f p a unat_sub_nat [of n "?p AND NOT 3"] by (simp add: stack_sp_def n_def)
  have b: "n \<le> unat ?p div 4 * 4" "unat ?p div 4 * 4 \<le> unat ?p" "unat ?p \<le> unat ?p div 4 * 4 + 3"
    using f p by simp_all
  show "unat ?sp + n \<le> unat ?p"
    using sp b by simp
  have "unat uend = unat ?p + 16 + k"
    using p f by simp
  then show "unat uend \<le> unat ?sp + n + k + 19"
    using sp b by linarith
  have "n = 4 * (length argv + length envp + 3)"
    by (simp add: n_def)
  then have "unat ?sp = 4 * (unat ?p div 4 - (length argv + length envp + 3))"
    using sp by (simp add: mult.commute diff_mult_distrib2)
  then show "unat ?sp mod 4 = 0"
    by simp
qed


lemma fixed_stack_eq:
  assumes "stack_fits uend filename argv envp" "\<forall>s\<in>set argv \<union> set envp. 0 \<notin> set s"
  defines "p \<equiv> stack_p uend filename argv envp" and "sp \<equiv> stack_sp uend filename argv envp"
  shows "\<exists>args. fixed_stack uend filename argv envp m =
    Some (sp, args, put_bytes sp (word_table (stack_words p argv envp)) (put_bytes p (stack_strings filename argv envp) m))"
proof -
  let ?T = "stack_strings filename argv envp"
  let ?f = "flat [filename]" and ?n = "4 * (length argv + length envp + 3)"
  note adr = stack_addresses [OF assms(1), folded p_def sp_def]
  have f: "unat uend \<le> 2 ^ 29" "20 + length ?T + ?n \<le> unat uend"
    using assms(1) by (auto simp: stack_fits_def)
  have T: "length ?T = length (flat argv) + (length (flat envp) + length ?f)"
    by (simp add: stack_strings_def)
  define m1 where "m1 = put_bytes p ?T m"
  have q: "uend - 16 - of_nat (length ?f) - of_nat (length (flat envp)) - of_nat (length (flat argv)) = p"
    by (simp add: p_def stack_p_def T algebra_simps)
  have e: "uend - 16 - of_nat (length ?f) - of_nat (length (flat envp)) = p + of_nat (length (flat argv))"
      "uend - 16 - of_nat (length ?f) = p + of_nat (length (flat argv)) + of_nat (length (flat envp))"
    by (simp_all add: q [symmetric])
  have s1: "put_bytes (p + of_nat (length (flat argv))) (flat envp) (put_bytes (p + of_nat (length (flat argv)) + of_nat (length (flat envp))) ?f m)
      = put_bytes (p + of_nat (length (flat argv))) (flat envp @ ?f) m"
    using f T by (intro put_bytes_join) simp
  have s2: "put_bytes p (flat argv) (put_bytes (p + of_nat (length (flat argv))) (flat envp @ ?f) m) = m1"
    unfolding m1_def stack_strings_def using f T by (intro put_bytes_join) simp
  have strings: "fixed_stack uend filename argv envp m = create_fixed_tables p (length argv) (length envp) m1"
    using f T unfolding fixed_stack_def Let_def
    by (simp add: putstringarray_flat del: flat_simps) (simp only: e(2) add_diff_cancel_right' s1 s2)
  have "get_bytes m1 p (length ?T) = ?T"
    unfolding m1_def using f by (intro get_put_bytes) simp_all
  then have g: "get_bytes m1 p (length (flat argv) + length (flat envp)) = flat argv @ flat envp"
    using get_bytes_split [of m1 p "flat argv @ flat envp" ?f] by (simp add: stack_strings_def add.assoc)
  have "unat p < 2 ^ 29" "unat sp < 2 ^ 29"
    using adr(1,2) f by simp_all
  note ph = this [THEN unat_phys_low]
  have d: "span sp ?n \<inter> span p (length (flat argv) + length (flat envp)) = {}"
    using adr f T by (intro span_disjoint) (simp_all add: ph)
  show ?thesis
    unfolding strings m1_def [symmetric]
    using create_fixed_tables_eq [OF assms(2) g _ d] by (auto simp: sp_def stack_sp_def p_def)
qed

lemma get32_table:
  "get_bytes m a (4 * length ws) = word_table ws \<Longrightarrow> i < length ws \<Longrightarrow> get32 m (a + of_nat (4 * i)) = ws ! i"
proof (induction ws arbitrary: a i)
  case (Cons w ws)
  have s: "get_bytes m a 4 = le32_encode w" "get_bytes m (a + 4) (4 * length ws) = word_table ws"
    using get_bytes_split [of m a "le32_encode w" "word_table ws"] Cons.prems(1) by simp_all
  show ?case
  proof (cases i)
    case 0
    then show ?thesis
      using s(1) by (simp add: get32_def)
  next
    case (Suc j)
    then show ?thesis
      using Cons.IH [OF s(2), of j] Cons.prems(2) by (simp add: add.assoc)
  qed
qed simp

lemma string_at:
  "get_bytes m p (length (flat ss)) = flat ss \<Longrightarrow> i < length ss \<Longrightarrow> get_bytes m (ptrs p ss ! i) (length (ss ! i) + 1) = ss ! i @ [0]"
proof (induction ss arbitrary: p i)
  case (Cons s ss)
  have "get_bytes m p (length (s @ [0])) = s @ [0]" "get_bytes m (p + of_nat (length (s @ [0]))) (length (flat ss)) = flat ss"
    using get_bytes_split [of m p "s @ [0]" "flat ss"] Cons.prems(1) by simp_all
  then show ?case
    using Cons.IH [of "p + of_nat (Suc (length s))" "i - 1"] Cons.prems(2) by (cases i) simp_all
qed simp

lemma nth_stack_words:
  "stack_words p argv envp ! 0 = of_nat (length argv)"
  "i < length argv \<Longrightarrow> stack_words p argv envp ! (1 + i) = ptrs p argv ! i"
  "stack_words p argv envp ! (1 + length argv) = 0"
  "i < length envp \<Longrightarrow> stack_words p argv envp ! (2 + length argv + i) = ptrs (p + of_nat (length (flat argv))) envp ! i"
  "stack_words p argv envp ! (2 + length argv + length envp) = 0"
  by (simp_all add: stack_words_def nth_append)

text \<open>A NULL-terminated array of pointers at \<open>t\<close> to the strings \<open>ss\<close>.\<close>

definition string_array :: "mem \<Rightarrow> u32 \<Rightarrow> cstr list \<Rightarrow> bool" where
  "string_array m t ss \<longleftrightarrow> (\<forall>i<length ss. get_bytes m (get32 m (t + of_nat (4 * i))) (length (ss ! i) + 1) = ss ! i @ [0]) \<and>
     get32 m (t + of_nat (4 * length ss)) = 0"

lemma stack_frame:
  assumes "stack_fits uend filename argv envp" "q \<in> span (stack_sp uend filename argv envp) (4 * (length argv + length envp + 3)) \<union>
    span (stack_p uend filename argv envp) (length (stack_strings filename argv envp))"
  shows "unat (stack_sp uend filename argv envp) \<le> unat q \<and> unat q < unat uend - 16"
proof -
  let ?p = "stack_p uend filename argv envp" and ?sp = "stack_sp uend filename argv envp"
  let ?n = "4 * (length argv + length envp + 3)" and ?k = "length (stack_strings filename argv envp)"
  note adr = stack_addresses [OF assms(1)]
  have f: "unat uend \<le> 2 ^ 29" "20 + ?k + ?n \<le> unat uend"
    using assms(1) by (auto simp: stack_fits_def)
  have p: "unat ?p + ?k = unat uend - 16" "unat ?p + ?k \<le> 2 ^ 29" "unat ?sp + ?n \<le> 2 ^ 29" "unat ?p < 2 ^ 29" "unat ?sp < 2 ^ 29"
    using adr(1,2) f by linarith+
  note ph = p(4,5) [THEN unat_phys_low]
  show ?thesis
    using assms(2) span_linear [of ?sp ?n q] span_linear [of ?p ?k q] p(1,2,3) adr(2) unfolding ph by (elim UnE) linarith+
qed

text \<open>
  C38: A program started by \<^verbatim>\<open>binfmt_fixed\<close> finds its arguments. The stack pointer is
  word aligned and points to \<^verbatim>\<open>argc\<close>; after it come the NULL-terminated arrays of
  pointers to the argument strings and to the environment strings, each string
  complete with its NUL; only memory between the stack pointer and sixteen bytes
  below the end of the window is written.
\<close>

theorem fixed_stack_layout:
  assumes "stack_fits uend filename argv envp" "\<forall>s\<in>set argv \<union> set envp. 0 \<notin> set s"
  shows "\<exists>sp args m'. fixed_stack uend filename argv envp m = Some (sp, args, m') \<and>
    unat sp mod 4 = 0 \<and> get32 m' sp = of_nat (length argv) \<and> string_array m' (sp + 4) argv \<and>
    string_array m' (sp + 8 + of_nat (4 * length argv)) envp \<and>
    (\<forall>q. m' (phys q) \<noteq> m (phys q) \<longrightarrow> unat sp \<le> unat (phys q) \<and> unat (phys q) < unat uend - 16)"
proof -
  let ?p = "stack_p uend filename argv envp" and ?sp = "stack_sp uend filename argv envp" and ?T = "stack_strings filename argv envp"
  let ?ws = "stack_words ?p argv envp"
  let ?m1 = "put_bytes ?p ?T m"
  define m' where "m' = put_bytes ?sp (word_table ?ws) ?m1"
  obtain args where st: "fixed_stack uend filename argv envp m = Some (?sp, args, m')"
    using fixed_stack_eq [OF assms, of m] by (auto simp: m'_def)
  note adr = stack_addresses [OF assms(1)]
  have f: "unat uend \<le> 2 ^ 29" "20 + length ?T + length (word_table ?ws) \<le> unat uend"
    using assms(1) by (auto simp: stack_fits_def)
  have lt: "unat ?p < 2 ^ 29" "unat ?sp < 2 ^ 29"
    using adr(1,2) f by simp_all
  note ph = this [THEN unat_phys_low]
  have d: "span ?p (length ?T) \<inter> span ?sp (length (word_table ?ws)) = {}"
    using span_disjoint [of ?sp "length (word_table ?ws)" ?p "length ?T"] adr(1,2) f unfolding ph by (auto simp: Int_commute)
  have T: "get_bytes m' ?p (length ?T) = ?T"
    unfolding m'_def get_put_other [OF d] using f by (intro get_put_bytes) simp_all
  have "get_bytes m' ?sp (4 * length ?ws) = word_table ?ws"
    unfolding m'_def using f by (intro get_put_bytes) simp_all
  note w = get32_table [OF this]
  have s: "get_bytes m' ?p (length (flat argv)) = flat argv" "get_bytes m' (?p + of_nat (length (flat argv))) (length (flat envp)) = flat envp"
    using T get_bytes_split [of m' ?p "flat argv" "flat envp @ flat [filename]"]
      get_bytes_split [of m' "?p + of_nat (length (flat argv))" "flat envp" "flat [filename]"] by (simp_all add: stack_strings_def)
  have "get32 m' ?sp = of_nat (length argv)"
    using w [of 0] nth_stack_words(1) by simp
  moreover have "string_array m' (?sp + 4) argv"
  proof -
    have "get32 m' (?sp + 4 + of_nat (4 * i)) = ptrs ?p argv ! i" if "i < length argv" for i
      using w [of "1 + i"] nth_stack_words(2) [OF that] that by (simp add: add.assoc)
    moreover have "get32 m' (?sp + 4 + of_nat (4 * length argv)) = 0"
      using w [of "1 + length argv"] nth_stack_words(3) by (simp add: add.assoc)
    ultimately show ?thesis
      using string_at [OF s(1)] by (simp add: string_array_def)
  qed
  moreover have "string_array m' (?sp + 8 + of_nat (4 * length argv)) envp"
  proof -
    have "get32 m' (?sp + 8 + of_nat (4 * length argv) + of_nat (4 * i)) = ptrs (?p + of_nat (length (flat argv))) envp ! i"
      if "i < length envp" for i
      using w [of "2 + length argv + i"] nth_stack_words(4) [OF that] that by (simp add: algebra_simps)
    moreover have "get32 m' (?sp + 8 + of_nat (4 * length argv) + of_nat (4 * length envp)) = 0"
      using w [of "2 + length argv + length envp"] nth_stack_words(5) by (simp add: algebra_simps)
    ultimately show ?thesis
      using string_at [OF s(2)] by (simp add: string_array_def)
  qed
  moreover have "\<forall>q. m' (phys q) \<noteq> m (phys q) \<longrightarrow> unat ?sp \<le> unat (phys q) \<and> unat (phys q) < unat uend - 16"
  proof (intro allI impI)
    fix q assume "m' (phys q) \<noteq> m (phys q)"
    then have "phys q \<in> span ?sp (length (word_table ?ws)) \<union> span ?p (length ?T)"
      using put_bytes_other unfolding m'_def by (metis UnCI)
    then show "unat ?sp \<le> unat (phys q) \<and> unat (phys q) < unat uend - 16"
      using stack_frame [OF assms(1)] by simp
  qed
  ultimately show ?thesis
    using st adr(4) by (intro exI [of _ ?sp] exI [of _ args] exI [of _ m'] conjI)
qed

theorem fixed_stack_layout_witness:
  "\<exists>sp args m'. fixed_stack 0x200000 (s2b ''/bin/sh'') [s2b ''sh'', s2b ''-c''] [s2b ''HOME=/''] (\<lambda>_. 0) = Some (sp, args, m') \<and>
    get32 m' sp = 2 \<and> string_array m' (sp + 4) [s2b ''sh'', s2b ''-c'']"
proof -
  have "stack_fits 0x200000 (s2b ''/bin/sh'') [s2b ''sh'', s2b ''-c''] [s2b ''HOME=/'']"
    by (simp add: stack_fits_def stack_strings_def s2b_def)
  moreover have "\<forall>s\<in>set [s2b ''sh'', s2b ''-c''] \<union> set [s2b ''HOME=/'']. 0 \<notin> set s"
    by (simp add: s2b_def)
  ultimately show ?thesis
    using fixed_stack_layout [of "0x200000" "s2b ''/bin/sh''" "[s2b ''sh'', s2b ''-c'']" "[s2b ''HOME=/'']" "\<lambda>_. 0"] by fastforce
qed

section \<open>What a program may overwrite\<close>

text \<open>A segment whose end does not wrap around and whose file part is within its memory part.\<close>

definition seg_ok :: "elf_phdr \<Rightarrow> bool" where
  "seg_ok ph \<longleftrightarrow> (p_type ph = PT_LOAD \<longrightarrow> unat (p_vaddr ph) + unat (p_memsz ph) < 2 ^ 32 \<and> p_filesz ph \<le> p_memsz ph)"

lemma span_window:
  assumes "q \<in> span a n" "unat a + n \<le> 2 ^ 29"
  shows "unat a \<le> unat q \<and> unat q < unat a + n"
proof -
  have "0 < n"
    using assms(1) by (auto simp: span_def)
  then have "unat (phys a) = unat a"
    using assms(2) by (intro unat_phys_low) simp
  then show ?thesis
    using span_linear [of a n q] assms by simp
qed

lemma span_take: "k \<le> n \<Longrightarrow> span a k \<subseteq> span a n"
  by (auto simp: span_def)

text \<open>The addresses a segment covers, and the memory after loading it.\<close>

lemma segment_frame:
  assumes "seg_ok ph" "p_type ph = PT_LOAD" "length bs \<le> unat (p_filesz ph)" "q \<notin> span (p_vaddr ph) (unat (p_memsz ph))"
  shows "put_bytes (p_vaddr ph) bs m q = m q"
    "put_bytes (p_vaddr ph + p_filesz ph) (replicate (unat (p_memsz ph - p_filesz ph)) 0) m q = m q"
proof -
  have le: "unat (p_filesz ph) \<le> unat (p_memsz ph)"
    using assms(1,2) by (simp add: seg_ok_def word_le_nat_alt)
  show "put_bytes (p_vaddr ph) bs m q = m q"
    using assms(3,4) le span_take [of "length bs" "unat (p_memsz ph)" "p_vaddr ph"] by (intro put_bytes_other) auto
  have "unat (p_memsz ph - p_filesz ph) = unat (p_memsz ph) - unat (p_filesz ph)"
    using le by (simp add: unat_sub word_le_nat_alt)
  then have "span (p_vaddr ph + p_filesz ph) (unat (p_memsz ph - p_filesz ph)) \<subseteq> span (p_vaddr ph) (unat (p_memsz ph))"
    using span_add [of "p_vaddr ph" "unat (p_filesz ph)" "unat (p_memsz ph) - unat (p_filesz ph)"] le by simp
  then show "put_bytes (p_vaddr ph + p_filesz ph) (replicate (unat (p_memsz ph - p_filesz ph)) 0) m q = m q"
    using assms(4) by (intro put_bytes_other) auto
qed

lemma load_segments_frame:
  assumes "\<forall>off n bs. kread off n = Inr bs \<longrightarrow> length bs \<le> n" "\<forall>ph\<in>set phs. seg_ok ph"
    and "\<forall>ph\<in>set phs. p_type ph = PT_LOAD \<longrightarrow> q \<notin> span (p_vaddr ph) (unat (p_memsz ph))"
  shows "snd (load_segments kread phs m) q = m q"
  using assms(2,3)
proof (induction phs arbitrary: m)
  case (Cons ph phs)
  then have IH: "snd (load_segments kread phs m) q = m q" for m
    by simp
  show ?case
  proof (cases "p_type ph = PT_LOAD")
    case True
    have z: "put_bytes (p_vaddr ph + p_filesz ph) (replicate (unat (p_memsz ph - p_filesz ph)) 0) m q = m q" for m
      using segment_frame(2) [of ph "[]" q m] Cons.prems True by simp
    have d: "put_bytes (p_vaddr ph) bs m q = m q" if "kread (p_offset ph) (unat (p_filesz ph)) = Inr bs" for bs m
      using segment_frame(1) [of ph bs q m] Cons.prems True assms(1) that by simp
    show ?thesis
      using True z by (auto simp: Let_def IH d split: sum.splits)
  qed (simp add: IH)
qed simp

lemma check_segments_window:
  assumes "check_segments ubase uend phs low high n = Some r" "ph \<in> set phs" "p_type ph = PT_LOAD" "seg_ok ph" "0x3000 \<le> uend"
  shows "unat ubase \<le> unat (p_vaddr ph) \<and> unat (p_vaddr ph) + unat (p_memsz ph) \<le> unat uend - 0x3000"
  using assms(1,2,5)
proof (induction ubase uend phs low high n rule: check_segments.induct)
  case (2 ubase uend x phs low high n)
  have "unat (p_vaddr ph + p_memsz ph) = unat (p_vaddr ph) + unat (p_memsz ph)"
    using assms(3,4) unat_add_small by (simp add: seg_ok_def)
  moreover have "unat (uend - 0x3000) = unat uend - 0x3000"
    using 2(5) by (simp add: unat_sub)
  ultimately show ?case
    using 2 assms(3) by (auto simp: Let_def word_less_nat_alt not_less split: if_splits)
qed simp

lemma load_fixed_cases:
  assumes "load_fixed_binary ubase uend kread hr km fl buf filename argv envp m = Some (r, m')"
  obtains "m' = m"
  | bs res where "kread (e_phoff (elfhdr_of buf)) (32 * unat (e_phnum (elfhdr_of buf))) = Inr bs"
      "check_segments ubase uend (map (phdr_of bs) [0..<unat (e_phnum (elfhdr_of buf))]) (NOT 0) 0 0 = Some res"
      "m' = snd (load_segments kread (map (phdr_of bs) [0..<unat (e_phnum (elfhdr_of buf))]) m) \<or>
       (\<exists>sp args. fixed_stack uend filename argv envp
          (snd (load_segments kread (map (phdr_of bs) [0..<unat (e_phnum (elfhdr_of buf))]) m)) = Some (sp, args, m'))"
proof -
  have "m' = m \<or> (\<exists>bs res. kread (e_phoff (elfhdr_of buf)) (32 * unat (e_phnum (elfhdr_of buf))) = Inr bs \<and>
      check_segments ubase uend (map (phdr_of bs) [0..<unat (e_phnum (elfhdr_of buf))]) (NOT 0) 0 0 = Some res \<and>
      (m' = snd (load_segments kread (map (phdr_of bs) [0..<unat (e_phnum (elfhdr_of buf))]) m) \<or>
       (\<exists>sp args. fixed_stack uend filename argv envp
          (snd (load_segments kread (map (phdr_of bs) [0..<unat (e_phnum (elfhdr_of buf))]) m)) = Some (sp, args, m'))))"
    using assms unfolding load_fixed_binary_def Let_def
    by (auto split: if_splits sum.splits option.splits prod.splits)
  then show ?thesis
    using that by blast
qed

text \<open>The program's own headers and arguments stay within what the window can hold.\<close>

definition program_ok :: "u32 \<Rightarrow> u32 \<Rightarrow> (u32 \<Rightarrow> nat \<Rightarrow> int + u8 list) \<Rightarrow> u8 list \<Rightarrow> cstr \<Rightarrow> cstr list \<Rightarrow> cstr list \<Rightarrow> bool" where
  "program_ok ubase uend kread buf filename argv envp \<longleftrightarrow>
    (\<forall>bs i. kread (e_phoff (elfhdr_of buf)) (32 * unat (e_phnum (elfhdr_of buf))) = Inr bs \<longrightarrow> i < unat (e_phnum (elfhdr_of buf)) \<longrightarrow>
       seg_ok (phdr_of bs i)) \<and>
    (\<forall>s\<in>set argv \<union> set envp. 0 \<notin> set s) \<and>
    20 + length (stack_strings filename argv envp) + 4 * (length argv + length envp + 3) \<le> unat uend - unat ubase"

lemma fixed_stack_changes:
  assumes "stack_fits uend filename argv envp" "\<forall>s\<in>set argv \<union> set envp. 0 \<notin> set s"
    and "fixed_stack uend filename argv envp m = Some (sp, args, m')" "m' q \<noteq> m q"
  shows "unat (stack_sp uend filename argv envp) \<le> unat q \<and> unat q < unat uend - 16"
proof -
  let ?sp = "stack_sp uend filename argv envp" and ?p = "stack_p uend filename argv envp"
  let ?W = "word_table (stack_words ?p argv envp)" and ?T = "stack_strings filename argv envp"
  have "m' = put_bytes ?sp ?W (put_bytes ?p ?T m)"
    using fixed_stack_eq [OF assms(1,2), of m] assms(3) by auto
  then have "q \<in> span ?sp (length ?W) \<union> span ?p (length ?T)"
    using assms(4) put_bytes_other [of q ?sp ?W "put_bytes ?p ?T m"] put_bytes_other [of q ?p ?T m] by (simp only: Un_iff) metis
  then show ?thesis
    using stack_frame [OF assms(1)] by simp
qed

lemma load_fixed_frame:
  assumes "load_fixed_binary ubase uend kread hr km fl buf filename argv envp m = Some (r, m')"
    and "\<forall>off n bs. kread off n = Inr bs \<longrightarrow> length bs \<le> n" "program_ok ubase uend kread buf filename argv envp"
    and "0x3000 \<le> uend" "unat uend \<le> 2 ^ 29" "m' q \<noteq> m q"
  shows "unat ubase \<le> unat q \<and> unat q < unat uend"
  using assms(1)
proof (cases rule: load_fixed_cases)
  case 1
  then show ?thesis using assms(6) by simp
next
  case (2 bs res)
  let ?phs = "map (phdr_of bs) [0..<unat (e_phnum (elfhdr_of buf))]"
  let ?m = "snd (load_segments kread ?phs m)"
  have ok: "\<forall>ph\<in>set ?phs. seg_ok ph" "\<forall>s\<in>set argv \<union> set envp. 0 \<notin> set s"
      "20 + length (stack_strings filename argv envp) + 4 * (length argv + length envp + 3) \<le> unat uend - unat ubase"
    using assms(3) 2(1) by (auto simp: program_ok_def)
  have fits: "stack_fits uend filename argv envp"
    using ok(3) assms(5) by (simp add: stack_fits_def)
  show ?thesis
  proof (cases "?m q = m q")
    case False
    have "\<not> (\<forall>ph\<in>set ?phs. p_type ph = PT_LOAD \<longrightarrow> q \<notin> span (p_vaddr ph) (unat (p_memsz ph)))"
      using load_segments_frame [OF assms(2) ok(1), of q m] False by metis
    then obtain ph where ph: "ph \<in> set ?phs" "p_type ph = PT_LOAD" "q \<in> span (p_vaddr ph) (unat (p_memsz ph))"
      by metis
    have "seg_ok ph"
      using ok(1) ph(1) by (rule bspec)
    note w = check_segments_window [OF 2(2) ph(1,2) this assms(4)]
    have "0x3000 \<le> unat uend"
      using assms(4) by (simp add: word_le_nat_alt)
    moreover have "unat (p_vaddr ph) + unat (p_memsz ph) \<le> 2 ^ 29"
      using w assms(5) by linarith
    ultimately show ?thesis
      using span_window [OF ph(3)] w by linarith
  next
    case True
    then have n: "m' q \<noteq> ?m q"
      using assms(6) by simp
    then obtain sp args where s: "fixed_stack uend filename argv envp ?m = Some (sp, args, m')"
      using 2(3) by metis
    show ?thesis
      using fixed_stack_changes [OF fits ok(2) s n] stack_addresses(3) [OF fits] ok(3) by linarith
  qed
qed

definition free_pages :: "bootmem \<Rightarrow> nat set" where
  "free_pages bd = {i. i < length (node_bootmem_map bd) \<and> \<not> node_bootmem_map bd ! i}"


lemma put_zeros: "p \<in> span a n \<Longrightarrow> put_bytes a (replicate n 0) m p = 0"
proof (induction n arbitrary: a m)
  case (Suc n)
  then show ?case
    by (cases "p \<in> span (a + 1) n") (auto simp: span_Suc put_bytes_other)
qed simp


definition wrap_segment :: "u32 \<Rightarrow> elf_phdr" where
  "wrap_segment ubase = \<lparr>p_type = PT_LOAD, p_offset = 0, p_vaddr = ubase, p_filesz = 0, p_memsz = 1 - ubase\<rparr>"

text \<open>
  The window check can be passed by a segment that wraps around the address
  space. A segment linked at the window's base whose size reaches past
  the top of the 32-bit space ends at a small address, is accepted, and loading it clears
  physical address 0, where the exception vectors of the kernel are.
\<close>

theorem segment_wrap_accepted:
  assumes "1 < ubase" "ubase \<le> uend - 0x3000" "0x3000 \<le> uend"
  shows "check_segments ubase uend [wrap_segment ubase] (NOT 0) 0 0 = Some (ubase, 1, 1) \<and>
    fst (load_segments kread [wrap_segment ubase] m) = 0 \<and> snd (load_segments kread [wrap_segment ubase] m) 0 = 0"
proof -
  have n: "unat (1 - ubase) = Suc (unat (- ubase))"
  proof -
    have "- ubase + 1 \<noteq> 0"
      using assms(1) by auto
    then have "1 + - ubase \<noteq> 0"
      by (simp only: add.commute) simp
    then have "unat (1 + - ubase) = Suc (unat (- ubase))"
      by (rule unatSuc)
    then show ?thesis
      by simp
  qed
  have "phys (ubase + of_nat (unat (- ubase))) = 0"
    by (simp add: phys_def)
  then have "0 \<in> span ubase (unat (1 - ubase))"
    unfolding n span_def by (intro image_eqI [of _ _ "unat (- ubase)"]) simp_all
  then have z: "put_bytes ubase (replicate (unat (1 - ubase)) 0) m 0 = 0"
    by (rule put_zeros)
  have "uend - 0x3000 < NOT 0"
  proof -
    have "uend - 0x3000 \<noteq> - 1"
    proof
      assume "uend - 0x3000 = - 1"
      then have "uend = 0x2FFF"
        by (simp add: diff_eq_eq)
      then show False
        using assms(3) by simp
    qed
    then have "uend - 0x3000 < - 1"
      unfolding word_order.not_eq_extremum .
    then show ?thesis
      by simp
  qed
  then have "ubase < NOT 0"
    using assms(2) by (rule le_less_trans [rotated])
  moreover have "1 \<le> uend - 0x3000" "0 < 1 - ubase"
    using assms n by (auto simp: word_neq_0_conv [symmetric] unat_eq_0 [symmetric])
  moreover have "uend \<noteq> 0x3000"
    using assms by auto
  ultimately show ?thesis
    using z assms by (simp add: wrap_segment_def not_less)
qed

theorem segment_wrap_accepted_witness:
  "snd (load_segments (\<lambda>_ _. Inr []) [wrap_segment 0x1D0000] (\<lambda>_. 0x3C)) 0 = 0"
  using segment_wrap_accepted [of "0x1D0000" "0x200000" "\<lambda>_ _. Inr []" "\<lambda>_. 0x3C"] by simp


section \<open>A small program\<close>

definition elf_demo :: "u8 list" where
  "elf_demo = [0x7f, 0x45, 0x4c, 0x46] @ replicate 12 0 @ le16_encode 2 @ le16_encode 8 @ le32_encode 1 @ le32_encode 0x1D0000 @
     le32_encode 52 @ replicate 12 0 @ le16_encode 1"

definition phdr_demo :: "u8 list" where
  "phdr_demo = le32_encode 1 @ le32_encode 84 @ le32_encode 0x1D0000 @ le32_encode 0 @ le32_encode 4 @ le32_encode 8 @ replicate 8 0"

definition kread_demo :: "u32 \<Rightarrow> nat \<Rightarrow> int + u8 list" where
  "kread_demo off n = (if off = 52 then Inr (take n phdr_demo) else if off = 84 then Inr (take n (replicate 4 0x27)) else Inl (- 5))"

lemma elf_demo: "elfhdr_of elf_demo = \<lparr>e_ident = [0x7f, 0x45, 0x4c, 0x46] @ replicate 12 0, e_type = 2, e_machine = 8, e_entry = 0x1D0000,
    e_phoff = 52, e_phnum = 1\<rparr>"
  by (simp add: elfhdr_of_def elf_demo_def le16_at_def le32_at_def le16_encode_def le32_encode_def le16_decode_def le32_decode_def nth_append nth_Cons')

lemma phdr_demo: "phdr_of phdr_demo 0 = \<lparr>p_type = 1, p_offset = 84, p_vaddr = 0x1D0000, p_filesz = 4, p_memsz = 8\<rparr>" "length phdr_demo = 32"
  by (simp_all add: phdr_of_def phdr_demo_def le32_at_def le32_encode_def le32_decode_def nth_append nth_Cons')

lemma kread_demo: "kread_demo 52 32 = Inr phdr_demo" "kread_demo 84 4 = Inr (replicate 4 0x27)"
  by (simp_all add: kread_demo_def phdr_demo)

definition mem_demo :: mem where
  "mem_demo = put_bytes 0x1D0004 (replicate 4 0) (put_bytes 0x1D0000 (replicate 4 0x27) (\<lambda>_. 0))"

lemma mem_demo: "load_segments kread_demo [phdr_of phdr_demo 0] (\<lambda>_. 0) = (0, mem_demo)" "mem_demo 0x1D0000 = 0x27"
proof -
  show "load_segments kread_demo [phdr_of phdr_demo 0] (\<lambda>_. 0) = (0, mem_demo)"
    by (simp add: phdr_demo kread_demo mem_demo_def)
  have ph: "phys 0x1D0000 = 0x1D0000" "phys 0x1D0004 = 0x1D0004"
    by (simp_all add: phys_def)
  then have "0x1D0000 \<notin> span 0x1D0004 4"
    using span_linear [of "0x1D0004" 4 "0x1D0000"] by auto
  then have "mem_demo 0x1D0000 = put_bytes 0x1D0000 (replicate 4 0x27) (\<lambda>_. 0) 0x1D0000"
    by (simp add: mem_demo_def put_bytes_other)
  also have "\<dots> = 0x27"
    using put_bytes_nth [of 0 "replicate 4 0x27" "0x1D0000" "\<lambda>_. 0"] ph by simp
  finally show "mem_demo 0x1D0000 = 0x27" .
qed

lemma demo_fits: "stack_fits 0x200000 (s2b ''/bin/sh'') [s2b ''sh''] []" "0 \<notin> set (s2b ''sh'')"
  by (simp_all add: stack_fits_def stack_strings_def s2b_def)

lemma load_demo:
  "\<exists>r m'. load_fixed_binary 0x1D0000 0x200000 kread_demo True True 0 elf_demo (s2b ''/bin/sh'') [s2b ''sh''] [] (\<lambda>_. 0) = Some (Started r, m') \<and>
    m' 0x1D0000 = 0x27"
proof -
  obtain sp args m' where s: "fixed_stack 0x200000 (s2b ''/bin/sh'') [s2b ''sh''] [] mem_demo = Some (sp, args, m')"
    using fixed_stack_eq [OF demo_fits(1), of mem_demo] demo_fits(2) by auto
  have c: "check_segments 0x1D0000 0x200000 [phdr_of phdr_demo 0] (NOT 0) 0 0 = Some (0x1D0000, 0x1D0008, 1)"
    by (simp add: phdr_demo)
  have "unat (stack_sp 0x200000 (s2b ''/bin/sh'') [s2b ''sh''] []) > 0x1D0000"
    using stack_addresses(3) [OF demo_fits(1)] by (simp add: stack_strings_def)
  then have "m' 0x1D0000 = mem_demo 0x1D0000"
    using fixed_stack_changes [OF demo_fits(1) _ s, of "0x1D0000"] demo_fits(2) by fastforce
  then show ?thesis
    using s c by (simp add: load_fixed_binary_def elf_demo kread_demo phdr_demo(2) mem_demo del: check_segments.simps load_segments.simps)
qed



end
