(* ===== verification/Settings.thy ===== *)
theory Settings
  imports Memcard Klib
begin

text \<open>
  The boot loader's settings, \<^verbatim>\<open>bootloader/src/settings.c\<close>, and its display modes,
  \<^verbatim>\<open>bootloader/src/video.c\<close>: the 128-byte record kept in block 1 of the card in
  slot 0, its defaults, load and save, the kernel command line built from it, and
  the menu that edits it. C strings are byte lists without the NUL.
\<close>

section \<open>Display modes\<close>

record video_mode_t =
  vm_width :: int
  vm_height :: int
  vm_pal :: bool
  vm_name :: string

definition video_modes :: "video_mode_t list" where
  "video_modes =
    [\<lparr>vm_width = 256, vm_height = 240, vm_pal = False, vm_name = ''256x240 60Hz''\<rparr>,
     \<lparr>vm_width = 256, vm_height = 256, vm_pal = True, vm_name = ''256x256 50Hz''\<rparr>,
     \<lparr>vm_width = 320, vm_height = 240, vm_pal = False, vm_name = ''320x240 60Hz''\<rparr>,
     \<lparr>vm_width = 320, vm_height = 256, vm_pal = True, vm_name = ''320x256 50Hz''\<rparr>,
     \<lparr>vm_width = 512, vm_height = 240, vm_pal = False, vm_name = ''512x240 60Hz''\<rparr>,
     \<lparr>vm_width = 512, vm_height = 256, vm_pal = True, vm_name = ''512x256 50Hz''\<rparr>,
     \<lparr>vm_width = 640, vm_height = 240, vm_pal = False, vm_name = ''640x240 60Hz''\<rparr>,
     \<lparr>vm_width = 640, vm_height = 256, vm_pal = True, vm_name = ''640x256 50Hz''\<rparr>]"

definition video_default_index :: "bool \<Rightarrow> int" where
  "video_default_index is_pal = (if is_pal then 3 else 2)"

function video_wrap_index :: "int \<Rightarrow> int" where
  "video_wrap_index index = (if index < 0 then video_wrap_index (index + 8) else index mod 8)"
  by pat_completeness auto

termination
  by (relation "measure (\<lambda>i. nat (- i))") auto

declare video_wrap_index.simps [simp del]

text \<open>The digits \<^verbatim>\<open>%d\<close> prints for a number that is not negative.\<close>

fun dec :: "nat \<Rightarrow> cstr" where
  "dec n = (if n < 10 then [of_nat (48 + n)] else dec (n div 10) @ [of_nat (48 + n mod 10)])"

declare dec.simps [simp del]

definition video_cmdline_arg :: "int \<Rightarrow> cstr" where
  "video_cmdline_arg index =
    (let m = video_modes ! nat (video_wrap_index index)
     in take 31 (s2b ''psxvideo='' @ dec (nat (vm_width m)) @ s2b ''x'' @ dec (nat (vm_height m)) @ s2b ''@'' @
          dec (if vm_pal m then 50 else 60)))"

section \<open>The settings block\<close>

abbreviation (input) SETTINGS_MAGIC :: u32 where "SETTINGS_MAGIC \<equiv> 0x424C4B53"
abbreviation (input) SETTINGS_VERSION :: u32 where "SETTINGS_VERSION \<equiv> 1"
abbreviation (input) BOOT_SRC_SERIAL_SLOW :: u8 where "BOOT_SRC_SERIAL_SLOW \<equiv> 0"
abbreviation (input) ROOT_DEV_CARD_SINGLE :: u8 where "ROOT_DEV_CARD_SINGLE \<equiv> 0"
abbreviation (input) ROOT_DEV_CARD_RAID :: u8 where "ROOT_DEV_CARD_RAID \<equiv> 1"
abbreviation (input) ROOT_DEV_RAM :: u8 where "ROOT_DEV_RAM \<equiv> 2"
abbreviation (input) ROOT_DEV_CDROM :: u8 where "ROOT_DEV_CDROM \<equiv> 3"
abbreviation (input) ROOT_DEV_COUNT :: nat where "ROOT_DEV_COUNT \<equiv> 4"
abbreviation (input) INIT_BIN_SH :: u8 where "INIT_BIN_SH \<equiv> 0"
abbreviation (input) INIT_LINUXRC :: u8 where "INIT_LINUXRC \<equiv> 1"
abbreviation (input) INIT_SBIN_INIT :: u8 where "INIT_SBIN_INIT \<equiv> 2"
abbreviation (input) CONSOLE_GPU_SERIAL :: u8 where "CONSOLE_GPU_SERIAL \<equiv> 0"
abbreviation (input) CONSOLE_GPU_ONLY :: u8 where "CONSOLE_GPU_ONLY \<equiv> 1"
abbreviation (input) CONSOLE_SERIAL_ONLY :: u8 where "CONSOLE_SERIAL_ONLY \<equiv> 2"

record blackroo_settings =
  st_magic :: u32
  st_version :: u32
  st_boot_source :: u8
  st_root_device :: u8
  st_init_program :: u8
  st_console_mode :: u8
  st_ram_size :: u8
  st_video_mode :: u8
  st_serial_baud :: u16
  st_auto_boot :: u8
  st_auto_boot_timeout :: u8
  st_boot_count :: u8
  st_last_boot_ok :: u8
  st_cmdline :: "u8 list"
  st_video_index :: u8
  st_reserved :: "u8 list"

text \<open>The packed structure in memory, and the view of a block as the structure.\<close>

definition settings_bytes :: "blackroo_settings \<Rightarrow> u8 list" where
  "settings_bytes st =
    le32_encode (st_magic st) @ le32_encode (st_version st) @
    [st_boot_source st, st_root_device st, st_init_program st, st_console_mode st, st_ram_size st, st_video_mode st] @
    le16_encode (st_serial_baud st) @
    [st_auto_boot st, st_auto_boot_timeout st, st_boot_count st, st_last_boot_ok st] @
    st_cmdline st @ [st_video_index st] @ st_reserved st"

definition settings_read :: "u8 list \<Rightarrow> blackroo_settings" where
  "settings_read b =
    \<lparr>st_magic = le32_at b 0, st_version = le32_at b 4, st_boot_source = b ! 8, st_root_device = b ! 9,
     st_init_program = b ! 10, st_console_mode = b ! 11, st_ram_size = b ! 12, st_video_mode = b ! 13,
     st_serial_baud = le16_at b 14, st_auto_boot = b ! 16, st_auto_boot_timeout = b ! 17, st_boot_count = b ! 18,
     st_last_boot_ok = b ! 19, st_cmdline = take 64 (drop 20 b), st_video_index = b ! 84, st_reserved = take 43 (drop 85 b)\<rparr>"

definition settings_default :: blackroo_settings where
  "settings_default =
    \<lparr>st_magic = SETTINGS_MAGIC, st_version = SETTINGS_VERSION, st_boot_source = BOOT_SRC_SERIAL_SLOW,
     st_root_device = ROOT_DEV_RAM, st_init_program = INIT_BIN_SH, st_console_mode = CONSOLE_GPU_SERIAL,
     st_ram_size = 0, st_video_mode = 0, st_serial_baud = 0, st_auto_boot = 0, st_auto_boot_timeout = 5,
     st_boot_count = 0, st_last_boot_ok = 0, st_cmdline = replicate 64 0, st_video_index = 0, st_reserved = replicate 43 0\<rparr>"

definition settings_load :: "'a mcs_scheme \<Rightarrow> blackroo_settings \<times> 'a mcs_scheme" where
  "settings_load s =
    (case memcard_read_block 0 1 s of
       (None, s) \<Rightarrow> (settings_default, s)
     | (Some block, s) \<Rightarrow>
        (let stored = settings_read block in
         if st_magic stored \<noteq> SETTINGS_MAGIC \<or> st_version stored \<noteq> SETTINGS_VERSION then (settings_default, s)
         else (stored, s)))"

definition settings_save :: "blackroo_settings \<Rightarrow> 'a mcs_scheme \<Rightarrow> bool \<times> 'a mcs_scheme" where
  "settings_save st s = memcard_write_block 0 1 (settings_bytes st) s"

section \<open>The command line\<close>

definition root_arg :: "u8 \<Rightarrow> cstr" where
  "root_arg d = s2b (if d = ROOT_DEV_CARD_SINGLE then ''root=/dev/bu0'' else if d = ROOT_DEV_CARD_RAID then ''root=/dev/bul''
     else if d = ROOT_DEV_RAM then ''root=/dev/ram0'' else if d = ROOT_DEV_CDROM then ''root=/dev/psxcd'' else ''root=/dev/bu0'')"

definition init_arg :: "u8 \<Rightarrow> cstr" where
  "init_arg p = s2b (if p = INIT_BIN_SH then ''init=/bin/sh'' else if p = INIT_LINUXRC then ''init=/linuxrc''
     else if p = INIT_SBIN_INIT then ''init=/sbin/init'' else ''init=/bin/sh'')"

definition console_arg :: "u8 \<Rightarrow> cstr" where
  "console_arg c = s2b (if c = CONSOLE_GPU_SERIAL then ''console=ttyS0,115200 console=tty0''
     else if c = CONSOLE_GPU_ONLY then ''console=tty0'' else if c = CONSOLE_SERIAL_ONLY then ''console=ttyS0,115200''
     else ''console=ttyS0,115200 console=tty0'')"

text \<open>
  The string left in \<^verbatim>\<open>buf\<close>. \<^verbatim>\<open>strncpy\<close> stops at a NUL or after \<open>bufsize - 1\<close> bytes,
  not at the end of the 64-byte field: \<open>after\<close> is the memory that follows the
  structure.
\<close>

definition settings_build_cmdline :: "u8 list \<Rightarrow> blackroo_settings \<Rightarrow> nat \<Rightarrow> cstr" where
  "settings_build_cmdline after st bufsize =
    (if hd (st_cmdline st) \<noteq> 0
     then takeWhile (\<lambda>c. c \<noteq> 0) (take (bufsize - 1) (st_cmdline st @ [st_video_index st] @ st_reserved st @ after))
     else let base = root_arg (st_root_device st) @ s2b '' '' @ init_arg (st_init_program st) @ s2b '' '' @ console_arg (st_console_mode st)
          in if st_video_index st \<noteq> 0
             then take (bufsize - 1) (base @ s2b '' '' @ video_cmdline_arg (uint (st_video_index st) - 1))
             else take (bufsize - 1) base)"

section \<open>The menu\<close>

text \<open>The name tables the menu indexes with the bytes of the settings.\<close>

definition boot_src_names :: "string list" where
  "boot_src_names = [''Serial (115200)'', ''Serial (518400)'', ''Memory Card'', ''CD-ROM'']"

definition root_dev_names :: "string list" where
  "root_dev_names = [''/dev/bu0 (single)'', ''/dev/bul (RAID)'', ''/dev/ram0 (ramdisk)'', ''/dev/psxcd (this disc)'']"

definition init_names :: "string list" where
  "init_names = [''/bin/sh'', ''/linuxrc'', ''/sbin/init'']"

definition console_names :: "string list" where
  "console_names = [''GPU + Serial'', ''GPU only'', ''Serial only'']"

definition ram_names :: "string list" where
  "ram_names = [''Auto'', ''2 MB'', ''4 MB'', ''8 MB'']"

text \<open>An array access of the menu: \<open>None\<close> is a read outside the table.\<close>

definition name_at :: "string list \<Rightarrow> u8 \<Rightarrow> string option" where
  "name_at tab i = (if unat i < length tab then Some (tab ! unat i) else None)"

text \<open>The names on the screen: boot source, root device, init, console, RAM.\<close>

definition settings_menu_names :: "blackroo_settings \<Rightarrow> string option list" where
  "settings_menu_names st =
    [name_at boot_src_names (st_boot_source st), name_at root_dev_names (st_root_device st),
     name_at init_names (st_init_program st), name_at console_names (st_console_mode st),
     name_at ram_names (if st_ram_size st > 3 then 0 else st_ram_size st)]"

definition read_pad_once :: "bool \<Rightarrow> u16 \<Rightarrow> u16 \<Rightarrow> u16 \<times> u16" where
  "read_pad_once stat_ok pad_btn prev =
    (let btn = (if stat_ok then NOT pad_btn else 0) in (btn AND NOT prev, btn))"

record smenu = mcs +
  sm_selected :: nat
  sm_changed :: bool
  sm_settings :: blackroo_settings

record sm_buttons =
  sm_up :: bool
  sm_down :: bool
  sm_right :: bool
  sm_left :: bool
  sm_enter :: bool

definition cycle :: "nat \<Rightarrow> nat \<Rightarrow> u8 \<Rightarrow> u8" where
  "cycle d n v = of_nat ((unat v + d) mod n)"

definition settings_change :: "bool \<Rightarrow> nat \<Rightarrow> blackroo_settings \<Rightarrow> blackroo_settings" where
  "settings_change right selected st =
    (if selected = 0 then st\<lparr>st_boot_source := cycle (if right then 1 else 3) 4 (st_boot_source st)\<rparr>
     else if selected = 1 then st\<lparr>st_root_device := cycle (if right then 1 else ROOT_DEV_COUNT - 1) ROOT_DEV_COUNT (st_root_device st)\<rparr>
     else if selected = 2 then st\<lparr>st_init_program := cycle (if right then 1 else 2) 3 (st_init_program st)\<rparr>
     else if selected = 3 then st\<lparr>st_console_mode := cycle (if right then 1 else 2) 3 (st_console_mode st)\<rparr>
     else if selected = 4 then st\<lparr>st_ram_size := cycle (if right then 1 else 3) 4 (st_ram_size st)\<rparr>
     else if selected = 5 then st\<lparr>st_auto_boot := (if st_auto_boot st \<noteq> 0 then 0 else 1)\<rparr>
     else st)"

text \<open>One pass of the menu's loop; \<open>None\<close> is leaving the menu.\<close>

definition settings_menu_step :: "sm_buttons \<Rightarrow> smenu \<Rightarrow> smenu option" where
  "settings_menu_step pressed s =
    (let s = (if sm_up pressed \<and> sm_selected s > 0 then s\<lparr>sm_selected := sm_selected s - 1\<rparr> else s);
         s = (if sm_down pressed \<and> sm_selected s < 7 then s\<lparr>sm_selected := sm_selected s + 1\<rparr> else s);
         s = (if sm_right pressed
              then s\<lparr>sm_changed := True, sm_settings := settings_change True (sm_selected s) (sm_settings s)\<rparr> else s);
         s = (if sm_left pressed
              then s\<lparr>sm_changed := True, sm_settings := settings_change False (sm_selected s) (sm_settings s)\<rparr> else s) in
     if sm_enter pressed
     then if sm_selected s = 6
          then case settings_save (sm_settings s) s of
                 (True, s) \<Rightarrow> Some (s\<lparr>sm_changed := False\<rparr>)
               | (False, s) \<Rightarrow> Some s
          else if sm_selected s = 7 then None
          else Some s
     else Some s)"

section \<open>The block and the structure\<close>

definition settings_wf :: "blackroo_settings \<Rightarrow> bool" where
  "settings_wf st \<longleftrightarrow> length (st_cmdline st) = 64 \<and> length (st_reserved st) = 43"

lemma length_settings_bytes: "settings_wf st \<Longrightarrow> length (settings_bytes st) = 128"
  by (simp add: settings_bytes_def settings_wf_def)

lemma settings_read_bytes:
  assumes "settings_wf st"
  shows "settings_read (settings_bytes st) = st"
  using assms
  by (cases st) (simp add: settings_read_def settings_bytes_def settings_wf_def le32_encode_def le16_encode_def le32_at_def le16_at_def
    nth_append nth_Cons')

lemma settings_load_ready:
  assumes "mc_answers (hw_env s) (\<lambda>k. mc_card_reply 1 (settings_bytes st) (k - length (reads SIO0_DATA (hw_trace (mc_open 0 s)))))"
    and "settings_wf st"
  shows "fst (settings_load s) =
    (if st_magic st = SETTINGS_MAGIC \<and> st_version st = SETTINGS_VERSION then st else settings_default)"
proof -
  obtain s' where "memcard_read_block 0 1 s = (Some (settings_bytes st), s')"
    using memcard_read_block_ready [OF assms(1) length_settings_bytes [OF assms(2)]] by blast
  then show ?thesis
    by (simp add: settings_load_def settings_read_bytes [OF assms(2)])
qed

section \<open>What the menu keeps\<close>

lemma port_steps_emits: "(\<And>b s. emits P s (snd (xfer b s))) \<Longrightarrow> emits P s (snd (snd (port_steps xfer ps s)))"
proof (induction ps arbitrary: s)
  case (Cons p ps)
  obtain b test where p: "p = (b, test)"
    by (cases p)
  have "emits P s (snd (xfer b s))"
    by (rule Cons.prems)
  moreover have "emits P (snd (xfer b s)) (snd (snd (port_steps xfer ps (snd (xfer b s)))))"
    by (rule Cons.IH [OF Cons.prems])
  ultimately show ?case
    using emits_trans by (auto simp: p split: prod.splits)
qed simp

lemma sio0_xfer_emits: "emits (\<lambda>_. True) s (snd (sio0_xfer b s))"
proof -
  have w: "emits (\<lambda>_. True) v u \<Longrightarrow> emits (\<lambda>_. True) v (snd (mc_wait n c u))" for n c and v u :: "'a hw_scheme"
    by (rule emits_trans [OF _ emits_mono [OF mc_wait_emits]]) simp_all
  show ?thesis
    unfolding sio0_xfer_def bus_defs case_prod_unfold by (simp add: w)
qed

lemma mcs_more_emits: "emits P s s' \<Longrightarrow> mcs.more s' = mcs.more (s :: 'a mcs_scheme)"
  by (drule emits_more) (cases s; cases s'; simp)

lemma memcard_write_block_more: "mcs.more (snd (memcard_write_block slot block d s)) = mcs.more s"
proof -
  have d: "emits (\<lambda>_. True) v u \<Longrightarrow> emits (\<lambda>_. True) v (sio0_drain n u)" for n and v u :: "'b hw_scheme"
    by (induction n arbitrary: u) (simp_all add: bus_defs)
  have i: "emits (\<lambda>_. True) u (sio0_init_card p u)" for p and u :: "'b hw_scheme"
    unfolding sio0_init_card_def bus_defs by (intro emits_any d) simp
  have c: "mcs.more (mc_close u) = mcs.more u" for u :: "'a mcs_scheme"
    by (cases u) (simp add: mc_close_def sio0_shutdown_def resume_pad_def bus_defs emit_def)
  have o: "mcs.more (mc_open p u) = mcs.more u" for p and u :: "'a mcs_scheme"
    using mcs_more_emits [OF i, of "MC_PORT p" "pause_pad u"]
    by (cases u) (simp add: mc_open_def pause_pad_def bus_defs emit_def)
  have "mcs.more (snd (snd (port_steps sio0_xfer ps u))) = mcs.more u" for ps and u :: "'a mcs_scheme"
    by (rule mcs_more_emits, rule port_steps_emits, rule sio0_xfer_emits)
  then show ?thesis
    by (simp add: memcard_write_block_def c o case_prod_unfold Let_def)
qed

lemma settings_save_keeps [simp]:
  "sm_settings (snd (settings_save st s)) = sm_settings s" "sm_selected (snd (settings_save st s)) = sm_selected s"
  "sm_changed (snd (settings_save st s)) = sm_changed s"
  using memcard_write_block_more [of 0 1 "settings_bytes st" s]
  by (cases s; cases "snd (memcard_write_block 0 1 (settings_bytes st) s)"; simp add: settings_save_def)+

definition menu_in_tables :: "blackroo_settings \<Rightarrow> bool" where
  "menu_in_tables st \<longleftrightarrow> None \<notin> set (settings_menu_names st)"

lemma menu_in_tables_iff:
  "menu_in_tables st \<longleftrightarrow> st_boot_source st < 4 \<and> st_root_device st < 4 \<and> st_init_program st < 3 \<and> st_console_mode st < 3"
  by (auto simp: menu_in_tables_def settings_menu_names_def name_at_def boot_src_names_def root_dev_names_def init_names_def
    console_names_def ram_names_def word_less_nat_alt split: if_splits)

lemma cycle_less:
  assumes "0 < n" "n < 256"
  shows "unat (cycle d n v) < n"
proof -
  have "(unat v + d) mod n < n"
    using assms by simp
  then show ?thesis
    using assms(2) by (simp add: cycle_def unat_of_nat take_bit_nat_eq_self)
qed

lemma settings_change_keeps:
  assumes "settings_wf st" "menu_in_tables st"
  shows "settings_wf (settings_change r k st)" "menu_in_tables (settings_change r k st)"
  using assms cycle_less [of 4] cycle_less [of 3]
  by (auto simp: settings_change_def settings_wf_def menu_in_tables_iff word_less_nat_alt)

definition sm_inv :: "smenu \<Rightarrow> bool" where
  "sm_inv s \<longleftrightarrow> settings_wf (sm_settings s) \<and> menu_in_tables (sm_settings s) \<and> sm_selected s < 8"

lemma settings_menu_step_inv:
  assumes "sm_inv s" "settings_menu_step pressed s = Some s'"
  shows "sm_inv s'"
proof -
  define s1 where "s1 = (if sm_up pressed \<and> sm_selected s > 0 then s\<lparr>sm_selected := sm_selected s - 1\<rparr> else s)"
  define s2 where "s2 = (if sm_down pressed \<and> sm_selected s1 < 7 then s1\<lparr>sm_selected := sm_selected s1 + 1\<rparr> else s1)"
  define s3 where "s3 = (if sm_right pressed
    then s2\<lparr>sm_changed := True, sm_settings := settings_change True (sm_selected s2) (sm_settings s2)\<rparr> else s2)"
  define s4 where "s4 = (if sm_left pressed
    then s3\<lparr>sm_changed := True, sm_settings := settings_change False (sm_selected s3) (sm_settings s3)\<rparr> else s3)"
  have "sm_inv s1"
    using assms(1) by (auto simp: s1_def sm_inv_def)
  then have "sm_inv s2"
    by (auto simp: s2_def sm_inv_def)
  then have "sm_inv s3"
    by (auto simp: s3_def sm_inv_def settings_change_keeps)
  then have s4: "sm_inv s4"
    by (auto simp: s4_def sm_inv_def settings_change_keeps)
  have "s' = s4 \<or> s' = (snd (settings_save (sm_settings s4) s4))\<lparr>sm_changed := False\<rparr> \<or> s' = snd (settings_save (sm_settings s4) s4)"
    using assms(2) unfolding settings_menu_step_def Let_def s1_def [symmetric] s2_def [symmetric] s3_def [symmetric] s4_def [symmetric]
    by (auto split: if_splits prod.splits bool.splits)
  then show ?thesis
    using s4 by (auto simp: sm_inv_def)
qed

text \<open>The menu as a state machine; \<open>None\<close> is the state after leaving it.\<close>

definition sm_step :: "sm_buttons \<Rightarrow> smenu option \<Rightarrow> smenu option" where
  "sm_step pressed s = Option.bind s (settings_menu_step pressed)"

interpretation smmenu: step_system "\<lambda>s. \<exists>s0. s = Some s0 \<and> sm_inv s0" sm_step "\<lambda>s. \<forall>s0. s = Some s0 \<longrightarrow> sm_inv s0"
proof unfold_locales
  show "\<forall>s0. sm_step e s = Some s0 \<longrightarrow> sm_inv s0" if "\<forall>s0. s = Some s0 \<longrightarrow> sm_inv s0" for s e
    using that settings_menu_step_inv by (cases s) (auto simp: sm_step_def)
qed auto


section \<open>Properties\<close>

text \<open>
  C37: Settings survive the card. The structure and its 128-byte block determine each
  other, and the loader, reading a card whose block 1 holds the bytes that
  \<^verbatim>\<open>settings_save\<close> writes, gets back the settings that were saved; a block with
  another magic number or version gives the defaults.
\<close>

theorem settings_roundtrip:
  assumes "settings_wf st"
    and "mc_answers (hw_env s) (\<lambda>k. mc_card_reply 1 (settings_bytes st) (k - length (reads SIO0_DATA (hw_trace (mc_open 0 s)))))"
  shows "length (settings_bytes st) = 128 \<and> settings_read (settings_bytes st) = st \<and>
    fst (settings_load s) = (if st_magic st = SETTINGS_MAGIC \<and> st_version st = SETTINGS_VERSION then st else settings_default)"
  using assms settings_load_ready [OF assms(2,1)] by (simp add: length_settings_bytes settings_read_bytes)

text \<open>
  The settings menu never indexes a name table out of range. From settings
  whose bytes are in the tables (the defaults are), any sequence of presses, saves
  that fail included, keeps every index in its table, the cursor on one of
  the eight items and the structure 128 bytes long.
\<close>

theorem settings_menu_safe:
  assumes "settings_wf (sm_settings s)" "None \<notin> set (settings_menu_names (sm_settings s))" "sm_selected s < 8"
    and "fold sm_step presses (Some s) = Some s'"
  shows "None \<notin> set (settings_menu_names (sm_settings s')) \<and> sm_selected s' < 8 \<and> length (settings_bytes (sm_settings s')) = 128"
proof -
  have "\<exists>s0. Some s = Some s0 \<and> sm_inv s0"
    using assms(1-3) by (simp add: sm_inv_def menu_in_tables_def)
  from smmenu.reachable_inv [OF this, of presses] have "sm_inv s'"
    using assms(4) by simp
  then show ?thesis
    by (simp add: sm_inv_def menu_in_tables_def length_settings_bytes)
qed


section \<open>Witnesses\<close>

definition st_demo :: blackroo_settings where
  "st_demo = settings_default\<lparr>st_root_device := ROOT_DEV_CDROM, st_video_index := 8\<rparr>"

definition st_demo_hw :: mcs where
  "st_demo_hw = mc_demo\<lparr>hw_env := (\<lambda>t a. if a = SIO0_STAT then 3 else ucast (mc_card_reply 1 (settings_bytes st_demo) (length (reads SIO0_DATA t) - 10)))\<rparr>"

lemma st_demo_open: "length (reads SIO0_DATA (hw_trace (mc_open 0 st_demo_hw))) = 10"
proof -
  let ?s = "delay 500 (out16 SIO0_CTRL 0x0040 (pause_pad st_demo_hw))"
  have "hw_env ?s t SIO0_STAT = 3" "reads SIO0_DATA (hw_trace ?s) = []" for t
    by (simp_all add: pause_pad_def st_demo_hw_def mc_demo_def bus_defs)
  then have "length (reads SIO0_DATA (hw_trace (sio0_drain 10 ?s))) = 10"
    using sio0_drain_ready [of ?s 10] by simp
  then show ?thesis
    by (simp add: mc_open_def sio0_init_card_def Let_def out16_def delay_def)
qed

theorem settings_roundtrip_witness: "fst (settings_load st_demo_hw) = st_demo"
proof -
  have "settings_wf st_demo"
    by (simp add: settings_wf_def st_demo_def settings_default_def)
  moreover have "mc_answers (hw_env st_demo_hw) (\<lambda>k. mc_card_reply 1 (settings_bytes st_demo) (k - length (reads SIO0_DATA (hw_trace (mc_open 0 st_demo_hw)))))"
    unfolding st_demo_open by (simp add: mc_answers_def st_demo_hw_def)
  ultimately show ?thesis
    using settings_roundtrip [of st_demo st_demo_hw] by (simp add: st_demo_def settings_default_def)
qed

definition sm_demo :: smenu where
  "sm_demo = mcs.extend mc_demo \<lparr>sm_selected = 0, sm_changed = False, sm_settings = settings_default\<rparr>"

definition sm_press :: "bool \<Rightarrow> bool \<Rightarrow> sm_buttons" where
  "sm_press down right = \<lparr>sm_up = False, sm_down = down, sm_right = right, sm_left = False, sm_enter = False\<rparr>"

theorem settings_menu_safe_witness:
  "\<exists>s'. fold sm_step [sm_press True True, sm_press True False] (Some sm_demo) = Some s' \<and>
     st_root_device (sm_settings s') = 3 \<and> None \<notin> set (settings_menu_names (sm_settings s'))"
proof -
  have "settings_wf (sm_settings sm_demo)" "None \<notin> set (settings_menu_names (sm_settings sm_demo))" "sm_selected sm_demo < 8"
    by (simp_all add: sm_demo_def mcs.defs settings_wf_def settings_default_def settings_menu_names_def name_at_def
        boot_src_names_def root_dev_names_def init_names_def console_names_def ram_names_def)
  note safe = settings_menu_safe [OF this]
  obtain s' where "fold sm_step [sm_press True True, sm_press True False] (Some sm_demo) = Some s'" "st_root_device (sm_settings s') = 3"
    by (simp add: sm_step_def settings_menu_step_def sm_press_def sm_demo_def mcs.defs settings_change_def cycle_def settings_default_def)
  then show ?thesis
    using safe by blast
qed

end
