(* ===== verification/KernelBoot.thy ===== *)
theory KernelBoot
  imports Settings Mem
begin

text \<open>
  Loading and starting the kernel, \<^verbatim>\<open>bootloader/src/kernel.c\<close>: the PS-EXE copied
  from memory or sector by sector from the disc, the registers and the command
  line that are handed over, the jump. The CD library and the screen library of
  the SDK are not part of the repository: the library's file search and sector
  read are arguments of \<open>cdrom_boot\<close>, the screen is not modelled. The loader's
  own image is not kept in the modelled memory.
\<close>

record bls = mcs +
  ram :: mem
  cfg :: blackroo_settings
  ram_size_kb :: u32

text \<open>A call that does not come back has jumped to an address.\<close>

datatype 'r flow = Returned 'r | Jumped u32

abbreviation (input) RAM_SIZE_REG :: u32 where "RAM_SIZE_REG \<equiv> 0x1F801060"
abbreviation (input) INT_STAT :: u32 where "INT_STAT \<equiv> 0x1F801070"
abbreviation (input) INT_MASK :: u32 where "INT_MASK \<equiv> 0x1F801074"
abbreviation (input) DMA_DPCR :: u32 where "DMA_DPCR \<equiv> 0x1F8010F0"
abbreviation (input) DMA_DICR :: u32 where "DMA_DICR \<equiv> 0x1F8010F4"
abbreviation (input) RAM_REG_2MB :: u32 where "RAM_REG_2MB \<equiv> 0x0888"
abbreviation (input) RAM_REG_4MB :: u32 where "RAM_REG_4MB \<equiv> 0x0988"
abbreviation (input) RAM_REG_8MB :: u32 where "RAM_REG_8MB \<equiv> 0x0B88"

record psexe_header_t =
  px_magic :: "u8 list"
  px_pc0 :: u32
  px_gp0 :: u32
  px_t_addr :: u32
  px_t_size :: u32
  px_sp :: u32

definition psexe_header :: "u8 list \<Rightarrow> psexe_header_t" where
  "psexe_header b = \<lparr>px_magic = take 8 b, px_pc0 = le32_at b 16, px_gp0 = le32_at b 20, px_t_addr = le32_at b 24,
     px_t_size = le32_at b 28, px_sp = le32_at b 48\<rparr>"

text \<open>
  \<^verbatim>\<open>data\<close> points into memory; \<^verbatim>\<open>memcpy\<close> is defined when source and target do not overlap,
  and then copies the bytes as they were.
\<close>

definition kernel_load_psexe :: "u32 \<Rightarrow> u32 \<Rightarrow> 'a bls_scheme \<Rightarrow> u32 \<times> 'a bls_scheme" where
  "kernel_load_psexe data len s =
    (let hdr = psexe_header (get_bytes (ram s) data 52) in
     if px_magic hdr \<noteq> s2b ''PS-X EXE'' then (0, s)
     else (px_pc0 hdr, s\<lparr>ram := put_bytes (px_t_addr hdr) (get_bytes (ram s) (data + 2048) (unat (px_t_size hdr))) (ram s)\<rparr>))"

text \<open>The C library's \<^verbatim>\<open>strncpy\<close>: the bytes it stores, padded with NULs.\<close>

definition strncpy_bytes :: "cstr \<Rightarrow> nat \<Rightarrow> u8 list" where
  "strncpy_bytes src n = take n (src @ replicate n 0)"

definition put_cmdline :: "cstr \<Rightarrow> mem \<Rightarrow> mem" where
  "put_cmdline cmdline m =
    (let m = put_bytes 0x80000180 (s2b ''BRCL'') m;
         m = put_bytes (0x80000180 + 4) (strncpy_bytes cmdline 251) m
     in put_bytes (0x80000180 + 255) [0] m)"

definition kernel_launch :: "u32 \<Rightarrow> u32 \<Rightarrow> cstr option \<Rightarrow> 'a bls_scheme \<Rightarrow> 'r flow \<times> 'a bls_scheme" where
  "kernel_launch entry_point ram_kb cmdline s =
    (let s = out32 RAM_SIZE_REG (if ram_kb = 8192 then RAM_REG_8MB else if ram_kb = 4096 then RAM_REG_4MB else RAM_REG_2MB) s;
         s = out16 INT_MASK 0 s;
         s = out16 INT_STAT 0 s;
         s = out32 DMA_DPCR 0 s;
         s = out32 DMA_DICR 0 s;
         s = (case cmdline of None \<Rightarrow> s | Some l \<Rightarrow> s\<lparr>ram := put_cmdline l (ram s)\<rparr>)
     in (Jumped entry_point, s))"

section \<open>Booting from the disc\<close>

text \<open>
  The SDK's CD library: \<open>search\<close> is \<^verbatim>\<open>CdSearchFile\<close>, the sector number and the size
  of a file; \<open>sector n\<close> is what \<^verbatim>\<open>CdRead\<close> of one sector delivers after \<^verbatim>\<open>CdlSetloc\<close> to
  sector \<open>n\<close>.
\<close>

datatype boot_error = FileNotFound | FileTooSmall | NotPsExe

function cdrom_load :: "(int \<Rightarrow> u8 list) \<Rightarrow> int \<Rightarrow> u32 \<Rightarrow> u32 \<Rightarrow> nat \<Rightarrow> int \<Rightarrow> mem \<Rightarrow> mem" where
  "cdrom_load sector pos dst offset remaining loc m =
    (if remaining > 0
     then let chunk = (if remaining > 2048 then 2048 else remaining);
              m = put_bytes (dst + offset) (take chunk (sector loc)) m;
              offset = offset + of_nat chunk
          in cdrom_load sector pos dst offset (remaining - chunk) (pos + 1 + uint (offset div 2048)) m
     else m)"
  by pat_completeness auto

termination
  by (relation "measure (\<lambda>(_, _, _, _, r, _, _). r)") auto

declare cdrom_load.simps [simp del]

definition boot_profile :: "int \<Rightarrow> blackroo_settings \<Rightarrow> blackroo_settings" where
  "boot_profile profile c =
    (if profile = 0 then c\<lparr>st_root_device := ROOT_DEV_CDROM, st_init_program := INIT_BIN_SH, st_console_mode := CONSOLE_GPU_SERIAL\<rparr>
     else if profile = 1 then c\<lparr>st_root_device := ROOT_DEV_RAM, st_init_program := INIT_BIN_SH, st_console_mode := CONSOLE_GPU_SERIAL\<rparr>
     else c)"

text \<open>\<open>after\<close> is the stack memory that follows the local copy of the settings.\<close>

definition cdrom_boot ::
  "(string \<Rightarrow> (int \<times> u32) option) \<Rightarrow> (int \<Rightarrow> u8 list) \<Rightarrow> u8 list \<Rightarrow> string \<Rightarrow> int \<Rightarrow> 'a bls_scheme \<Rightarrow> boot_error flow \<times> 'a bls_scheme" where
  "cdrom_boot search sector after filename profile s =
    (case search filename of
       None \<Rightarrow> (Returned FileNotFound, s)
     | Some (pos, file_size) \<Rightarrow>
        if file_size < 2048 then (Returned FileTooSmall, s)
        else let hdr = psexe_header (sector pos) in
             if px_magic hdr \<noteq> s2b ''PS-X EXE'' then (Returned NotPsExe, s)
             else let s = s\<lparr>ram := cdrom_load sector pos (px_t_addr hdr) 0 (unat (px_t_size hdr)) (pos + 1) (ram s)\<rparr>;
                      boot_cfg = boot_profile profile (cfg s);
                      cmdline = settings_build_cmdline after boot_cfg 192
                  in kernel_launch (px_pc0 hdr) (ram_size_kb s) (Some cmdline) s)"

section \<open>What the disc loader stores\<close>

text \<open>Bytes \<open>o\<close> to \<open>o + n\<close> of the data that starts at sector \<open>base\<close>.\<close>

definition disc_data :: "(int \<Rightarrow> u8 list) \<Rightarrow> int \<Rightarrow> nat \<Rightarrow> nat \<Rightarrow> u8 list" where
  "disc_data sector base off n = map (\<lambda>i. sector (base + int (i div 2048)) ! (i mod 2048)) [off..<off + n]"

lemma disc_data_append: "disc_data sector base off (n + k) = disc_data sector base off n @ disc_data sector base (off + n) k"
  unfolding disc_data_def using upt_add_eq_append [of off "off + n" k] by (simp only: add.assoc map_append)

lemma disc_data_sector:
  assumes "length (sector (base + int (off div 2048))) = 2048" "off mod 2048 = 0" "n \<le> 2048"
  shows "take n (sector (base + int (off div 2048))) = disc_data sector base off n"
proof (rule nth_equalityI)
  show "length (take n (sector (base + int (off div 2048)))) = length (disc_data sector base off n)"
    using assms by (simp add: disc_data_def)
  fix i assume "i < length (take n (sector (base + int (off div 2048))))"
  then have "i < n" "i < 2048"
    using assms by simp_all
  moreover have "(off + i) div 2048 = off div 2048" "(off + i) mod 2048 = i"
    using assms(2) \<open>i < 2048\<close> by (auto simp: mod_eq_0_iff_dvd elim!: dvdE)
  ultimately show "take n (sector (base + int (off div 2048))) ! i = disc_data sector base off n ! i"
    by (simp add: disc_data_def)
qed

lemma uint_of_nat_div:
  assumes "n < 2 ^ 32"
  shows "uint (of_nat n div 2048 :: u32) = int (n div 2048)"
proof -
  have "uint (of_nat n :: u32) = int n"
    using assms by (simp add: unsigned_of_nat take_bit_nat_eq_self)
  then have "uint (of_nat n div 2048 :: u32) = int n div 2048"
    by (simp only: uint_div) simp
  then show ?thesis
    by (simp add: zdiv_int)
qed

lemma cdrom_load_data:
  assumes "\<And>n. length (sector n) = 2048" "off mod 2048 = 0" "off + r < 2 ^ 32"
  shows "cdrom_load sector pos dst (of_nat off) r (pos + 1 + int (off div 2048)) m =
    put_bytes (dst + of_nat off) (disc_data sector (pos + 1) off r) m"
  using assms(2,3)
proof (induction r arbitrary: off m rule: less_induct)
  case (less r)
  have d: "n \<le> 2048 \<Longrightarrow> take n (sector (pos + 1 + int (off div 2048))) = disc_data sector (pos + 1) off n" for n
    by (rule disc_data_sector [OF assms(1) less.prems(1)])
  consider "r = 0" | "0 < r" "r \<le> 2048" | "2048 < r"
    by linarith
  then show ?case
  proof cases
    case 1
    then show ?thesis
      by (simp add: cdrom_load.simps disc_data_def)
  next
    case 2
    then show ?thesis
      using d [of r] by (simp add: cdrom_load.simps [of _ _ _ _ r] cdrom_load.simps [of _ _ _ _ 0])
  next
    case 3
    let ?o = "off + 2048"
    have o: "?o mod 2048 = 0" "?o + (r - 2048) < 2 ^ 32" "?o < 2 ^ 32"
      using less.prems 3 by simp_all
    have u: "of_nat off + 2048 = (of_nat ?o :: u32)" "uint ((of_nat off + 2048 :: u32) div 2048) = int (?o div 2048)"
      using uint_of_nat_div [OF o(3)] by simp_all
    have "cdrom_load sector pos dst (of_nat off) r (pos + 1 + int (off div 2048)) m =
        cdrom_load sector pos dst (of_nat ?o) (r - 2048) (pos + 1 + int (?o div 2048))
          (put_bytes (dst + of_nat off) (disc_data sector (pos + 1) off 2048) m)"
      using 3 d [of 2048] u by (subst cdrom_load.simps) (simp add: Let_def del: of_nat_add)
    also have "\<dots> = put_bytes (dst + of_nat ?o) (disc_data sector (pos + 1) ?o (r - 2048))
        (put_bytes (dst + of_nat off) (disc_data sector (pos + 1) off 2048) m)"
      using less.IH [OF _ o(1,2)] 3 by simp
    also have "\<dots> = put_bytes (dst + of_nat off) (disc_data sector (pos + 1) off (2048 + (r - 2048))) m"
      by (simp only: disc_data_append put_bytes_append) (simp add: disc_data_def add.assoc)
    finally show ?thesis
      using 3 by simp
  qed
qed


section \<open>What the kernel is handed\<close>

lemma length_strncpy_bytes [simp]: "length (strncpy_bytes l n) = n"
  by (simp add: strncpy_bytes_def)

lemma put_cmdline_bytes: "put_cmdline l m = put_bytes 0x80000180 (s2b ''BRCL'' @ strncpy_bytes l 251 @ [0]) m"
  by (simp add: put_cmdline_def put_bytes_append Let_def)

lemma put_cmdline_area: "p \<notin> span 0x80000180 256 \<Longrightarrow> put_cmdline l m p = m p"
  unfolding put_cmdline_bytes by (rule put_bytes_other) simp

lemma kernel_launch_ram:
  "\<exists>s'. kernel_launch e kb (Some l) s = (Jumped e, s') \<and> ram s' = put_cmdline l (ram s)"
  by (simp add: kernel_launch_def bus_defs emit_def)



definition px_demo_hdr :: "u8 list" where
  "px_demo_hdr = s2b ''PS-X EXE'' @ replicate 8 0 @ le32_encode 0x80010000 @ le32_encode 0 @ le32_encode 0x80010000 @ le32_encode 3000 @
     replicate 2016 0"

definition px_demo_sector :: "int \<Rightarrow> u8 list" where
  "px_demo_sector n = (if n = 20 then px_demo_hdr else replicate 2048 (of_int n))"

lemma px_demo: "px_pc0 (psexe_header px_demo_hdr) = 0x80010000" "px_t_addr (psexe_header px_demo_hdr) = 0x80010000"
  "px_t_size (psexe_header px_demo_hdr) = 3000" "take 8 px_demo_hdr = s2b ''PS-X EXE''" "length px_demo_hdr = 2048"
  by (simp_all add: psexe_header_def px_demo_hdr_def le32_at_def le32_encode_def le32_decode_def nth_append nth_Cons')

definition bls_demo :: bls where
  "bls_demo = mcs.extend mc_demo \<lparr>ram = (\<lambda>_. 0), cfg = settings_default, ram_size_kb = 2048\<rparr>"


end
