(* ===== verification/Serial.thy ===== *)
theory Serial
  imports Bus
begin

text \<open>
  The boot loader's serial port, \<^verbatim>\<open>bootloader/src/serial.c\<close>: SIO1 polled byte by
  byte. A wait for the transmitter has no limit (\<open>None\<close>: it never ends), a wait
  for a byte gives up after a count of polls.
\<close>

abbreviation (input) SIO1_DATA :: u32 where "SIO1_DATA \<equiv> 0x1F801050"
abbreviation (input) SIO1_STAT :: u32 where "SIO1_STAT \<equiv> 0x1F801054"
abbreviation (input) SIO1_MODE :: u32 where "SIO1_MODE \<equiv> 0x1F801058"
abbreviation (input) SIO1_CTRL :: u32 where "SIO1_CTRL \<equiv> 0x1F80105A"
abbreviation (input) SIO1_BAUD :: u32 where "SIO1_BAUD \<equiv> 0x1F80105E"
abbreviation (input) SIO_STAT_TXRDY :: u16 where "SIO_STAT_TXRDY \<equiv> 1"
abbreviation (input) SIO_STAT_RXRDY :: u16 where "SIO_STAT_RXRDY \<equiv> 2"
abbreviation (input) SERIAL_BAUD_SLOW :: u32 where "SERIAL_BAUD_SLOW \<equiv> 115200"
abbreviation (input) SERIAL_BAUD_FAST :: u32 where "SERIAL_BAUD_FAST \<equiv> 518400"

section \<open>Operations\<close>

partial_function (option) serial_drain :: "'a hw_scheme \<Rightarrow> 'a hw_scheme option" where
  "serial_drain s =
    (case in16 SIO1_STAT s of (st, s) \<Rightarrow>
       if st AND SIO_STAT_RXRDY \<noteq> 0 then serial_drain (snd (in8 SIO1_DATA s)) else Some s)"

definition serial_init :: "u32 \<Rightarrow> 'a hw_scheme \<Rightarrow> 'a hw_scheme option" where
  "serial_init baud s =
    (let s = out16 SIO1_CTRL 0x40 s;
         s = delay 1000 s in
     case serial_drain s of
       None \<Rightarrow> None
     | Some s \<Rightarrow>
        (let s = out16 SIO1_MODE 0x4E s;
             s = out16 SIO1_BAUD (if baud = SERIAL_BAUD_FAST then 0x04 else 0x12) s;
             s = out16 SIO1_CTRL 0x27 s
         in Some (delay 1000 s)))"

partial_function (option) serial_wait_tx :: "'a hw_scheme \<Rightarrow> 'a hw_scheme option" where
  "serial_wait_tx s =
    (case in16 SIO1_STAT s of (st, s) \<Rightarrow> if st AND SIO_STAT_TXRDY = 0 then serial_wait_tx s else Some s)"

definition serial_putchar :: "u8 \<Rightarrow> 'a hw_scheme \<Rightarrow> 'a hw_scheme option" where
  "serial_putchar c s = map_option (out8 SIO1_DATA c) (serial_wait_tx s)"

fun serial_puts :: "u8 list \<Rightarrow> 'a hw_scheme \<Rightarrow> 'a hw_scheme option" where
  "serial_puts [] s = Some s"
| "serial_puts (c # cs) s = Option.bind (serial_putchar c s) (serial_puts cs)"

text \<open>The polls of a receive: whether RXRDY was seen before the count passed \<open>n\<close>.\<close>

fun serial_wait_rx :: "nat \<Rightarrow> 'a hw_scheme \<Rightarrow> bool \<times> 'a hw_scheme" where
  "serial_wait_rx n s =
    (case in16 SIO1_STAT s of (st, s) \<Rightarrow>
       if st AND SIO_STAT_RXRDY \<noteq> 0 then (True, s)
       else case n of 0 \<Rightarrow> (False, s) | Suc n \<Rightarrow> serial_wait_rx n s)"

declare serial_wait_rx.simps [simp del]

definition serial_getchar_timeout :: "nat \<Rightarrow> 'a hw_scheme \<Rightarrow> u8 option \<times> 'a hw_scheme" where
  "serial_getchar_timeout n s =
    (case serial_wait_rx n s of
       (False, s) \<Rightarrow> (None, s)
     | (True, s) \<Rightarrow> let (b, s) = in8 SIO1_DATA s in (Some b, s))"

definition serial_getchar :: "'a hw_scheme \<Rightarrow> u8 option \<times> 'a hw_scheme" where
  "serial_getchar = serial_getchar_timeout 10000000"

definition serial_send_u32 :: "u32 \<Rightarrow> 'a hw_scheme \<Rightarrow> 'a hw_scheme option" where
  "serial_send_u32 val s =
    Option.bind (serial_putchar (ucast (val AND 0xFF)) s) (\<lambda>s.
    Option.bind (serial_putchar (ucast (drop_bit 8 val AND 0xFF)) s) (\<lambda>s.
    Option.bind (serial_putchar (ucast (drop_bit 16 val AND 0xFF)) s) (\<lambda>s.
    serial_putchar (ucast (drop_bit 24 val AND 0xFF)) s)))"

definition serial_recv_u32 :: "'a hw_scheme \<Rightarrow> u32 option \<times> 'a hw_scheme" where
  "serial_recv_u32 s =
    (case serial_getchar s of (None, s) \<Rightarrow> (None, s) | (Some b0, s) \<Rightarrow>
    (case serial_getchar s of (None, s) \<Rightarrow> (None, s) | (Some b1, s) \<Rightarrow>
    (case serial_getchar s of (None, s) \<Rightarrow> (None, s) | (Some b2, s) \<Rightarrow>
    (case serial_getchar s of (None, s) \<Rightarrow> (None, s) | (Some b3, s) \<Rightarrow>
      (Some (ucast b0 OR push_bit 8 (ucast b1) OR push_bit 16 (ucast b2) OR push_bit 24 (ucast b3)), s)))))"

section \<open>A peer at the other end\<close>

text \<open>
  The line with a peer on it. The peer is a function from the bytes it has been
  sent to all the bytes it has sent; a byte of it that has not been read is
  ready, and the transmitter is always ready. The counts are taken from the
  \<open>r\<close>-th byte read and the \<open>w\<close>-th byte written on; \<open>other\<close> is the rest of the
  machine.
\<close>

definition line_in :: "nat \<Rightarrow> bus_trace \<Rightarrow> nat" where
  "line_in r t = length (reads SIO1_DATA t) - r"

definition line_out :: "nat \<Rightarrow> bus_trace \<Rightarrow> u8 list" where
  "line_out w t = map ucast (drop w (writes SIO1_DATA t))"

definition serial_line :: "(u8 list \<Rightarrow> u8 list) \<Rightarrow> nat \<Rightarrow> nat \<Rightarrow> (bus_trace \<Rightarrow> u32 \<Rightarrow> u32) \<Rightarrow> bus_trace \<Rightarrow> u32 \<Rightarrow> u32" where
  "serial_line peer r w other t a =
    (if a = SIO1_STAT then (if line_in r t < length (peer (line_out w t)) then 3 else 1)
     else if a = SIO1_DATA then ucast (peer (line_out w t) ! line_in r t)
     else other t a)"

text \<open>The peer's view of a state: what it has sent beyond what was read, and what it has been sent.\<close>

definition on_line :: "(u8 list \<Rightarrow> u8 list) \<Rightarrow> nat \<Rightarrow> nat \<Rightarrow> u8 list \<Rightarrow> u8 list \<Rightarrow> 'a hw_scheme \<Rightarrow> bool" where
  "on_line peer r w got sent s \<longleftrightarrow> (\<exists>other. hw_env s = serial_line peer r w other) \<and>
     length (reads SIO1_DATA (hw_trace s)) = r + length got \<and> w \<le> length (writes SIO1_DATA (hw_trace s)) \<and>
     line_out w (hw_trace s) = sent"

definition quiet :: "'a hw_scheme \<Rightarrow> 'a hw_scheme \<Rightarrow> bool" where
  "quiet s s' \<longleftrightarrow> hw_env s' = hw_env s \<and> hw.more s' = hw.more s"

lemma quiet_refl [simp]: "quiet s s"
  by (simp add: quiet_def)

lemma quiet_trans [trans]: "quiet s s' \<Longrightarrow> quiet s' s'' \<Longrightarrow> quiet s s''"
  by (simp add: quiet_def)

lemma wait_rx_ready:
  assumes "on_line peer r w got sent s" "length got < length (peer sent)"
  shows "serial_wait_rx n s = (True, emit (Rd SIO1_STAT 3) s)"
  using assms by (subst serial_wait_rx.simps) (auto simp: on_line_def in16_def serial_line_def line_in_def Let_def)

lemma getchar_line:
  assumes "on_line peer r w got sent s" "length got < length (peer sent)"
  shows "\<exists>s'. serial_getchar_timeout n s = (Some (peer sent ! length got), s') \<and> on_line peer r w (got @ [peer sent ! length got]) sent s' \<and> quiet s s'"
proof -
  let ?s = "emit (Rd SIO1_STAT 3) s" and ?b = "peer sent ! length got"
  have "in8 SIO1_DATA ?s = (?b, emit (Rd SIO1_DATA (ucast ?b)) ?s)"
    using assms by (auto simp: on_line_def in8_def serial_line_def line_in_def line_out_def Let_def)
  then have "serial_getchar_timeout n s = (Some ?b, emit (Rd SIO1_DATA (ucast ?b)) ?s)"
    by (simp add: serial_getchar_timeout_def wait_rx_ready [OF assms])
  moreover have "on_line peer r w (got @ [?b]) sent (emit (Rd SIO1_DATA (ucast ?b)) ?s)"
    using assms(1) by (simp add: on_line_def line_out_def)
  moreover have "quiet s (emit (Rd SIO1_DATA (ucast ?b)) ?s)"
    by (simp add: quiet_def)
  ultimately show ?thesis
    by blast
qed

lemma putchar_line:
  assumes "on_line peer r w got sent s"
  shows "\<exists>s'. serial_putchar b s = Some s' \<and> on_line peer r w got (sent @ [b]) s' \<and> quiet s s'"
proof -
  obtain v where v: "in16 SIO1_STAT s = (v, emit (Rd SIO1_STAT (ucast v)) s)" "v AND 1 \<noteq> 0"
    using assms by (auto simp: on_line_def in16_def serial_line_def Let_def)
  then have "serial_wait_tx s = Some (emit (Rd SIO1_STAT (ucast v)) s)"
    by (subst serial_wait_tx.simps) simp
  then have "serial_putchar b s = Some (emit (Wr SIO1_DATA (ucast b)) (emit (Rd SIO1_STAT (ucast v)) s))"
    by (simp add: serial_putchar_def out8_def)
  moreover have "on_line peer r w got (sent @ [b]) (emit (Wr SIO1_DATA (ucast b)) (emit (Rd SIO1_STAT (ucast v)) s))"
    using assms by (auto simp: on_line_def line_out_def)
  ultimately show ?thesis
    by (simp add: quiet_def)
qed

section \<open>One end of a line\<close>

text \<open>
  What a program may rely on at one end of a line: \<open>at got sent\<close> says what it has
  taken and given, \<open>peer\<close> what the other end has sent after being given
  something. Runs of bytes then pass as single ones do.
\<close>

locale line_end =
  fixes at :: "u8 list \<Rightarrow> u8 list \<Rightarrow> 's \<Rightarrow> bool" and peer :: "u8 list \<Rightarrow> u8 list"
    and getc :: "'s \<Rightarrow> u8 option \<times> 's" and putc :: "u8 \<Rightarrow> 's \<Rightarrow> 's option" and same :: "'s \<Rightarrow> 's \<Rightarrow> bool"
  assumes getc_next: "at got sent s \<Longrightarrow> peer sent = got @ b # rest \<Longrightarrow> \<exists>s'. getc s = (Some b, s') \<and> at (got @ [b]) sent s' \<and> same s s'"
    and putc_next: "at got sent s \<Longrightarrow> \<exists>s'. putc b s = Some s' \<and> at got (sent @ [b]) s' \<and> same s s'"
    and same_refl: "same s s"
    and same_trans: "same s s' \<Longrightarrow> same s' s'' \<Longrightarrow> same s s''"
begin

fun send_all :: "u8 list \<Rightarrow> 's \<Rightarrow> 's option" where
  "send_all [] s = Some s"
| "send_all (b # bs) s = Option.bind (putc b s) (send_all bs)"

fun recv_all :: "nat \<Rightarrow> u8 list \<Rightarrow> 's \<Rightarrow> u8 list option \<times> 's" where
  "recv_all 0 bs s = (Some bs, s)"
| "recv_all (Suc n) bs s = (case getc s of (None, s) \<Rightarrow> (None, s) | (Some b, s) \<Rightarrow> recv_all n (bs @ [b]) s)"

lemma send_all_at: "at got sent s \<Longrightarrow> \<exists>s'. send_all bs s = Some s' \<and> at got (sent @ bs) s' \<and> same s s'"
proof (induction bs arbitrary: sent s)
  case Nil
  then show ?case by (simp add: same_refl)
next
  case (Cons b bs)
  obtain t where t: "putc b s = Some t" "at got (sent @ [b]) t" "same s t"
    using putc_next [OF Cons.prems] by blast
  then show ?case
    using Cons.IH [OF t(2)] same_trans [OF t(3)] by auto
qed

lemma recv_all_at:
  "at got sent s \<Longrightarrow> peer sent = got @ bs @ rest \<Longrightarrow> \<exists>s'. recv_all (length bs) acc s = (Some (acc @ bs), s') \<and> at (got @ bs) sent s' \<and> same s s'"
proof (induction bs arbitrary: got acc s)
  case Nil
  then show ?case by (simp add: same_refl)
next
  case (Cons b bs)
  obtain t where t: "getc s = (Some b, t)" "at (got @ [b]) sent t" "same s t"
    using getc_next [OF Cons.prems(1)] Cons.prems(2) by auto
  then show ?case
    using Cons.IH [OF t(2), of "acc @ [b]"] Cons.prems(2) same_trans [OF t(3)] by auto
qed

end

lemma getchar_next:
  assumes "on_line peer r w got sent s" "peer sent = got @ b # rest"
  shows "\<exists>s'. serial_getchar s = (Some b, s') \<and> on_line peer r w (got @ [b]) sent s' \<and> quiet s s'"
  using getchar_line [OF assms(1), of 10000000] assms(2) by (simp add: serial_getchar_def)

interpretation sline: line_end "on_line peer r w" peer serial_getchar serial_putchar quiet for peer r w
  by unfold_locales (rule getchar_next putchar_line quiet_refl quiet_trans; assumption)+

text \<open>Whole words, as the little-endian bytes they are sent as.\<close>

lemma puts_send_all: "serial_puts bs s = line_end.send_all serial_putchar bs s"
proof (induction bs arbitrary: s)
  case (Cons b bs)
  then show ?case
    by (cases "serial_putchar b s") (simp_all add: sline.send_all.simps)
qed (simp add: sline.send_all.simps)

lemma puts_line:
  "on_line peer r w got sent s \<Longrightarrow> \<exists>s'. serial_puts bs s = Some s' \<and> on_line peer r w got (sent @ bs) s' \<and> quiet s s'"
  unfolding puts_send_all by (rule sline.send_all_at)

lemma puts_fun: "serial_puts [] = Some" "serial_puts (c # cs) = (\<lambda>s. Option.bind (serial_putchar c s) (serial_puts cs))"
  by (rule ext, simp)+

lemma send_u32_puts: "serial_send_u32 v s = serial_puts (le32_encode v) s"
proof -
  have "ucast (x AND 0xFF) = (ucast x :: u8)" for x :: u32
  proof -
    have "x AND 0xFF = take_bit 8 x"
      by (simp add: take_bit_eq_mask mask_eq_exp_minus_1)
    then show ?thesis
      by (auto intro!: bit_word_eqI simp: bit_simps)
  qed
  then show ?thesis
    by (simp add: serial_send_u32_def le32_encode_def puts_fun)
qed

lemma send_u32_line:
  "on_line peer r w got sent s \<Longrightarrow> \<exists>s'. serial_send_u32 v s = Some s' \<and> on_line peer r w got (sent @ le32_encode v) s' \<and> quiet s s'"
  unfolding send_u32_puts by (rule puts_line)

lemma recv_u32_all:
  "line_end.recv_all serial_getchar 4 [] s = (Some [b0, b1, b2, b3], s') \<Longrightarrow> serial_recv_u32 s = (Some (le32_decode b0 b1 b2 b3), s')"
  by (auto simp: eval_nat_numeral sline.recv_all.simps serial_recv_u32_def le32_decode_def split: prod.splits option.splits)

lemma recv_u32_line:
  assumes "on_line peer r w got sent s" "peer sent = got @ le32_encode v @ rest"
  shows "\<exists>s'. serial_recv_u32 s = (Some v, s') \<and> on_line peer r w (got @ le32_encode v) sent s' \<and> quiet s s'"
proof -
  obtain b0 b1 b2 b3 where b: "le32_encode v = [b0, b1, b2, b3]"
    by (simp add: le32_encode_def)
  then have "le32_decode b0 b1 b2 b3 = v"
    using le32_at_encode_only [of v] by (simp add: le32_at_def)
  moreover obtain s' where "line_end.recv_all serial_getchar 4 [] s = (Some (le32_encode v), s')" "on_line peer r w (got @ le32_encode v) sent s'" "quiet s s'"
    using sline.recv_all_at [OF assms, of "[]"] by (auto simp only: length_le32_encode append_Nil)
  ultimately show ?thesis
    using recv_u32_all [of s b0 b1 b2 b3 s'] b by (simp only:) blast
qed

end
