(* ===== verification/Shell.thy ===== *)
theory Shell
  imports KernelBoot Serial
begin

text \<open>
  The boot loader's command server on the serial port, \<^verbatim>\<open>bootloader/src/shell.c\<close>:
  tags, chunked transfers with a byte sum, the command handlers and the loop.
  Drawing on the screen is not modelled. A load or store in the first 8 MB of
  the physical address space is one of memory, any other is an access to the
  bus; a misaligned word access goes to the exception vector.
\<close>

definition SHELL_TAG :: "string \<Rightarrow> u32" where
  "SHELL_TAG t = le32_at (s2b t) 0"

definition SHELL_BEACON :: u32 where "SHELL_BEACON = SHELL_TAG ''BK>>''"
definition SHELL_OK :: u32 where "SHELL_OK = SHELL_TAG ''OKOK''"
definition SHELL_ERR :: u32 where "SHELL_ERR = SHELL_TAG ''FAIL''"
definition SHELL_MORE :: u32 where "SHELL_MORE = SHELL_TAG ''MORE''"
definition SHELL_DONE :: u32 where "SHELL_DONE = SHELL_TAG ''DONE''"
definition SHELL_PONG :: u32 where "SHELL_PONG = SHELL_TAG ''PONG''"

abbreviation (input) SHELL_CHUNK :: nat where "SHELL_CHUNK \<equiv> 2048"
abbreviation (input) DBG_RING_SIZE :: nat where "DBG_RING_SIZE \<equiv> 16"

record shs = bls +
  cur_baud :: u32
  status_text :: cstr
  last_cmd_text :: "cstr option"
  last_entry :: u32
  last_load :: u32
  last_size :: u32
  has_upload :: bool
  dbg_ring :: "u8 list"
  dbg_ring_pos :: nat
  dbg_rx_total :: u32
  dbg_beacons_sent :: u32
  dbg_cmds_seen :: u32
  dbg_last_tag :: u32
  dbg_poll_hits :: u32
  dbg_poll_misses :: u32
  dbg_sio_stat :: u16
  dbg_sio_ctrl :: u16

section \<open>Memory accesses\<close>

abbreviation (input) RAM_WINDOW :: u32 where "RAM_WINDOW \<equiv> 0x00800000"

definition st8 :: "u32 \<Rightarrow> u8 \<Rightarrow> 'a bls_scheme \<Rightarrow> 'a bls_scheme" where
  "st8 a b s = (if phys a < RAM_WINDOW then s\<lparr>ram := (ram s)(phys a := b)\<rparr> else out8 a b s)"

definition ld8 :: "u32 \<Rightarrow> 'a bls_scheme \<Rightarrow> u8 \<times> 'a bls_scheme" where
  "ld8 a s = (if phys a < RAM_WINDOW then (ram s (phys a), s) else in8 a s)"

definition st32 :: "u32 \<Rightarrow> u32 \<Rightarrow> 'a bls_scheme \<Rightarrow> 'a bls_scheme" where
  "st32 a v s = (if phys a < RAM_WINDOW then s\<lparr>ram := put32 a v (ram s)\<rparr> else out32 a v s)"

definition ld32 :: "u32 \<Rightarrow> 'a bls_scheme \<Rightarrow> u32 \<times> 'a bls_scheme" where
  "ld32 a s = (if phys a < RAM_WINDOW then (get32 (ram s) a, s) else in32 a s)"

section \<open>Receiving a tag\<close>

definition dbg_push :: "u8 \<Rightarrow> 'a shs_scheme \<Rightarrow> 'a shs_scheme" where
  "dbg_push b s = s\<lparr>dbg_ring := (dbg_ring s)[dbg_ring_pos s mod DBG_RING_SIZE := b], dbg_ring_pos := dbg_ring_pos s + 1,
     dbg_rx_total := dbg_rx_total s + 1\<rparr>"

definition dbg_snap_regs :: "'a shs_scheme \<Rightarrow> 'a shs_scheme" where
  "dbg_snap_regs s =
    (let (st, s) = in16 SIO1_STAT s;
         s = s\<lparr>dbg_sio_stat := st\<rparr>;
         (ct, s) = in16 SIO1_CTRL s
     in s\<lparr>dbg_sio_ctrl := ct\<rparr>)"

fun poll_rx :: "nat \<Rightarrow> 'a shs_scheme \<Rightarrow> u8 option \<times> 'a shs_scheme" where
  "poll_rx 0 s = (None, s\<lparr>dbg_poll_misses := dbg_poll_misses s + 1\<rparr>)"
| "poll_rx (Suc i) s =
    (case in16 SIO1_STAT s of (st, s) \<Rightarrow>
       if st AND SIO_STAT_RXRDY \<noteq> 0
       then case serial_getchar_timeout 1 s of
              (None, s) \<Rightarrow> (None, s)
            | (Some b, s) \<Rightarrow> let s = dbg_push b s; s = s\<lparr>dbg_poll_hits := dbg_poll_hits s + 1\<rparr> in (Some b, dbg_snap_regs s)
       else poll_rx i s)"

declare poll_rx.simps [simp del]

definition dbg_push_opt :: "u8 option \<Rightarrow> 'a shs_scheme \<Rightarrow> 'a shs_scheme" where
  "dbg_push_opt b s = (case b of None \<Rightarrow> s | Some b \<Rightarrow> dbg_push b s)"

definition read_tag :: "u8 \<Rightarrow> 'a shs_scheme \<Rightarrow> u32 option \<times> 'a shs_scheme" where
  "read_tag first_byte s =
    (let (b1, s) = serial_getchar s;
         (b2, s) = serial_getchar s;
         (b3, s) = serial_getchar s;
         s = dbg_push_opt b3 (dbg_push_opt b2 (dbg_push_opt b1 s)) in
     case (b1, b2, b3) of
       (Some b1, Some b2, Some b3) \<Rightarrow>
         (let tag = ucast first_byte OR push_bit 8 (ucast b1) OR push_bit 16 (ucast b2) OR push_bit 24 (ucast b3)
          in (Some tag, s\<lparr>dbg_last_tag := tag\<rparr>))
     | _ \<Rightarrow> (None, s\<lparr>last_cmd_text := Some (s2b ''TAG TIMEOUT'')\<rparr>))"

section \<open>Transfers\<close>

text \<open>One chunk stored from \<open>a\<close> on; the new sum, or \<open>None\<close> when a byte does not come.\<close>

fun recv_chunk :: "nat \<Rightarrow> u32 \<Rightarrow> u32 \<Rightarrow> 'a bls_scheme \<Rightarrow> u32 option \<times> 'a bls_scheme" where
  "recv_chunk 0 a checksum s = (Some checksum, s)"
| "recv_chunk (Suc n) a checksum s =
    (case serial_getchar s of
       (None, s) \<Rightarrow> (None, s)
     | (Some b, s) \<Rightarrow> recv_chunk n (a + 1) (checksum + ucast b) (st8 a b s))"

function recv_loop :: "u32 \<Rightarrow> nat \<Rightarrow> nat \<Rightarrow> u32 \<Rightarrow> 'a bls_scheme \<Rightarrow> (u32 option \<times> 'a bls_scheme) option" where
  "recv_loop dst len received checksum s =
    (if received < len
     then let chunk = len - received;
              chunk = (if chunk > SHELL_CHUNK then SHELL_CHUNK else chunk) in
          case recv_chunk chunk (dst + of_nat received) checksum s of
            (None, s) \<Rightarrow> Some (None, s)
          | (Some checksum, s) \<Rightarrow>
             (case serial_send_u32 SHELL_MORE s of
                None \<Rightarrow> None
              | Some s \<Rightarrow> recv_loop dst len (received + chunk) checksum s)
     else Some (Some checksum, s))"
  by pat_completeness auto

termination
  by (relation "measure (\<lambda>(_, len, received, _, _). len - received)") auto

declare recv_loop.simps [simp del]

definition receive_data :: "u32 \<Rightarrow> u32 \<Rightarrow> u32 \<Rightarrow> 'a bls_scheme \<Rightarrow> (bool \<times> 'a bls_scheme) option" where
  "receive_data dst len expected_checksum s =
    (let (saved_imask, s) = in16 INT_MASK s;
         s = out16 INT_MASK 0 s in
     case recv_loop dst (unat len) 0 0 s of
       None \<Rightarrow> None
     | Some (None, s) \<Rightarrow>
        (let s = out16 INT_MASK saved_imask s in
         map_option (\<lambda>s. (False, s)) (serial_send_u32 SHELL_ERR s))
     | Some (Some checksum, s) \<Rightarrow>
        (let s = out16 INT_MASK saved_imask s in
         if checksum \<noteq> expected_checksum
         then map_option (\<lambda>s. (False, s)) (serial_send_u32 SHELL_ERR s)
         else map_option (\<lambda>s. (True, s)) (serial_send_u32 SHELL_DONE s)))"

fun send_chunk :: "nat \<Rightarrow> u32 \<Rightarrow> u32 \<Rightarrow> 'a bls_scheme \<Rightarrow> (u32 \<times> 'a bls_scheme) option" where
  "send_chunk 0 a checksum s = Some (checksum, s)"
| "send_chunk (Suc n) a checksum s =
    (let (b, s) = ld8 a s in
     case serial_putchar b s of
       None \<Rightarrow> None
     | Some s \<Rightarrow> send_chunk n (a + 1) (checksum + ucast b) s)"

text \<open>The loop of \<^verbatim>\<open>send_data\<close>: the sum, or \<open>None\<close> inside when the host does not answer MORE.\<close>

function send_loop :: "u32 \<Rightarrow> nat \<Rightarrow> nat \<Rightarrow> u32 \<Rightarrow> 'a bls_scheme \<Rightarrow> (u32 option \<times> 'a bls_scheme) option" where
  "send_loop src len sent checksum s =
    (if sent < len
     then let chunk = len - sent;
              chunk = (if chunk > SHELL_CHUNK then SHELL_CHUNK else chunk) in
          case send_chunk chunk (src + of_nat sent) checksum s of
            None \<Rightarrow> None
          | Some (checksum, s) \<Rightarrow>
             (case serial_recv_u32 s of
                (Some ack, s) \<Rightarrow> if ack \<noteq> SHELL_MORE then Some (None, s) else send_loop src len (sent + chunk) checksum s
              | (None, s) \<Rightarrow> Some (None, s))
     else Some (Some checksum, s))"
  by pat_completeness auto

termination
  by (relation "measure (\<lambda>(_, len, sent, _, _). len - sent)") auto

declare send_loop.simps [simp del]

definition send_data :: "u32 \<Rightarrow> u32 \<Rightarrow> 'a bls_scheme \<Rightarrow> 'a bls_scheme option" where
  "send_data src len s =
    (case send_loop src (unat len) 0 0 s of
       None \<Rightarrow> None
     | Some (None, s) \<Rightarrow> Some s
     | Some (Some checksum, s) \<Rightarrow> serial_send_u32 checksum s)"

section \<open>Commands\<close>

text \<open>
  A command that ends in the shell gives \<open>Returned ()\<close>, one that jumps
  \<open>Jumped\<close>; \<open>None\<close> is a wait for the transmitter that never ends.
\<close>

type_synonym 'a shell_out = "(unit flow \<times> 'a shs_scheme) option"

definition fin :: "'a shs_scheme option \<Rightarrow> 'a shell_out" where
  "fin s = map_option (\<lambda>s. (Returned (), s)) s"

text \<open>\<^verbatim>\<open>if (!serial_recv_u32(&x)) goto out;\<close>\<close>

definition recv_or :: "('a shs_scheme \<Rightarrow> 'a shell_out) \<Rightarrow> 'a shs_scheme \<Rightarrow> (u32 \<Rightarrow> 'a shs_scheme \<Rightarrow> 'a shell_out) \<Rightarrow> 'a shell_out" where
  "recv_or out s k = (case serial_recv_u32 s of (None, s) \<Rightarrow> out s | (Some v, s) \<Rightarrow> k v s)"

definition upload_exe_fail :: "'a shs_scheme \<Rightarrow> 'a shell_out" where
  "upload_exe_fail s = fin (map_option (\<lambda>s. s\<lparr>status_text := s2b ''Upload failed'', last_cmd_text := Some (s2b ''UEXE FAIL'')\<rparr>) (serial_send_u32 SHELL_ERR s))"

definition cmd_upload_exe :: "'a shs_scheme \<Rightarrow> 'a shell_out" where
  "cmd_upload_exe s =
    Option.bind (serial_send_u32 SHELL_OK s) (\<lambda>s.
    recv_or upload_exe_fail s (\<lambda>entry s.
    recv_or upload_exe_fail s (\<lambda>load_addr s.
    recv_or upload_exe_fail s (\<lambda>len s.
    recv_or upload_exe_fail s (\<lambda>checksum s.
    let s = s\<lparr>last_entry := entry, last_load := load_addr, last_size := len, status_text := s2b ''RECEIVING - do not touch''\<rparr> in
    Option.bind (serial_send_u32 SHELL_OK s) (\<lambda>s.
    Option.bind (receive_data load_addr len checksum s) (\<lambda>(ok, s).
    if \<not> ok then upload_exe_fail s
    else Some (Returned (), s\<lparr>has_upload := True, status_text := s2b ''Upload complete'', last_cmd_text := Some (s2b ''UEXE OK'')\<rparr>))))))))"

definition upload_bin_fail :: "'a shs_scheme \<Rightarrow> 'a shell_out" where
  "upload_bin_fail s = fin (map_option (\<lambda>s. s\<lparr>status_text := s2b ''Binary failed'', last_cmd_text := Some (s2b ''UBIN FAIL'')\<rparr>) (serial_send_u32 SHELL_ERR s))"

definition cmd_upload_bin :: "'a shs_scheme \<Rightarrow> 'a shell_out" where
  "cmd_upload_bin s =
    Option.bind (serial_send_u32 SHELL_OK s) (\<lambda>s.
    recv_or upload_bin_fail s (\<lambda>addr s.
    recv_or upload_bin_fail s (\<lambda>len s.
    recv_or upload_bin_fail s (\<lambda>checksum s.
    Option.bind (serial_send_u32 SHELL_OK s) (\<lambda>s.
    let s = s\<lparr>last_load := addr, last_size := len, status_text := s2b ''Receiving BIN...''\<rparr> in
    Option.bind (receive_data addr len checksum s) (\<lambda>(ok, s).
    if \<not> ok then upload_bin_fail s
    else Some (Returned (), s\<lparr>status_text := s2b ''Binary loaded'', last_cmd_text := Some (s2b ''UBIN OK'')\<rparr>)))))))"

definition cmd_exec :: "'a shs_scheme \<Rightarrow> 'a shell_out" where
  "cmd_exec s = Option.bind (serial_send_u32 SHELL_OK s) (\<lambda>s. recv_or (\<lambda>s. Some (Returned (), s)) s (\<lambda>addr s. Some (Jumped addr, s)))"

text \<open>The bytes of a command line sent by the host.\<close>

fun recv_bytes :: "nat \<Rightarrow> u8 list \<Rightarrow> 'a hw_scheme \<Rightarrow> u8 list option \<times> 'a hw_scheme" where
  "recv_bytes 0 bs s = (Some bs, s)"
| "recv_bytes (Suc n) bs s =
    (case serial_getchar s of (None, s) \<Rightarrow> (None, s) | (Some b, s) \<Rightarrow> recv_bytes n (bs @ [b]) s)"

text \<open>\<open>after\<close> is the memory behind the settings structure, as for \<^verbatim>\<open>settings_build_cmdline\<close>.\<close>

definition cmd_boot :: "u8 list \<Rightarrow> 'a shs_scheme \<Rightarrow> 'a shell_out" where
  "cmd_boot after s =
    (if \<not> has_upload s
     then Option.bind (serial_send_u32 SHELL_ERR s) (\<lambda>s. Some (Returned (), s\<lparr>last_cmd_text := Some (s2b ''BOOT: no upload'')\<rparr>))
     else
     Option.bind (serial_send_u32 SHELL_OK s) (\<lambda>s.
     recv_or (\<lambda>s. Some (Returned (), s)) s (\<lambda>cmdline_len s.
     if cmdline_len > 0 \<and> cmdline_len < 256
     then case recv_bytes (unat cmdline_len) [] s of
            (None, s) \<Rightarrow> Some (Returned (), s)
          | (Some bs, s) \<Rightarrow> Some (kernel_launch (last_entry s) (ram_size_kb s) (Some (takeWhile (\<lambda>c. c \<noteq> 0) bs)) s)
     else Some (kernel_launch (last_entry s) (ram_size_kb s) (Some (settings_build_cmdline after (cfg s) 256)) s))))"

definition cmd_dump :: "'a shs_scheme \<Rightarrow> 'a shell_out" where
  "cmd_dump s =
    Option.bind (serial_send_u32 SHELL_OK s) (\<lambda>s.
    recv_or (\<lambda>s. Some (Returned (), s)) s (\<lambda>addr s.
    recv_or (\<lambda>s. Some (Returned (), s)) s (\<lambda>len s.
    fin (map_option (\<lambda>s. s\<lparr>last_cmd_text := Some (s2b ''DUMP OK'')\<rparr>) (send_data addr len s)))))"

abbreviation (input) EXC_VECTOR :: u32 where "EXC_VECTOR \<equiv> 0x80000080"

definition cmd_peek :: "'a shs_scheme \<Rightarrow> 'a shell_out" where
  "cmd_peek s =
    Option.bind (serial_send_u32 SHELL_OK s) (\<lambda>s.
    recv_or (\<lambda>s. Some (Returned (), s)) s (\<lambda>addr s.
    if addr AND 3 \<noteq> 0 then Some (Jumped EXC_VECTOR, s)
    else let (val, s) = ld32 addr s in
         fin (map_option (\<lambda>s. s\<lparr>last_cmd_text := Some (s2b ''PEEK OK'')\<rparr>) (serial_send_u32 val s))))"

definition cmd_poke :: "'a shs_scheme \<Rightarrow> 'a shell_out" where
  "cmd_poke s =
    Option.bind (serial_send_u32 SHELL_OK s) (\<lambda>s.
    recv_or (\<lambda>s. Some (Returned (), s)) s (\<lambda>addr s.
    recv_or (\<lambda>s. Some (Returned (), s)) s (\<lambda>val s.
    if addr AND 3 \<noteq> 0 then Some (Jumped EXC_VECTOR, s)
    else fin (map_option (\<lambda>s. s\<lparr>last_cmd_text := Some (s2b ''POKE OK'')\<rparr>) (serial_send_u32 SHELL_DONE (st32 addr val s))))))"

definition cmd_speed :: "u32 \<Rightarrow> string \<Rightarrow> 'a shs_scheme \<Rightarrow> 'a shell_out" where
  "cmd_speed baud txt s =
    Option.bind (serial_send_u32 SHELL_OK s) (\<lambda>s.
    fin (map_option (\<lambda>s. s\<lparr>cur_baud := baud, last_cmd_text := Some (s2b txt)\<rparr>) (serial_init baud (delay 200000 s))))"

definition cmd_fast :: "'a shs_scheme \<Rightarrow> 'a shell_out" where
  "cmd_fast = cmd_speed SERIAL_BAUD_FAST ''FAST (518400)''"

definition cmd_slow :: "'a shs_scheme \<Rightarrow> 'a shell_out" where
  "cmd_slow = cmd_speed SERIAL_BAUD_SLOW ''SLOW (115200)''"

text \<open>The text shown for an unknown tag: its bytes in hexadecimal and as characters.\<close>

definition hex_digit :: "u8 \<Rightarrow> u8" where
  "hex_digit n = s2b ''0123456789ABCDEF'' ! unat n"

definition hex_byte :: "u8 \<Rightarrow> u8 list" where
  "hex_byte c = [hex_digit (drop_bit 4 c), hex_digit (c AND 0xF)]"

definition shown :: "u8 \<Rightarrow> u8" where
  "shown c = (if c \<ge> 0x20 \<and> c < 0x7F then c else 0x2E)"

definition unk_buf :: "u32 \<Rightarrow> cstr" where
  "unk_buf cmd =
    (let cs = le32_encode cmd
     in s2b ''? '' @ concat (map (\<lambda>c. hex_byte c @ s2b '' '') cs) @ [0x27] @ map shown cs @ [0x27])"

definition shell_dispatch :: "u8 list \<Rightarrow> u32 \<Rightarrow> 'a shs_scheme \<Rightarrow> 'a shell_out" where
  "shell_dispatch after cmd s =
    (let s = s\<lparr>dbg_cmds_seen := dbg_cmds_seen s + 1\<rparr> in
     if cmd = SHELL_TAG ''PING''
     then Option.bind (serial_send_u32 SHELL_PONG s) (\<lambda>s. Some (Returned (), s\<lparr>last_cmd_text := Some (s2b ''PING'')\<rparr>))
     else if cmd = SHELL_TAG ''UEXE'' then cmd_upload_exe s
     else if cmd = SHELL_TAG ''UBIN'' then cmd_upload_bin s
     else if cmd = SHELL_TAG ''EXEC'' then cmd_exec s
     else if cmd = SHELL_TAG ''BOOT'' then cmd_boot after s
     else if cmd = SHELL_TAG ''DUMP'' then cmd_dump s
     else if cmd = SHELL_TAG ''PEEK'' then cmd_peek s
     else if cmd = SHELL_TAG ''POKE'' then cmd_poke s
     else if cmd = SHELL_TAG ''FAST'' then cmd_fast s
     else if cmd = SHELL_TAG ''SLOW'' then cmd_slow s
     else if cmd = SHELL_TAG ''REST'' then Some (Jumped 0xBFC00000, s)
     else Option.bind (serial_send_u32 SHELL_ERR s) (\<lambda>s. Some (Returned (), s\<lparr>last_cmd_text := Some (unk_buf cmd)\<rparr>)))"

section \<open>The loop\<close>

text \<open>\<^verbatim>\<open>shell_run\<close> before its loop.\<close>

definition shell_start :: "u32 \<Rightarrow> 'a shs_scheme \<Rightarrow> 'a shs_scheme option" where
  "shell_start baud s =
    (let s = s\<lparr>cur_baud := baud, status_text := s2b ''Listening'', last_cmd_text := None, last_entry := 0, last_load := 0, last_size := 0,
           has_upload := False, dbg_ring := replicate DBG_RING_SIZE 0, dbg_ring_pos := 0, dbg_rx_total := 0, dbg_beacons_sent := 0,
           dbg_cmds_seen := 0, dbg_last_tag := 0, dbg_poll_hits := 0, dbg_poll_misses := 0, dbg_sio_stat := 0, dbg_sio_ctrl := 0\<rparr>
     in map_option dbg_snap_regs (serial_init baud s))"

text \<open>One pass of the loop after the pad was read.\<close>

definition shell_pass :: "u8 list \<Rightarrow> 'a shs_scheme \<Rightarrow> 'a shell_out" where
  "shell_pass after s =
    Option.bind (serial_send_u32 SHELL_BEACON s) (\<lambda>s.
    let s = s\<lparr>dbg_beacons_sent := dbg_beacons_sent s + 1\<rparr> in
    case poll_rx 15000000 s of
      (None, s) \<Rightarrow> Some (Returned (), s)
    | (Some b0, s) \<Rightarrow>
       (case read_tag b0 s of
          (None, s) \<Rightarrow> Some (Returned (), s)
        | (Some cmd, s) \<Rightarrow>
           Option.bind (shell_dispatch after cmd (s\<lparr>status_text := s2b ''Processing...''\<rparr>)) (\<lambda>(f, s).
             Some (f, case f of Returned _ \<Rightarrow> s\<lparr>status_text := s2b ''Listening''\<rparr> | Jumped _ \<Rightarrow> s))))"

text \<open>The loop; \<open>pads\<close> says for each pass whether Select is down, \<open>Jumped\<close> ends it. A list that runs out is a loop that still runs.\<close>

fun shell_loop :: "u8 list \<Rightarrow> bool list \<Rightarrow> 'a shs_scheme \<Rightarrow> (bool \<times> unit flow \<times> 'a shs_scheme) option" where
  "shell_loop after [] s = Some (False, Returned (), s)"
| "shell_loop after (select # pads) s =
    (if select then Some (True, Returned (), s)
     else Option.bind (shell_pass after s) (\<lambda>(f, s).
       case f of Jumped a \<Rightarrow> Some (True, Jumped a, s) | Returned _ \<Rightarrow> shell_loop after pads s))"

definition shell_run :: "u8 list \<Rightarrow> u32 \<Rightarrow> bool list \<Rightarrow> 'a shs_scheme \<Rightarrow> (bool \<times> unit flow \<times> 'a shs_scheme) option" where
  "shell_run after baud pads s = Option.bind (shell_start baud s) (shell_loop after pads)"

end
