(* ===== verification/HostTool.thy ===== *)
theory HostTool
  imports Shell
begin

text \<open>
  The host's end of the serial line, \<^verbatim>\<open>tools/host/blackroo-serial.py\<close>: uploading a
  PS-EXE and booting it. A conversation is a function of the bytes received so
  far: the bytes sent so far and, once it is over, whether it succeeded and the
  bytes not yet used. A read that would time out is a conversation that still
  waits.
\<close>

type_synonym talk = "u8 list \<times> (bool \<times> u8 list) option"

definition host_recv_u32 :: "u8 list \<Rightarrow> (u32 \<times> u8 list) option" where
  "host_recv_u32 rx = (if length rx < 4 then None else Some (le32_at rx 0, drop 4 rx))"

definition host_checksum :: "u8 list \<Rightarrow> u32" where
  "host_checksum data = of_nat (sum_list (map unat data))"

text \<open>\<^verbatim>\<open>wait_for_beacon\<close>: what follows the first beacon.\<close>

fun wait_for_beacon :: "u8 list \<Rightarrow> u8 list option" where
  "wait_for_beacon [] = None"
| "wait_for_beacon (b # rx) =
    (if take 4 (b # rx) = le32_encode SHELL_BEACON then Some (drop 4 (b # rx)) else wait_for_beacon rx)"

record psexe_upload =
  up_pc0 :: u32
  up_addr :: u32
  up_payload :: "u8 list"

definition psexe_parse :: "u8 list \<Rightarrow> psexe_upload option" where
  "psexe_parse data =
    (if length data < 2048 then None
     else if take 8 data \<noteq> s2b ''PS-X EXE'' then None
     else let t_size = unat (le32_at data 0x1C);
              payload = take t_size (drop 2048 data)
          in Some \<lparr>up_pc0 = le32_at data 0x10, up_addr = le32_at data 0x18, up_payload = payload @ replicate (t_size - length payload) 0\<rparr>)"

function upload_chunks :: "nat \<Rightarrow> u8 list \<Rightarrow> u8 list \<Rightarrow> talk" where
  "upload_chunks sent payload rx =
    (if sent < length payload
     then let chunk = take (min (length payload - sent) 2048) (drop sent payload) in
          case host_recv_u32 rx of
            None \<Rightarrow> (chunk, None)
          | Some (resp, rx) \<Rightarrow>
             if resp \<noteq> SHELL_MORE then (chunk, Some (False, rx))
             else case upload_chunks (sent + length chunk) payload rx of (out, res) \<Rightarrow> (chunk @ out, res)
     else case host_recv_u32 rx of None \<Rightarrow> ([], None) | Some (resp, rx) \<Rightarrow> ([], Some (resp = SHELL_DONE, rx)))"
  by pat_completeness auto

termination
  by (relation "measure (\<lambda>(_, _, rx). length rx)") (auto simp: host_recv_u32_def split: if_splits)

declare upload_chunks.simps [simp del]

text \<open>\<^verbatim>\<open>cmd_boot\<close> without the console that follows it.\<close>

definition boot_talk :: "cstr \<Rightarrow> u8 list \<Rightarrow> talk" where
  "boot_talk cmdline rx =
    (case wait_for_beacon rx of
       None \<Rightarrow> ([], None)
     | Some rx \<Rightarrow>
        (let out = le32_encode (SHELL_TAG ''BOOT'') in
         case host_recv_u32 rx of
           None \<Rightarrow> (out, None)
         | Some (resp, rx) \<Rightarrow>
            if resp \<noteq> SHELL_OK then (out, Some (False, rx))
            else (out @ (if cmdline \<noteq> [] then le32_encode (of_nat (length cmdline)) @ cmdline else le32_encode 0), Some (True, rx))))"

text \<open>A conversation followed, if it succeeds, by another.\<close>

definition talk_then :: "talk \<Rightarrow> (u8 list \<Rightarrow> talk) \<Rightarrow> talk" where
  "talk_then t k = (case t of (out, Some (True, rx)) \<Rightarrow> (case k rx of (out', res) \<Rightarrow> (out @ out', res)) | _ \<Rightarrow> t)"

definition upload_talk :: "psexe_upload \<Rightarrow> u8 list \<Rightarrow> talk" where
  "upload_talk u rx =
    (case wait_for_beacon rx of
       None \<Rightarrow> ([], None)
     | Some rx \<Rightarrow>
        (let out = le32_encode (SHELL_TAG ''UEXE'') in
         case host_recv_u32 rx of
           None \<Rightarrow> (out, None)
         | Some (resp, rx) \<Rightarrow>
            if resp \<noteq> SHELL_OK then (out, Some (False, rx))
            else let out = out @ le32_encode (up_pc0 u) @ le32_encode (up_addr u) @ le32_encode (of_nat (length (up_payload u))) @
                             le32_encode (host_checksum (up_payload u)) in
                 case host_recv_u32 rx of
                   None \<Rightarrow> (out, None)
                 | Some (resp, rx) \<Rightarrow>
                    if resp \<noteq> SHELL_OK then (out, Some (False, rx))
                    else case upload_chunks 0 (up_payload u) rx of (out', res) \<Rightarrow> (out @ out', res)))"

definition cmd_upload :: "psexe_upload \<Rightarrow> bool \<Rightarrow> cstr \<Rightarrow> u8 list \<Rightarrow> talk" where
  "cmd_upload u boot cmdline rx = (if boot then talk_then (upload_talk u rx) (boot_talk cmdline) else upload_talk u rx)"

end
