(* ===== verification/Psxcon.thy ===== *)
theory Psxcon
  imports Klib
begin

text \<open>
  The text console on the GPU, \<^verbatim>\<open>drivers/video/psxcon.c\<close>: the display mode taken from
  the command line, the text buffer that scrolls by moving its first row, and
  the operations of the console layer. The drawing routines of \<^verbatim>\<open>libpsx\<close> are
  recorded as the list of calls. An access outside the static buffer is \<open>None\<close>.
\<close>

section \<open>Searching a string\<close>

text \<open>\<^verbatim>\<open>lib/string.c\<close>; the difference of two bytes is kept in a signed char.\<close>

fun kmemcmp :: "u8 list \<Rightarrow> u8 list \<Rightarrow> nat \<Rightarrow> int" where
  "kmemcmp cs ct 0 = 0"
| "kmemcmp cs ct (Suc count) =
    (let res = sint (ch cs 0 - ch ct 0) in if res \<noteq> 0 then res else kmemcmp (tl cs) (tl ct) count)"

fun strstr_loop :: "cstr \<Rightarrow> cstr \<Rightarrow> cstr option" where
  "strstr_loop s1 s2 =
    (if length s1 < length s2 then None
     else if kmemcmp s1 s2 (length s2) = 0 then Some s1
     else case s1 of [] \<Rightarrow> None | c # s1 \<Rightarrow> strstr_loop s1 s2)"

declare strstr_loop.simps [simp del]

definition kstrstr :: "cstr \<Rightarrow> cstr \<Rightarrow> cstr option" where
  "kstrstr s1 s2 = (if s2 = [] then Some s1 else strstr_loop s1 s2)"

section \<open>The display mode\<close>

abbreviation (input) PSXVGA_MAX_W :: nat where "PSXVGA_MAX_W \<equiv> 80"
abbreviation (input) PSXVGA_MAX_H :: nat where "PSXVGA_MAX_H \<equiv> 21"
abbreviation (input) PSXVGA_FNT_H :: int where "PSXVGA_FNT_H \<equiv> 12"
abbreviation (input) PSXVGA_FNT_W :: int where "PSXVGA_FNT_W \<equiv> 8"
abbreviation (input) VRANGE_PAL :: u32 where "VRANGE_PAL \<equiv> 0x07049025"
abbreviation (input) VRANGE_NTSC :: u32 where "VRANGE_NTSC \<equiv> 0x07040010"

text \<open>The calls into \<^verbatim>\<open>libpsx\<close> and the GPU's control port.\<close>

datatype gpu_op = InitGPU u32 | GP1 u32 | Cls | LoadFont | Line int int int | Print2 int int u32

record psxcon =
  psxvga_cols :: int
  psxvga_rows :: int
  psxvga_scrbuf :: "u32 list list"
  psxvga_cury :: int
  psxvga_curx :: int
  psxvga_bottom :: int
  gpu_ops :: "gpu_op list"

definition gpu :: "gpu_op list \<Rightarrow> psxcon \<Rightarrow> psxcon" where
  "gpu ops s = s\<lparr>gpu_ops := gpu_ops s @ ops\<rparr>"

definition psxvga_set_vrange :: "u32 \<Rightarrow> psxcon \<Rightarrow> psxcon" where
  "psxvga_set_vrange mode = gpu [GP1 (if mode AND 8 \<noteq> 0 then VRANGE_PAL else VRANGE_NTSC)]"

text \<open>An int on this machine: 32 bits, wrapping.\<close>

definition s32 :: "int \<Rightarrow> int" where
  "s32 x = signed_take_bit 31 x"

fun video_number :: "int \<Rightarrow> cstr \<Rightarrow> int \<times> cstr" where
  "video_number v [] = (v, [])"
| "video_number v (c # p) = (if 0x30 \<le> c \<and> c \<le> 0x39 then video_number (s32 (v * 10 + (uint c - 48))) p else (v, c # p))"

text \<open>The three numbers; \<open>v\<close> holds what the uninitialised array had before.\<close>

fun video_numbers :: "nat \<Rightarrow> nat \<Rightarrow> cstr \<Rightarrow> int list \<Rightarrow> int list" where
  "video_numbers i 0 p v = v"
| "video_numbers i (Suc n) p v =
    (case video_number 0 p of (x, p) \<Rightarrow>
       let v = v[i := x] in
       if ch p 0 = 0x78 \<or> ch p 0 = 0x40 then video_numbers (i + 1) n (drop 1 p) v else v)"

text \<open>Width, height and rate; \<open>hires\<close> is \<^verbatim>\<open>CONFIG_VT_CONSOLE_HIRES\<close>.\<close>

definition video_choice :: "bool \<Rightarrow> int list \<Rightarrow> cstr \<Rightarrow> int \<times> int \<times> int" where
  "video_choice hires garbage saved_command_line =
    (case kstrstr saved_command_line (s2b ''psxvideo='') of
       None \<Rightarrow> (if hires then 640 else 320, 240, 60)
     | Some p \<Rightarrow>
        (let v = video_numbers 0 3 (drop 9 p) garbage in
         if v ! 0 \<ge> 256 \<and> v ! 1 \<ge> 200 \<and> (v ! 2 = 50 \<or> v ! 2 = 60) then (v ! 0, v ! 1, v ! 2)
         else (if hires then 640 else 320, 240, 60)))"

definition psxvga_setup_mode :: "bool \<Rightarrow> int list \<Rightarrow> cstr \<Rightarrow> psxcon \<Rightarrow> u32 \<times> psxcon" where
  "psxvga_setup_mode hires garbage saved_command_line s =
    (case video_choice hires garbage saved_command_line of (w, h, rate) \<Rightarrow>
       let (mode, w) = (if w = 256 then (0, w) else if w = 512 then (2, w) else if w = 640 then (3, w) else (1, 320));
           mode = mode OR 0x08000000;
           mode = (if rate = 50 then mode OR 8 else mode);
           cols = w div PSXVGA_FNT_W - 2;
           rows = h div PSXVGA_FNT_H;
           cols = (if cols > int PSXVGA_MAX_W then int PSXVGA_MAX_W else cols);
           rows = (if rows > int PSXVGA_MAX_H then int PSXVGA_MAX_H else rows);
           cols = (if cols < 20 then 20 else cols);
           rows = (if rows < 8 then 8 else rows)
       in (mode, s\<lparr>psxvga_cols := cols, psxvga_rows := rows\<rparr>))"

section \<open>The text buffer\<close>

text \<open>A store into \<^verbatim>\<open>psxvga_scrbuf\<close>, and a load.\<close>

definition scr_set :: "int \<Rightarrow> int \<Rightarrow> u32 \<Rightarrow> psxcon \<Rightarrow> psxcon option" where
  "scr_set y x v s =
    (if 0 \<le> y \<and> y < int PSXVGA_MAX_H \<and> 0 \<le> x \<and> x < int PSXVGA_MAX_W
     then Some (s\<lparr>psxvga_scrbuf := (psxvga_scrbuf s)[nat y := (psxvga_scrbuf s ! nat y)[nat x := v]]\<rparr>)
     else None)"

definition scr_get :: "int \<Rightarrow> int \<Rightarrow> psxcon \<Rightarrow> u32 option" where
  "scr_get y x s =
    (if 0 \<le> y \<and> y < int PSXVGA_MAX_H \<and> 0 \<le> x \<and> x < int PSXVGA_MAX_W
     then Some (psxvga_scrbuf s ! nat y ! nat x) else None)"

text \<open>\<^verbatim>\<open>for (x = 0; x < psxvga_cols; x++) psxvga_scrbuf[y][x] = 0;\<close>\<close>

definition clear_row :: "int \<Rightarrow> psxcon \<Rightarrow> psxcon option" where
  "clear_row y s = fold (\<lambda>x s. Option.bind s (scr_set y (int x) 0)) [0..<nat (psxvga_cols s)] (Some s)"

definition psxvga_startup :: "bool \<Rightarrow> int list \<Rightarrow> cstr \<Rightarrow> psxcon \<Rightarrow> psxcon option" where
  "psxvga_startup hires garbage saved_command_line s =
    (case fold (\<lambda>y s. Option.bind s (clear_row (int y))) [0..<nat (psxvga_rows s)] (Some s) of
       None \<Rightarrow> None
     | Some s \<Rightarrow>
        (let s = s\<lparr>psxvga_cury := 0, psxvga_curx := 0\<rparr>;
             (mode, s) = psxvga_setup_mode hires garbage saved_command_line s;
             s = gpu [InitGPU mode] s;
             s = psxvga_set_vrange mode s;
             s = gpu [Cls, LoadFont] s
         in Some (s\<lparr>psxvga_bottom := 0\<rparr>)))"

record vc_data =
  vc_can_do_color :: bool
  vc_cols :: int
  vc_rows :: int
  vc_x :: int
  vc_y :: int
  vc_origin :: u32
  vc_complement_mask :: u32
  vc_size_row :: int

definition psxvga_init :: "psxcon \<Rightarrow> vc_data \<Rightarrow> vc_data" where
  "psxvga_init s conp = conp\<lparr>vc_can_do_color := False, vc_cols := psxvga_cols s, vc_rows := psxvga_rows s,
     vc_x := psxvga_curx s, vc_y := psxvga_cury s, vc_origin := 0, vc_complement_mask := 0x7700, vc_size_row := psxvga_cols s * 2\<rparr>"

definition cell_xy :: "int \<Rightarrow> int \<Rightarrow> int" where
  "cell_xy y x = (y * PSXVGA_FNT_H) * 65536 + x * PSXVGA_FNT_W"

text \<open>The row of the buffer that shows screen row \<open>y\<close>.\<close>

definition scr_row :: "int \<Rightarrow> psxcon \<Rightarrow> int" where
  "scr_row y s = (let y = y + psxvga_bottom s in if y \<ge> psxvga_rows s then y - psxvga_rows s else y)"

definition psxvga_writew2 :: "u32 \<Rightarrow> int \<Rightarrow> int \<Rightarrow> psxcon \<Rightarrow> psxcon option" where
  "psxvga_writew2 val y x s =
    (if y < psxvga_rows s \<and> x < psxvga_cols s
     then let s = gpu [Line (cell_xy y x) (PSXVGA_FNT_H * 65536 + PSXVGA_FNT_W) 0x000100, Print2 (x * PSXVGA_FNT_W) (y * PSXVGA_FNT_H) val] s
          in scr_set (scr_row y s) x val s
     else Some s)"

text \<open>The glyphs of buffer row \<open>z\<close> drawn as screen row \<open>y\<close>.\<close>

definition print_row :: "int \<Rightarrow> int \<Rightarrow> psxcon \<Rightarrow> gpu_op list option" where
  "print_row z y s =
    fold (\<lambda>x ops. Option.bind ops (\<lambda>ops. map_option (\<lambda>c. if c \<noteq> 0 \<and> c \<noteq> 32 then ops @ [Print2 (int x * PSXVGA_FNT_W) (y * PSXVGA_FNT_H) c] else ops)
      (scr_get z (int x) s))) [0..<nat (psxvga_cols s)] (Some [])"

text \<open>The rows of the buffer from the top of the screen down: from \<^verbatim>\<open>psxvga_bottom\<close> to the end, then from 0.\<close>

definition printscreen_rows :: "psxcon \<Rightarrow> int list" where
  "printscreen_rows s = [psxvga_bottom s..psxvga_rows s - 1] @ [0..psxvga_bottom s - 1]"

definition psxvga_printscreen :: "psxcon \<Rightarrow> psxcon option" where
  "psxvga_printscreen s =
    map_option (\<lambda>ops. gpu (Cls # ops) s)
      (fold (\<lambda>(y, z) ops. Option.bind ops (\<lambda>ops. map_option (\<lambda>r. ops @ r) (print_row z (int y) s)))
        (zip [0..<length (printscreen_rows s)] (printscreen_rows s)) (Some []))"

definition psxvga_readw :: "u16 \<Rightarrow> psxcon \<Rightarrow> u16 option" where
  "psxvga_readw addr s =
    (let y = uint addr div psxvga_cols s; x = uint addr - y * psxvga_cols s in map_option ucast (scr_get y x s))"

fun psxvga_memsetw :: "u16 \<Rightarrow> u16 \<Rightarrow> u16 \<Rightarrow> nat \<Rightarrow> psxcon \<Rightarrow> psxcon option" where
  "psxvga_memsetw sx sy c 0 s = Some s"
| "psxvga_memsetw sx sy c (Suc count) s =
    Option.bind (psxvga_writew2 (ucast c) (uint sy) (uint sx) s) (psxvga_memsetw sx sy c count)"

section \<open>Console operations\<close>

definition psxvga_clear :: "int \<Rightarrow> int \<Rightarrow> nat \<Rightarrow> nat \<Rightarrow> psxcon \<Rightarrow> psxcon option" where
  "psxvga_clear sy sx height width s =
    (if sy > psxvga_rows s then Some s
     else fold (\<lambda>y s. Option.bind s (\<lambda>s. psxvga_memsetw (of_int sx) (of_int ((sy + int y) * psxvga_cols s)) 32 width s)) [0..<height] (Some s))"

definition psxvga_putc :: "u32 \<Rightarrow> int \<Rightarrow> int \<Rightarrow> psxcon \<Rightarrow> psxcon option" where
  "psxvga_putc c ypos xpos s = psxvga_writew2 c ypos xpos s"

fun psxvga_putcs :: "u16 list \<Rightarrow> int \<Rightarrow> int \<Rightarrow> psxcon \<Rightarrow> psxcon option" where
  "psxvga_putcs [] ypos xpos s = Some s"
| "psxvga_putcs (c # cs) ypos xpos s = Option.bind (psxvga_writew2 (ucast c) ypos xpos s) (psxvga_putcs cs ypos (xpos + 1))"

definition psxvga_cursor :: "vc_data \<Rightarrow> psxcon \<Rightarrow> psxcon option" where
  "psxvga_cursor conp s =
    (let y = psxvga_cury s; x = psxvga_curx s in
     case scr_get (scr_row y s) x s of
       None \<Rightarrow> None
     | Some c \<Rightarrow>
        (let s = gpu [Line (cell_xy y x) (PSXVGA_FNT_H * 65536 + PSXVGA_FNT_W) 0x000100, Print2 (x * PSXVGA_FNT_W) (y * PSXVGA_FNT_H) c,
                      Line (cell_xy (vc_y conp) (vc_x conp)) (PSXVGA_FNT_H * 65536 + PSXVGA_FNT_W) 0x1122FF] s
         in Some (s\<lparr>psxvga_cury := vc_y conp, psxvga_curx := vc_x conp\<rparr>)))"

datatype scroll_dir = SM_UP | SM_DOWN

text \<open>\<^verbatim>\<open>for (y = bottom, i = 0; i < count; i++, y++)\<close>: the row is cleared after it is wrapped.\<close>

fun scroll_clear :: "nat \<Rightarrow> int \<Rightarrow> psxcon \<Rightarrow> psxcon option" where
  "scroll_clear 0 y s = Some s"
| "scroll_clear (Suc count) y s =
    (let y = (if y \<ge> psxvga_rows s then 0 else y) in Option.bind (clear_row y s) (scroll_clear count (y + 1)))"

definition psxvga_scroll :: "int \<Rightarrow> int \<Rightarrow> scroll_dir \<Rightarrow> nat \<Rightarrow> psxcon \<Rightarrow> psxcon option" where
  "psxvga_scroll t b dir count s =
    (case dir of
       SM_UP \<Rightarrow>
         Option.bind (scroll_clear count (psxvga_bottom s) s) (\<lambda>s.
           let s = s\<lparr>psxvga_bottom := psxvga_bottom s + int count\<rparr>;
               s = (if psxvga_bottom s \<ge> psxvga_rows s then s\<lparr>psxvga_bottom := psxvga_bottom s - psxvga_rows s\<rparr> else s)
           in psxvga_printscreen s)
     | SM_DOWN \<Rightarrow> psxvga_printscreen s)"

text \<open>The body of \<^verbatim>\<open>psxvga_memmovew\<close> is commented out, so a block move does nothing.\<close>

definition psxvga_bmove :: "int \<Rightarrow> int \<Rightarrow> int \<Rightarrow> int \<Rightarrow> nat \<Rightarrow> nat \<Rightarrow> psxcon \<Rightarrow> psxcon option" where
  "psxvga_bmove sy sx dy dx height width s = Some s"

definition psxvga_getxy :: "u32 \<Rightarrow> psxcon \<Rightarrow> u32 \<times> int \<times> int" where
  "psxvga_getxy pos s = (pos + of_int ((psxvga_cols s - psxvga_curx s) * 2), psxvga_curx s, psxvga_cury s)"

section \<open>The screen the buffer stands for\<close>

definition con_inv :: "psxcon \<Rightarrow> bool" where
  "con_inv s \<longleftrightarrow> 8 \<le> psxvga_rows s \<and> psxvga_rows s \<le> 21 \<and> 20 \<le> psxvga_cols s \<and> psxvga_cols s \<le> 80 \<and>
     0 \<le> psxvga_bottom s \<and> psxvga_bottom s < psxvga_rows s \<and> length (psxvga_scrbuf s) = 21 \<and> (\<forall>r\<in>set (psxvga_scrbuf s). length r = 80)"

definition nrows :: "psxcon \<Rightarrow> nat" where "nrows s = nat (psxvga_rows s)"
definition ncols :: "psxcon \<Rightarrow> nat" where "ncols s = nat (psxvga_cols s)"

text \<open>The buffer row behind screen row \<open>y\<close>, as a number.\<close>

definition brow :: "psxcon \<Rightarrow> nat \<Rightarrow> nat" where
  "brow s y = (y + nat (psxvga_bottom s)) mod nrows s"

definition con_view :: "psxcon \<Rightarrow> u32 list list" where
  "con_view s = map (\<lambda>y. take (ncols s) (psxvga_scrbuf s ! brow s y)) [0..<nrows s]"

lemma con_inv_nat:
  assumes "con_inv s"
  shows "8 \<le> nrows s" "nrows s \<le> 21" "20 \<le> ncols s" "ncols s \<le> 80" "int (nrows s) = psxvga_rows s" "int (ncols s) = psxvga_cols s"
    "nat (psxvga_bottom s) < nrows s" "int (nat (psxvga_bottom s)) = psxvga_bottom s" "length (psxvga_scrbuf s) = 21"
  using assms by (auto simp: con_inv_def nrows_def ncols_def)

lemma scr_row_brow:
  assumes "con_inv s" "y < nrows s"
  shows "scr_row (int y) s = int (brow s y)" "brow s y < nrows s"
proof -
  note n = con_inv_nat [OF assms(1)]
  show "brow s y < nrows s"
    using assms(2) by (simp add: brow_def)
  obtain b r where r: "psxvga_bottom s = int b" "psxvga_rows s = int r" "nrows s = r" "b < r"
    using n(5,7,8) by (metis nat_int of_nat_eq_iff)
  then show "scr_row (int y) s = int (brow s y)"
    using assms(2) by (auto simp: scr_row_def brow_def Let_def mod_if)
qed

lemma brow_inj: "con_inv s \<Longrightarrow> y < nrows s \<Longrightarrow> z < nrows s \<Longrightarrow> brow s y = brow s z \<longleftrightarrow> y = z"
  using con_inv_nat(7) [of s] by (auto simp: brow_def mod_if split: if_splits)

lemma gpu_fields [simp]:
  "psxvga_rows (gpu ops s) = psxvga_rows s" "psxvga_cols (gpu ops s) = psxvga_cols s" "psxvga_bottom (gpu ops s) = psxvga_bottom s"
  "psxvga_scrbuf (gpu ops s) = psxvga_scrbuf s" "psxvga_cury (gpu ops s) = psxvga_cury s" "psxvga_curx (gpu ops s) = psxvga_curx s"
  by (simp_all add: gpu_def)

lemma con_view_gpu [simp]: "con_view (gpu ops s) = con_view s" "con_inv (gpu ops s) = con_inv s" "scr_row y (gpu ops s) = scr_row y s"
  by (simp_all add: con_view_def con_inv_def nrows_def ncols_def brow_def scr_row_def Let_def)

lemma length_con_view [simp]: "length (con_view s) = nrows s"
  by (simp add: con_view_def)

lemma length_con_row: "con_inv s \<Longrightarrow> y < nrows s \<Longrightarrow> length (con_view s ! y) = ncols s"
  using scr_row_brow(2) [of s y] con_inv_nat [of s] by (auto simp: con_view_def con_inv_def)

text \<open>What the console layer means by its operations.\<close>

definition scr_put :: "'c \<Rightarrow> nat \<Rightarrow> nat \<Rightarrow> 'c list list \<Rightarrow> 'c list list" where
  "scr_put c y x v = v[y := (v ! y)[x := c]]"

definition scr_scroll :: "'c \<Rightarrow> nat \<Rightarrow> 'c list list \<Rightarrow> 'c list list" where
  "scr_scroll blank n v = drop n v @ replicate n (map (\<lambda>_. blank) (hd v))"

lemma rows_update: "\<forall>r\<in>set B. length r = 80 \<Longrightarrow> length r' = 80 \<Longrightarrow> \<forall>r\<in>set (B[i := r']). length r = 80"
  using set_update_subset_insert [of B i r'] by auto

lemma scrbuf_row: "con_inv s \<Longrightarrow> i < 21 \<Longrightarrow> length (psxvga_scrbuf s ! i) = 80"
  by (auto simp: con_inv_def)

lemma con_inv_scrbuf:
  "con_inv s \<Longrightarrow> length r = 80 \<Longrightarrow> con_inv (s\<lparr>psxvga_scrbuf := (psxvga_scrbuf s)[i := r]\<rparr>)"
  using rows_update by (auto simp: con_inv_def)

lemma writew2_put:
  assumes "con_inv s"
  shows "\<exists>s'. psxvga_writew2 c (int y) (int x) s = Some s' \<and> con_inv s' \<and> con_view s' = scr_put c y x (con_view s)"
proof (cases "y < nrows s \<and> x < ncols s")
  case False
  then have "\<not> (int y < psxvga_rows s \<and> int x < psxvga_cols s)"
    using con_inv_nat(5,6) [OF assms] by auto
  moreover have "scr_put c y x (con_view s) = con_view s"
    using False length_con_row [OF assms, of y] by (cases "y < nrows s") (auto simp: scr_put_def list_update_beyond)
  ultimately show ?thesis
    using assms by (auto simp: psxvga_writew2_def)
next
  case True
  note n = con_inv_nat [OF assms] and b = scr_row_brow [OF assms, of y]
  let ?o = "gpu [Line (cell_xy (int y) (int x)) (12 * 65536 + 8) 0x000100, Print2 (int x * 8) (int y * 12) c] s"
  define s' where "s' = ?o\<lparr>psxvga_scrbuf := (psxvga_scrbuf s)[brow s y := (psxvga_scrbuf s ! brow s y)[x := c]]\<rparr>"
  have w: "psxvga_writew2 c (int y) (int x) s = Some s'"
    using True n b by (simp add: psxvga_writew2_def scr_set_def s'_def Let_def)
  have f: "psxvga_rows s' = psxvga_rows s" "psxvga_cols s' = psxvga_cols s" "psxvga_bottom s' = psxvga_bottom s"
      "psxvga_scrbuf s' = (psxvga_scrbuf s)[brow s y := (psxvga_scrbuf s ! brow s y)[x := c]]"
    by (simp_all add: s'_def)
  have "con_inv s'"
    using con_inv_scrbuf [of ?o "(psxvga_scrbuf s ! brow s y)[x := c]" "brow s y"] scrbuf_row [OF assms, of "brow s y"] assms b True n
    by (simp add: s'_def)
  moreover have "con_view s' = scr_put c y x (con_view s)"
  proof (rule nth_equalityI)
    show "length (con_view s') = length (scr_put c y x (con_view s))"
      by (simp add: scr_put_def nrows_def f)
    fix i assume "i < length (con_view s')"
    then have i: "i < nrows s" "brow s' i = brow s i" "ncols s' = ncols s" "nrows s' = nrows s"
      by (simp_all add: nrows_def ncols_def brow_def f)
    then show "con_view s' ! i = scr_put c y x (con_view s) ! i"
      using brow_inj [OF assms, of i y] scr_row_brow(2) [OF assms, of i] True n
      by (cases "i = y") (simp_all add: con_view_def scr_put_def f take_update_swap nth_list_update)
  qed
  ultimately show ?thesis
    using w by blast
qed

section \<open>Scrolling\<close>

definition wipe :: "nat \<Rightarrow> u32 list \<Rightarrow> u32 list" where
  "wipe n r = replicate n 0 @ drop n r"

lemma length_wipe [simp]: "n \<le> length r \<Longrightarrow> length (wipe n r) = length r"
  by (simp add: wipe_def)

lemma wipe_Suc: "n < length r \<Longrightarrow> (wipe n r)[n := 0] = wipe (Suc n) r"
  by (simp add: wipe_def list_update_append Cons_nth_drop_Suc [symmetric] replicate_append_same)

lemma wipe_wipe [simp]: "n \<le> length r \<Longrightarrow> wipe n (wipe n r) = wipe n r"
  by (simp add: wipe_def)

lemma take_wipe: "n \<le> length r \<Longrightarrow> take n (wipe n r) = replicate n 0"
  by (simp add: wipe_def)

lemma clear_row_wipe:
  assumes "0 \<le> y" "y < 21" "psxvga_cols s \<le> 80" "length (psxvga_scrbuf s) = 21" "length (psxvga_scrbuf s ! nat y) = 80"
  shows "clear_row y s = Some (s\<lparr>psxvga_scrbuf := (psxvga_scrbuf s)[nat y := wipe (nat (psxvga_cols s)) (psxvga_scrbuf s ! nat y)]\<rparr>)"
proof -
  have "n \<le> 80 \<Longrightarrow> fold (\<lambda>x s. Option.bind s (scr_set y (int x) 0)) [0..<n] (Some s) =
      Some (s\<lparr>psxvga_scrbuf := (psxvga_scrbuf s)[nat y := wipe n (psxvga_scrbuf s ! nat y)]\<rparr>)" for n
  proof (induction n)
    case 0
    then show ?case by (simp add: wipe_def)
  next
    case (Suc n)
    then show ?case
      using assms by (simp add: scr_set_def wipe_Suc nat_less_iff)
  qed
  then show ?thesis
    using assms(3) by (simp add: clear_row_def)
qed

text \<open>The rows cleared by a scroll of \<open>n\<close> lines that starts at buffer row \<open>y\<close>.\<close>

lemma scroll_clear_rows:
  assumes "con_inv s" "y \<le> nrows s"
  shows "\<exists>B. scroll_clear n (int y) s = Some (s\<lparr>psxvga_scrbuf := B\<rparr>) \<and> con_inv (s\<lparr>psxvga_scrbuf := B\<rparr>) \<and>
    (\<forall>z<21. B ! z = (if \<exists>i<n. z = (y + i) mod nrows s then wipe (ncols s) (psxvga_scrbuf s ! z) else psxvga_scrbuf s ! z))"
  using assms
proof (induction n arbitrary: y s)
  case 0
  then show ?case by (intro exI [of _ "psxvga_scrbuf s"]) simp
next
  case (Suc n)
  note c = con_inv_nat [OF Suc.prems(1)]
  let ?y = "y mod nrows s"
  have y: "(if int y \<ge> psxvga_rows s then 0 else int y) = int ?y" "?y < 21" "?y < nrows s"
    using Suc.prems(2) c by (auto simp: mod_if)
  let ?s = "s\<lparr>psxvga_scrbuf := (psxvga_scrbuf s)[?y := wipe (ncols s) (psxvga_scrbuf s ! ?y)]\<rparr>"
  have cl: "clear_row (int ?y) s = Some ?s"
    using clear_row_wipe [of "int ?y" s] scrbuf_row [OF Suc.prems(1) y(2)] y c by (simp add: ncols_def)
  have inv: "con_inv ?s"
    using con_inv_scrbuf [OF Suc.prems(1)] scrbuf_row [OF Suc.prems(1) y(2)] c by simp
  have n: "nrows ?s = nrows s" "ncols ?s = ncols s"
    by (simp_all add: nrows_def ncols_def)
  obtain B where B: "scroll_clear n (int (?y + 1)) ?s = Some (?s\<lparr>psxvga_scrbuf := B\<rparr>)" "con_inv (?s\<lparr>psxvga_scrbuf := B\<rparr>)"
      "\<forall>z<21. B ! z = (if \<exists>i<n. z = (?y + 1 + i) mod nrows s then wipe (ncols s) (psxvga_scrbuf ?s ! z) else psxvga_scrbuf ?s ! z)"
    using Suc.IH [OF inv, of "?y + 1"] y(3) unfolding n by auto
  have "scroll_clear (Suc n) (int y) s = Some (s\<lparr>psxvga_scrbuf := B\<rparr>)"
    using B(1) cl y(1) by (simp add: Let_def add.commute)
  moreover have "B ! z = (if \<exists>i<Suc n. z = (y + i) mod nrows s then wipe (ncols s) (psxvga_scrbuf s ! z) else psxvga_scrbuf s ! z)" if z: "z < 21" for z
  proof -
    have m: "(?y + 1 + i) mod nrows s = (y + Suc i) mod nrows s" for i
      using mod_add_left_eq [of y "nrows s" "Suc i"] by simp
    have "(\<exists>i<Suc n. z = (y + i) mod nrows s) \<longleftrightarrow> z = ?y \<or> (\<exists>i<n. z = (?y + 1 + i) mod nrows s)"
      unfolding m by (auto simp: less_Suc_eq_0_disj)
    moreover have "B ! z = (if \<exists>i<n. z = (?y + 1 + i) mod nrows s then wipe (ncols s) (psxvga_scrbuf ?s ! z) else psxvga_scrbuf ?s ! z)"
      using B(3) z by blast
    moreover have "psxvga_scrbuf ?s ! z = (if z = ?y then wipe (ncols s) (psxvga_scrbuf s ! z) else psxvga_scrbuf s ! z)"
      using c(9) z by (simp add: nth_list_update)
    moreover have "wipe (ncols s) (wipe (ncols s) (psxvga_scrbuf s ! z)) = wipe (ncols s) (psxvga_scrbuf s ! z)"
      using scrbuf_row [OF Suc.prems(1) z] c(4) by simp
    ultimately show ?thesis
      by (simp only: if_split) argo
  qed
  ultimately show ?case
    using B(2) by (intro exI [of _ B]) simp
qed

section \<open>Drawing\<close>

text \<open>The glyphs that show a row, and a screen.\<close>

definition draw_row :: "nat \<Rightarrow> u32 list \<Rightarrow> gpu_op list" where
  "draw_row y row = concat (map (\<lambda>x. if row ! x \<noteq> 0 \<and> row ! x \<noteq> 32 then [Print2 (int x * 8) (int y * 12) (row ! x)] else []) [0..<length row])"

definition draw_screen :: "u32 list list \<Rightarrow> gpu_op list" where
  "draw_screen v = concat (map (\<lambda>y. draw_row y (v ! y)) [0..<length v])"

lemma print_row_draw:
  assumes "z < 21" "psxvga_cols s \<le> 80" "length (psxvga_scrbuf s ! z) = 80"
  shows "print_row (int z) (int y) s = Some (draw_row y (take (ncols s) (psxvga_scrbuf s ! z)))"
proof -
  have "n \<le> 80 \<Longrightarrow> fold (\<lambda>x ops. Option.bind ops (\<lambda>ops. map_option (\<lambda>c. if c \<noteq> 0 \<and> c \<noteq> 32 then ops @ [Print2 (int x * 8) (int y * 12) c] else ops)
      (scr_get (int z) (int x) s))) [0..<n] (Some []) =
    Some (concat (map (\<lambda>x. if psxvga_scrbuf s ! z ! x \<noteq> 0 \<and> psxvga_scrbuf s ! z ! x \<noteq> 32
      then [Print2 (int x * 8) (int y * 12) (psxvga_scrbuf s ! z ! x)] else []) [0..<n]))" for n
    using assms(1) by (induction n) (simp_all add: scr_get_def)
  from this [of "ncols s"] have "print_row (int z) (int y) s = Some (concat (map (\<lambda>x. if psxvga_scrbuf s ! z ! x \<noteq> 0 \<and> psxvga_scrbuf s ! z ! x \<noteq> 32
      then [Print2 (int x * 8) (int y * 12) (psxvga_scrbuf s ! z ! x)] else []) [0..<ncols s]))"
    using assms(2) by (simp add: print_row_def ncols_def)
  moreover have "length (take (ncols s) (psxvga_scrbuf s ! z)) = ncols s"
    using assms(2,3) by (simp add: ncols_def)
  ultimately show ?thesis
    by (auto simp: draw_row_def intro!: arg_cong [of _ _ concat] map_cong)
qed

lemma printscreen_rows_brow:
  assumes "con_inv s"
  shows "printscreen_rows s = map (\<lambda>y. int (brow s y)) [0..<nrows s]"
proof -
  obtain b r where r: "psxvga_bottom s = int b" "psxvga_rows s = int r" "nrows s = r" "b < r"
    using con_inv_nat(5,7,8) [OF assms] by (metis nat_int of_nat_eq_iff)
  show ?thesis
  proof (rule nth_equalityI)
    show "length (printscreen_rows s) = length (map (\<lambda>y. int (brow s y)) [0..<nrows s])"
      using r by (simp add: printscreen_rows_def)
    fix i assume "i < length (printscreen_rows s)"
    then have "i < r"
      using r by (simp add: printscreen_rows_def)
    then show "printscreen_rows s ! i = map (\<lambda>y. int (brow s y)) [0..<nrows s] ! i"
      using r by (auto simp: printscreen_rows_def nth_append brow_def mod_if)
  qed
qed

lemma printscreen_draw:
  assumes "con_inv s"
  shows "psxvga_printscreen s = Some (gpu (Cls # draw_screen (con_view s)) s)"
proof -
  note c = con_inv_nat [OF assms]
  have p: "print_row (int (brow s y)) (int y) s = Some (draw_row y (con_view s ! y))" if "y < nrows s" for y
    using print_row_draw [of "brow s y" s y] scr_row_brow(2) [OF assms that] scrbuf_row [OF assms, of "brow s y"] c that
    by (simp add: con_view_def)
  have z: "zip [0..<length (printscreen_rows s)] (printscreen_rows s) = map (\<lambda>y. (y, int (brow s y))) [0..<nrows s]"
    unfolding printscreen_rows_brow [OF assms] by (rule nth_equalityI) simp_all
  have "n \<le> nrows s \<Longrightarrow> fold (\<lambda>(y, z) ops. Option.bind ops (\<lambda>ops. map_option (\<lambda>r. ops @ r) (print_row z (int y) s)))
      (map (\<lambda>y. (y, int (brow s y))) [0..<n]) (Some []) = Some (concat (map (\<lambda>y. draw_row y (con_view s ! y)) [0..<n]))" for n
    by (induction n) (simp_all add: p)
  then show ?thesis
    by (simp add: psxvga_printscreen_def z draw_screen_def)
qed

lemma blank_row:
  assumes "con_inv s"
  shows "map (\<lambda>_. 0) (hd (con_view s)) = replicate (ncols s) (0 :: u32)"
proof -
  have "0 < nrows s"
    using con_inv_nat [OF assms] by simp
  moreover from this have "con_view s \<noteq> []"
    by (auto simp: con_view_def)
  ultimately show ?thesis
    using length_con_row [OF assms, of 0] by (simp add: hd_conv_nth map_replicate_const)
qed

lemma scrolled_row:
  assumes "con_inv s" "n \<le> r" "nrows s = r" "psxvga_bottom s = int k" "i < r" "(i + (k + n)) mod r = z" "z < 21"
    and B: "\<forall>z<21. B ! z = (if \<exists>i<n. z = (k + i) mod r then wipe (ncols s) (psxvga_scrbuf s ! z) else psxvga_scrbuf s ! z)"
  shows "take (ncols s) (B ! z) = scr_scroll 0 n (con_view s) ! i"
proof (cases "i + n < r")
  case True
  have bs: "brow s j = (k + j) mod r" for j
    using assms(3,4) by (simp add: brow_def nrows_def add.commute)
  have b: "brow s (n + i) = z"
    using assms(6) by (simp add: bs algebra_simps)
  have "\<not> (\<exists>j<n. z = (k + j) mod r)"
    using brow_inj [OF assms(1), of "n + i"] True assms(2,3) unfolding bs [symmetric] b [symmetric] by (auto simp: add.commute)
  then have "B ! z = psxvga_scrbuf s ! z"
    using B assms(7) by metis
  moreover have "con_view s ! (n + i) = take (ncols s) (psxvga_scrbuf s ! z)"
    using b True assms(3) by (simp add: con_view_def add.commute)
  moreover have "i < r - n"
    using True by simp
  ultimately show ?thesis
    using assms(2,3) by (simp add: scr_scroll_def nth_append)
next
  case False
  then have "i + (k + n) = k + (i + n - r) + r" "i + n - r < n"
    using assms(5) by simp_all
  then have "\<exists>j<n. z = (k + j) mod r"
    unfolding assms(6) [symmetric] by (metis mod_add_self2)
  then have "B ! z = wipe (ncols s) (psxvga_scrbuf s ! z)"
    using B assms(7) by metis
  moreover have "\<not> i < r - n"
    using False by simp
  ultimately show ?thesis
    using assms(2,3,5) blank_row [OF assms(1)] con_inv_nat(4) [OF assms(1)]
      take_wipe [of "ncols s" "psxvga_scrbuf s ! z"] scrbuf_row [OF assms(1,7)] by (simp add: scr_scroll_def nth_append)
qed

lemma scroll_view:
  assumes "con_inv s" "n \<le> nrows s"
  shows "\<exists>s'. psxvga_scroll t b SM_UP n s = Some (gpu (Cls # draw_screen (con_view s')) s') \<and> con_inv s' \<and>
    con_view s' = scr_scroll 0 n (con_view s) \<and> psxvga_rows s' = psxvga_rows s \<and> psxvga_cols s' = psxvga_cols s \<and>
    psxvga_cury s' = psxvga_cury s \<and> psxvga_curx s' = psxvga_curx s"
proof -
  note c = con_inv_nat [OF assms(1)]
  obtain k r where r: "psxvga_bottom s = int k" "psxvga_rows s = int r" "nrows s = r" "k < r"
    using c(5,7,8) by (metis nat_int of_nat_eq_iff)
  obtain B where B: "scroll_clear n (int k) s = Some (s\<lparr>psxvga_scrbuf := B\<rparr>)" "con_inv (s\<lparr>psxvga_scrbuf := B\<rparr>)"
      "\<forall>z<21. B ! z = (if \<exists>i<n. z = (k + i) mod r then wipe (ncols s) (psxvga_scrbuf s ! z) else psxvga_scrbuf s ! z)"
    using scroll_clear_rows [OF assms(1), of k n] r by auto
  define s' where "s' = s\<lparr>psxvga_scrbuf := B, psxvga_bottom := int ((k + n) mod r)\<rparr>"
  have f: "nrows s' = r" "ncols s' = ncols s" "psxvga_scrbuf s' = B" "brow s' y = (y + (k + n)) mod r" for y
    using r by (simp_all add: s'_def nrows_def ncols_def brow_def mod_add_right_eq)
  have inv: "con_inv s'"
    using B(2) r by (simp add: con_inv_def s'_def)
  have "psxvga_scroll t b SM_UP n s = psxvga_printscreen s'"
    using B(1) r assms(2) by (auto simp: psxvga_scroll_def s'_def Let_def mod_if)
  then have "psxvga_scroll t b SM_UP n s = Some (gpu (Cls # draw_screen (con_view s')) s')"
    by (simp add: printscreen_draw [OF inv])
  moreover have "con_view s' = scr_scroll 0 n (con_view s)"
  proof (rule nth_equalityI)
    show "length (con_view s') = length (scr_scroll 0 n (con_view s))"
      using assms(2) f(1) r(3) by (simp add: scr_scroll_def)
    fix i assume "i < length (con_view s')"
    then have i: "i < r"
      using f(1) by simp
    have z: "(i + (k + n)) mod r < 21"
      using r(3,4) c(2) by (simp add: order_less_le_trans [OF mod_less_divisor])
    show "con_view s' ! i = scr_scroll 0 n (con_view s) ! i"
      using scrolled_row [OF assms(1) _ r(3,1) i refl z B(3)] assms(2) r(3) i f by (simp add: con_view_def)
  qed
  moreover have "psxvga_rows s' = psxvga_rows s" "psxvga_cols s' = psxvga_cols s" "psxvga_cury s' = psxvga_cury s" "psxvga_curx s' = psxvga_curx s"
    by (simp_all add: s'_def)
  ultimately show ?thesis
    using inv by blast
qed

section \<open>Start-up\<close>

text \<open>The static variables as the kernel image has them.\<close>

definition psxcon_static :: psxcon where
  "psxcon_static = \<lparr>psxvga_cols = 37, psxvga_rows = 21, psxvga_scrbuf = replicate 21 (replicate 80 0),
     psxvga_cury = 0, psxvga_curx = 0, psxvga_bottom = 0, gpu_ops = []\<rparr>"

lemma setup_mode_geometry:
  assumes "psxvga_setup_mode hires g l s = (mode, s')"
  shows "8 \<le> psxvga_rows s'" "psxvga_rows s' \<le> 21" "psxvga_cols s' \<in> {30, 38, 62, 78}"
    "s' = s\<lparr>psxvga_cols := psxvga_cols s', psxvga_rows := psxvga_rows s'\<rparr>"
proof -
  obtain w h rate where v: "video_choice hires g l = (w, h, rate)"
    by (rule prod_cases3)
  obtain m w' where mw: "(if w = 256 then (0 :: u32, w) else if w = 512 then (2, w) else if w = 640 then (3, w) else (1, 320)) = (m, w')"
    by fastforce
  then have w': "w' \<in> {256, 320, 512, 640}"
    by (auto split: if_splits)
  have s': "s' = s\<lparr>psxvga_cols := max 20 (min 80 (w' div 8 - 2)), psxvga_rows := max 8 (min 21 (h div 12))\<rparr>"
  proof -
    have clamp: "(if (if hi < x then hi else x) < lo then lo else if hi < x then hi else x) = max lo (min hi x)" for lo hi x :: int
      by (simp add: max_def min_def)
    show ?thesis
      using assms unfolding psxvga_setup_mode_def v by (simp only: prod.case mw Let_def clamp) simp
  qed
  show "8 \<le> psxvga_rows s'" "psxvga_rows s' \<le> 21" "s' = s\<lparr>psxvga_cols := psxvga_cols s', psxvga_rows := psxvga_rows s'\<rparr>"
    unfolding s' by simp_all
  show "psxvga_cols s' \<in> {30, 38, 62, 78}"
    using w' unfolding s' by auto
qed

lemma clear_row_blank:
  assumes "psxvga_scrbuf s = replicate 21 (replicate 80 0)" "psxvga_cols s = 37" "y < 21"
  shows "clear_row (int y) s = Some s"
proof -
  have "wipe 37 (replicate 80 0) = (replicate 80 0 :: u32 list)"
    by (simp add: wipe_def replicate_add [symmetric])
  then have "(psxvga_scrbuf s)[y := wipe 37 (psxvga_scrbuf s ! y)] = psxvga_scrbuf s"
    using assms list_update_id [of "psxvga_scrbuf s" y] by simp
  then show ?thesis
    using clear_row_wipe [of "int y" s] assms by simp
qed

lemma startup_state:
  assumes "psxvga_setup_mode hires g l psxcon_static = (mode, s)"
  shows "psxvga_startup hires g l psxcon_static =
    Some (gpu [InitGPU mode, GP1 (if mode AND 8 \<noteq> 0 then VRANGE_PAL else VRANGE_NTSC), Cls, LoadFont] s)"
proof -
  have "n \<le> 21 \<Longrightarrow> fold (\<lambda>y s. Option.bind s (clear_row (int y))) [0..<n] (Some psxcon_static) = Some psxcon_static" for n
    by (induction n) (simp_all add: clear_row_blank psxcon_static_def)
  from this [of 21] have "fold (\<lambda>y s. Option.bind s (clear_row (int y))) [0..<nat (psxvga_rows psxcon_static)] (Some psxcon_static) = Some psxcon_static"
    by (simp add: psxcon_static_def)
  moreover have "psxcon_static\<lparr>psxvga_cury := 0, psxvga_curx := 0\<rparr> = psxcon_static"
    by (simp add: psxcon_static_def)
  moreover have "psxvga_bottom s = 0"
    by (subst setup_mode_geometry(4) [OF assms]) (simp add: psxcon_static_def)
  then have "s\<lparr>gpu_ops := x, psxvga_bottom := 0\<rparr> = s\<lparr>gpu_ops := x\<rparr>" for x
    by (cases s) simp
  ultimately show ?thesis
    using assms by (simp add: psxvga_startup_def gpu_def psxvga_set_vrange_def Let_def del: upt_Suc)
qed

lemma con_view_blank:
  assumes "con_inv s" "psxvga_scrbuf s = replicate 21 (replicate 80 0)"
  shows "con_view s = replicate (nrows s) (replicate (ncols s) 0)"
proof (rule nth_equalityI)
  fix i assume "i < length (con_view s)"
  then have i: "i < nrows s" "brow s i < 21"
    using scr_row_brow(2) [OF assms(1), of i] con_inv_nat(2) [OF assms(1)] by simp_all
  then show "con_view s ! i = replicate (nrows s) (replicate (ncols s) 0) ! i"
    using assms(2) con_inv_nat(4) [OF assms(1)] by (simp add: con_view_def min_def)
qed simp

text \<open>The console keeps the cursor on the screen.\<close>

definition con_ok :: "psxcon \<Rightarrow> bool" where
  "con_ok s \<longleftrightarrow> con_inv s \<and> psxvga_rows s \<le> psxvga_cols s \<and> 0 \<le> psxvga_cury s \<and> psxvga_cury s < psxvga_rows s \<and>
     0 \<le> psxvga_curx s \<and> psxvga_curx s < psxvga_cols s"

text \<open>What is on the screen and where the cursor is.\<close>

type_synonym con_screen = "u32 list list \<times> nat \<times> nat"

definition con_screen :: "psxcon \<Rightarrow> con_screen" where
  "con_screen s = (con_view s, nat (psxvga_cury s), nat (psxvga_curx s))"

lemma startup_ok:
  "\<exists>s. psxvga_startup hires g l psxcon_static = Some s \<and> con_ok s \<and>
    con_screen s = (replicate (nrows s) (replicate (ncols s) 0), 0, 0) \<and> psxvga_cols s \<in> {30, 38, 62, 78}"
proof -
  obtain mode s where s: "psxvga_setup_mode hires g l psxcon_static = (mode, s)"
    by fastforce
  note g = setup_mode_geometry [OF s]
  have b: "psxvga_scrbuf s = replicate 21 (replicate 80 0)" "psxvga_bottom s = 0" "psxvga_cury s = 0" "psxvga_curx s = 0"
    by (subst g(4), simp add: psxcon_static_def)+
  have inv: "con_inv s"
    using g(1,2,3) b by (auto simp: con_inv_def)
  have "con_ok s"
    using inv g(1,2,3) b by (auto simp: con_ok_def)
  moreover have "con_view s = replicate (nrows s) (replicate (ncols s) 0)"
    by (rule con_view_blank [OF inv b(1)])
  ultimately show ?thesis
    using startup_state [OF s] b g(3) by (auto simp: con_ok_def con_screen_def nrows_def ncols_def)
qed

section \<open>Refinement of the screen\<close>

datatype con_op = Putc u32 nat nat | Putcs "u16 list" nat nat | Cursor nat nat | Scroll nat

text \<open>The console layer's record of this screen, with the cursor where it wants it.\<close>

definition con_vc :: "nat \<Rightarrow> nat \<Rightarrow> psxcon \<Rightarrow> vc_data" where
  "con_vc y x s = \<lparr>vc_can_do_color = False, vc_cols = psxvga_cols s, vc_rows = psxvga_rows s, vc_x = int x, vc_y = int y,
     vc_origin = 0, vc_complement_mask = 0x7700, vc_size_row = psxvga_cols s * 2\<rparr>"

definition con_step :: "con_op \<Rightarrow> psxcon \<Rightarrow> psxcon option" where
  "con_step c s = (case c of
     Putc v y x \<Rightarrow> psxvga_putc v (int y) (int x) s
   | Putcs vs y x \<Rightarrow> psxvga_putcs vs (int y) (int x) s
   | Cursor y x \<Rightarrow> psxvga_cursor (con_vc y x s) s
   | Scroll n \<Rightarrow> psxvga_scroll 0 (psxvga_rows s) SM_UP n s)"

fun con_allowed :: "con_op \<Rightarrow> con_screen \<Rightarrow> bool" where
  "con_allowed (Putc v y x) a \<longleftrightarrow> True"
| "con_allowed (Putcs vs y x) a \<longleftrightarrow> True"
| "con_allowed (Cursor y x) (v, a) \<longleftrightarrow> y < length v \<and> x < length (hd v)"
| "con_allowed (Scroll n) (v, a) \<longleftrightarrow> n \<le> length v"

fun con_spec :: "con_op \<Rightarrow> con_screen \<Rightarrow> con_screen" where
  "con_spec (Putc c y x) (v, a) = (scr_put c y x v, a)"
| "con_spec (Putcs cs y x) (v, a) = (fold (\<lambda>i. scr_put (ucast (cs ! i)) y (x + i)) [0..<length cs] v, a)"
| "con_spec (Cursor y x) (v, a) = (v, y, x)"
| "con_spec (Scroll n) (v, a) = (scr_scroll 0 n v, a)"

lemma writew2_frame:
  "psxvga_writew2 c y x s = Some s' \<Longrightarrow> psxvga_rows s' = psxvga_rows s \<and> psxvga_cols s' = psxvga_cols s \<and>
    psxvga_cury s' = psxvga_cury s \<and> psxvga_curx s' = psxvga_curx s"
  by (auto simp: psxvga_writew2_def scr_set_def Let_def split: if_splits)

lemma putc_sim:
  assumes "con_ok s"
  shows "\<exists>s'. psxvga_writew2 c (int y) (int x) s = Some s' \<and> con_ok s' \<and>
    con_screen s' = (scr_put c y x (con_view s), snd (con_screen s))"
  using writew2_put [of s c y x] writew2_frame [of c "int y" "int x" s] assms by (auto simp: con_ok_def con_screen_def)

lemma putcs_sim:
  assumes "con_ok s"
  shows "\<exists>s'. psxvga_putcs cs (int y) (int x) s = Some s' \<and> con_ok s' \<and>
    con_screen s' = (fold (\<lambda>i. scr_put (ucast (cs ! i)) y (x + i)) [0..<length cs] (con_view s), snd (con_screen s))"
  using assms
proof (induction cs arbitrary: x s)
  case Nil
  then show ?case by (simp add: con_screen_def)
next
  case (Cons c cs)
  obtain t where t: "psxvga_writew2 (ucast c) (int y) (int x) s = Some t" "con_ok t"
      "con_screen t = (scr_put (ucast c) y x (con_view s), snd (con_screen s))"
    using putc_sim [OF Cons.prems] by blast
  have "[0..<length (c # cs)] = 0 # map Suc [0..<length cs]"
    by (simp add: upt_conv_Cons map_Suc_upt del: upt_Suc)
  then have "fold (\<lambda>i. scr_put (ucast ((c # cs) ! i)) y (x + i)) [0..<length (c # cs)] v =
      fold (\<lambda>i. scr_put (ucast (cs ! i)) y (Suc x + i)) [0..<length cs] (scr_put (ucast c) y x v)" for v :: "u32 list list"
    by (simp only: fold_simps fold_map o_def comp_def) simp
  moreover have "con_view t = scr_put (ucast c) y x (con_view s)" "snd (con_screen t) = snd (con_screen s)"
    using t(3) by (simp_all add: con_screen_def)
  ultimately show ?case
    using t(1) Cons.IH [OF t(2), of "Suc x"] by (simp add: add.commute)
qed

lemma cursor_sim:
  assumes "con_ok s" "y < nrows s" "x < ncols s" "vc_y conp = int y" "vc_x conp = int x"
  shows "\<exists>s'. psxvga_cursor conp s = Some s' \<and> con_ok s' \<and> con_screen s' = (con_view s, y, x)"
proof -
  have i: "con_inv s"
    using assms(1) by (simp add: con_ok_def)
  note n = con_inv_nat [OF i]
  obtain cy where cy: "psxvga_cury s = int cy" "cy < nrows s"
    using assms(1) n(5) by (metis con_ok_def nonneg_int_cases of_nat_less_iff)
  have "scr_get (scr_row (int cy) s) (psxvga_curx s) s \<noteq> None"
    using scr_row_brow [OF i cy(2)] n(2) assms(1) by (simp add: scr_get_def con_ok_def con_inv_def)
  moreover have "con_view (s\<lparr>psxvga_cury := a, psxvga_curx := b\<rparr>) = con_view s" "con_inv (s\<lparr>psxvga_cury := a, psxvga_curx := b\<rparr>) = con_inv s" for s a b
    by (simp_all add: con_view_def con_inv_def nrows_def ncols_def brow_def)
  ultimately show ?thesis
    using assms i n cy by (auto simp: psxvga_cursor_def Let_def con_ok_def con_screen_def)
qed

lemma scroll_sim:
  assumes "con_ok s" "n \<le> nrows s"
  shows "\<exists>s'. psxvga_scroll t b SM_UP n s = Some s' \<and> con_ok s' \<and> con_screen s' = (scr_scroll 0 n (con_view s), snd (con_screen s))"
  using scroll_view [of s n t b] assms by (auto simp: con_ok_def con_screen_def)

lemma hd_con_view: "con_inv s \<Longrightarrow> length (hd (con_view s)) = ncols s"
  using length_con_row [of s 0] con_inv_nat(1) [of s] length_con_view [of s] by (metis hd_conv_nth le_zero_eq length_0_conv neq0_conv zero_neq_numeral)

interpretation psxscreen: forward_sim con_ok con_screen con_step con_allowed con_spec
proof
  fix s c assume s: "con_ok s" "con_allowed c (con_screen s)"
  then have "con_inv s"
    by (simp add: con_ok_def)
  then show "\<exists>s'. con_step c s = Some s' \<and> con_ok s' \<and> con_screen s' = con_spec c (con_screen s)"
    using s putc_sim [OF s(1)] putcs_sim [OF s(1)] cursor_sim [OF s(1)] scroll_sim [OF s(1)] hd_con_view [of s]
    by (cases c) (simp_all add: con_step_def con_screen_def psxvga_putc_def con_vc_def)
qed

text \<open>
  C13: The console refines a plain grid of characters. After start-up, for any
  command line, the screen is blank; and for any sequence of character writes,
  string writes, cursor moves and upward scrolls that names a place on the
  screen and scrolls by no more than its height, no access leaves the static
  buffer and what the circular buffer shows is what the same operations give on
  a plain list of rows.
\<close>

theorem psxcon_refines:
  "\<exists>s. psxvga_startup hires garbage saved_command_line psxcon_static = Some s \<and>
     con_screen s = (replicate (nrows s) (replicate (ncols s) 0), 0, 0) \<and> nrows s \<in> {8..21} \<and> ncols s \<in> {30, 38, 62, 78} \<and>
     (psxscreen.allowed_seq cs (con_screen s) \<longrightarrow>
       (\<exists>s'. psxscreen.run cs s = Some s' \<and> con_screen s' = fold con_spec cs (con_screen s)))"
proof -
  obtain s where s: "psxvga_startup hires garbage saved_command_line psxcon_static = Some s" "con_ok s"
      "con_screen s = (replicate (nrows s) (replicate (ncols s) 0), 0, 0)" "psxvga_cols s \<in> {30, 38, 62, 78}"
    using startup_ok by blast
  then have "nrows s \<in> {8..21}" "ncols s \<in> {30, 38, 62, 78}"
    using con_inv_nat(1,2) [of s] by (auto simp: con_ok_def ncols_def)
  then show ?thesis
    using s psxscreen.run_sim [OF s(2), of cs] by blast
qed

theorem psxcon_refines_witness:
  "\<exists>s s'. psxvga_startup False [] [] psxcon_static = Some s \<and> psxscreen.run [Putc 65 0 0, Cursor 1 0, Scroll 1] s = Some s' \<and>
     con_screen s' = fold con_spec [Putc 65 0 0, Cursor 1 0, Scroll 1] (con_screen s)"
proof -
  obtain s where s: "psxvga_startup False [] [] psxcon_static = Some s"
      "con_screen s = (replicate (nrows s) (replicate (ncols s) 0), 0, 0)" "nrows s \<in> {8..21}" "ncols s \<in> {30, 38, 62, 78}"
      "psxscreen.allowed_seq [Putc 65 0 0, Cursor 1 0, Scroll 1] (con_screen s) \<longrightarrow>
       (\<exists>s'. psxscreen.run [Putc 65 0 0, Cursor 1 0, Scroll 1] s = Some s' \<and> con_screen s' = fold con_spec [Putc 65 0 0, Cursor 1 0, Scroll 1] (con_screen s))"
    using psxcon_refines [of False "[]" "[]" "[Putc 65 0 0, Cursor 1 0, Scroll 1]"] by blast
  have "hd ((replicate (nrows s) (replicate (ncols s) (0 :: u32)))[0 := x]) = x" for x
    using s(3) by (cases "nrows s") simp_all
  then have "psxscreen.allowed_seq [Putc 65 0 0, Cursor 1 0, Scroll 1] (con_screen s)"
    using s(3,4) by (auto simp: s(2) scr_put_def)
  then show ?thesis
    using s(1,5) by blast
qed

lemma memsetw_off: "psxvga_rows s \<le> uint sy \<Longrightarrow> psxvga_memsetw sx sy c n s = Some s"
  by (induction n) (simp_all add: psxvga_writew2_def)

lemma memsetw_first:
  "con_ok s \<Longrightarrow> \<exists>s'. psxvga_memsetw sx 0 c n s = Some s' \<and> con_ok s' \<and>
     con_view s' = (if n = 0 then con_view s else scr_put (ucast c) 0 (unat sx) (con_view s))"
proof (induction n arbitrary: s)
  case (Suc n)
  have u: "uint sx = int (unat sx)"
    by simp
  obtain t where t: "psxvga_writew2 (ucast c) 0 (uint sx) s = Some t" "con_ok t" "con_view t = scr_put (ucast c) 0 (unat sx) (con_view s)"
    using putc_sim [OF Suc.prems, of "ucast c" 0 "unat sx"] unfolding u by (auto simp: con_screen_def)
  have "scr_put d y x (scr_put d y x v) = scr_put d y x v" for d y x and v :: "u32 list list"
    by (cases "y < length v") (simp_all add: scr_put_def list_update_beyond)
  then show ?case
    using t Suc.IH [OF t(2)] by auto
qed simp

lemma clear_below:
  assumes "con_ok s" "0 < y" "y < nrows s"
  shows "psxvga_memsetw sx (of_int (int y * psxvga_cols s)) c n s = Some s"
proof -
  have b: "psxvga_rows s \<le> psxvga_cols s" "psxvga_cols s \<le> 80" "0 < psxvga_rows s" "nrows s \<le> 21"
    using assms(1) con_inv_nat(2) [of s] by (auto simp: con_ok_def con_inv_def)
  have "psxvga_cols s \<le> int y * psxvga_cols s"
    using assms(2) b mult_right_mono [of 1 "int y" "psxvga_cols s"] by simp
  moreover have "int y * psxvga_cols s \<le> 21 * 80"
    using assms(3) b by (intro mult_mono) simp_all
  ultimately have "uint (of_int (int y * psxvga_cols s) :: u16) = int y * psxvga_cols s"
    using b unfolding unsigned_of_int by (simp add: take_bit_int_eq_self del: of_int_mult)
  with \<open>psxvga_cols s \<le> int y * psxvga_cols s\<close> show ?thesis
    using b(1) by (intro memsetw_off) linarith
qed

lemma clear_rows_below:
  assumes "con_ok s" "\<forall>y\<in>set ys. 0 < sy + y \<and> sy + y < nrows s"
  shows "fold (\<lambda>y s. Option.bind s (\<lambda>s. psxvga_memsetw sx (of_int ((int sy + int y) * psxvga_cols s)) 32 width s)) ys (Some s) = Some s"
  using assms(2)
proof (induction ys)
  case (Cons y ys)
  then have "psxvga_memsetw sx (of_int ((int sy + int y) * psxvga_cols s)) 32 width s = Some s"
    using clear_below [OF assms(1), of "sy + y"] by (simp only: of_nat_add) simp
  moreover have "\<forall>y\<in>set ys. 0 < sy + y \<and> sy + y < nrows s"
    using Cons.prems by simp
  ultimately show ?case
    using Cons.IH by (simp del: of_int_mult of_int_add add_gr_0)
qed simp

text \<open>
  Clearing a rectangle does not clear it. The row handed down is already
  multiplied by the width and the column is never advanced, so a rectangle below
  the first row is left as it was and one that starts in it loses one character.
\<close>

theorem psxvga_clear_rectangle:
  assumes "con_ok s" "sy + height \<le> nrows s" "sx < ncols s"
  shows "\<exists>s'. psxvga_clear (int sy) (int sx) height width s = Some s' \<and>
    con_view s' = (if sy = 0 \<and> 0 < height \<and> 0 < width then scr_put 32 0 sx (con_view s) else con_view s)"
proof -
  have i: "con_inv s"
    using assms(1) by (simp add: con_ok_def)
  note n = con_inv_nat [OF i]
  have sx: "unat (of_int (int sx) :: u16) = sx"
    using assms(3) n(4) by (simp add: unat_of_nat take_bit_nat_eq_self)
  have c: "psxvga_clear (int sy) (int sx) height width s =
      fold (\<lambda>y s. Option.bind s (\<lambda>s. psxvga_memsetw (of_int (int sx)) (of_int ((int sy + int y) * psxvga_cols s)) 32 width s)) [0..<height] (Some s)"
    using assms(2) n(5) by (simp add: psxvga_clear_def)
  show ?thesis
  proof (cases "sy = 0 \<and> 0 < height")
    case False
    then have "\<forall>y\<in>set [0..<height]. 0 < sy + y \<and> sy + y < nrows s"
      using assms(2) by auto
    from clear_rows_below [OF assms(1) this] show ?thesis
      unfolding c using False by (intro exI [of _ s]) auto
  next
    case True
    obtain t where t: "psxvga_memsetw (of_int (int sx)) 0 32 width s = Some t" "con_ok t"
        "con_view t = (if width = 0 then con_view s else scr_put 32 0 sx (con_view s))"
      using memsetw_first [OF assms(1), of "of_int (int sx)" 32 width] unfolding sx by auto
    have "nrows t = nrows s"
      using arg_cong [OF t(3), of length] by (simp add: scr_put_def split: if_splits)
    then have "\<forall>y\<in>set [1..<height]. 0 < 0 + y \<and> 0 + y < nrows t"
      using True assms(2) by auto
    from clear_rows_below [OF t(2) this] show ?thesis
      unfolding c using True t by (simp add: upt_conv_Cons)
  qed
qed

theorem psxvga_clear_rectangle_witness:
  "\<exists>s s'. psxvga_startup False [] [] psxcon_static = Some s \<and> psxvga_clear 2 0 1 4 s = Some s' \<and> con_view s' = con_view s"
proof -
  obtain s where s: "psxvga_startup False [] [] psxcon_static = Some s" "con_ok s"
    using startup_ok [of False "[]" "[]"] by blast
  then have "2 + 1 \<le> nrows s" "0 < ncols s"
    using con_inv_nat(1,3) [of s] by (simp_all add: con_ok_def)
  then show ?thesis
    using s psxvga_clear_rectangle [of s 2 1 0 4] by simp
qed

section \<open>Finding a word\<close>

lemma kmemcmp_zero: "length ct = n \<Longrightarrow> n \<le> length cs \<Longrightarrow> kmemcmp cs ct n = 0 \<longleftrightarrow> take n cs = ct"
proof (induction n arbitrary: cs ct)
  case (Suc n)
  then obtain a cs' b ct' where "cs = a # cs'" "ct = b # ct'"
    by (metis Suc_le_length_iff length_Suc_conv)
  moreover have "sint (a - b) = 0 \<longleftrightarrow> a = b"
    by (metis eq_iff_diff_eq_0 signed_0 signed_word_eqI)
  ultimately show ?case
    using Suc by (simp add: ch_def Let_def)
qed simp

lemma strstr_loop_eq:
  "strstr_loop s1 s2 = (if length s1 < length s2 then None else if take (length s2) s1 = s2 then Some s1
     else case s1 of [] \<Rightarrow> None | c # s1 \<Rightarrow> strstr_loop s1 s2)"
  by (subst strstr_loop.simps) (simp add: kmemcmp_zero)

text \<open>A word without the pattern, followed by a character the pattern lacks, is skipped.\<close>

lemma strstr_word:
  "c \<notin> set s2 \<Longrightarrow> s2 \<noteq> [] \<Longrightarrow> strstr_loop w s2 = None \<Longrightarrow> strstr_loop (w @ c # r) s2 = strstr_loop r s2"
proof (induction w)
  case Nil
  then have "take (length s2) (c # r) \<noteq> s2"
    by (cases s2) auto
  then show ?case
    by (subst strstr_loop_eq) (auto simp: strstr_loop_eq [of r])
next
  case (Cons a w)
  have w: "take (length s2) (a # w) \<noteq> s2"
    using Cons.prems(3) by (subst (asm) strstr_loop_eq) (auto split: if_splits)
  have "strstr_loop w s2 = None"
    using Cons.prems(3) by (subst (asm) strstr_loop_eq) (auto simp: strstr_loop_eq [of w] split: if_splits)
  then have IH: "strstr_loop (w @ c # r) s2 = strstr_loop r s2"
    using Cons by simp
  have "take (length s2) (a # w @ c # r) \<noteq> s2"
  proof (cases "length s2 \<le> length (a # w)")
    case True
    then have "take (length s2) ((a # w) @ c # r) = take (length s2) (a # w)"
      by (subst take_append) simp
    then show ?thesis
      using w by simp
  next
    case False
    then have "c \<in> set (take (length s2) ((a # w) @ c # r))"
      using Cons.prems(2) by (simp add: take_Cons' nth_append)
    then show ?thesis
      using Cons.prems(1) by auto
  qed
  then show ?case
    using IH by (subst strstr_loop_eq) (auto simp: strstr_loop_eq [of r])
qed

lemma kstrstr_words:
  assumes "p \<noteq> []" "c \<notin> set p" "\<forall>w\<in>set ws. kstrstr w p = None"
  shows "kstrstr (concat (map (\<lambda>w. w @ [c]) ws) @ p @ r) p = Some (p @ r)"
proof -
  have "strstr_loop (concat (map (\<lambda>w. w @ [c]) ws) @ p @ r) p = strstr_loop (p @ r) p"
    using assms(3) strstr_word [OF assms(2,1)] assms(1) by (induction ws) (simp_all add: kstrstr_def)
  also have "strstr_loop (p @ r) p = Some (p @ r)"
    by (subst strstr_loop_eq) simp
  finally show ?thesis
    using assms(1) by (simp add: kstrstr_def)
qed

end
