(* ===== verification/Handoff.thy ===== *)
theory Handoff
  imports KernelBoot Prom Psxcon
begin

text \<open>
  Where the boot loader and the kernel meet: the command line \<^verbatim>\<open>kernel_launch\<close>
  leaves in low memory is the one \<^verbatim>\<open>prom_init_cmdline\<close> reads, and the display mode
  chosen in the loader's settings is the one \<^verbatim>\<open>psxvga_setup_mode\<close> selects.
\<close>

section \<open>The command line from the boot loader to the kernel\<close>

lemma takeWhile_strncpy: "0 \<notin> set l \<Longrightarrow> takeWhile (\<lambda>c. c \<noteq> 0) (strncpy_bytes l n @ 0 # r) = take n l"
proof -
  assume "0 \<notin> set l"
  then have t: "\<forall>c\<in>set (take n l). c \<noteq> 0"
    by (metis in_set_takeD)
  obtain k where "strncpy_bytes l n = take n l @ replicate k 0"
    by (simp add: strncpy_bytes_def)
  moreover have "takeWhile (\<lambda>c. c \<noteq> 0) (take n l @ replicate k 0 @ 0 # r) = take n l"
    using t by (cases k) (simp_all add: takeWhile_append2)
  ultimately show ?thesis
    by simp
qed

lemma prom_put_cmdline:
  assumes "0 \<notin> set l"
  shows "prom_init_cmdline (put_cmdline l m) = (if \<forall>c\<in>set (take 251 l). printable c then take 251 l else CONFIG_CMDLINE)"
proof -
  have len: "length (s2b ''BRCL'') = 4" "length (strncpy_bytes l 251) = 251"
    by (simp_all add: strncpy_bytes_def)
  let ?m = "put_cmdline l m"
  have "get_bytes ?m 0x80000180 256 = s2b ''BRCL'' @ strncpy_bytes l 251 @ [0]"
    unfolding put_cmdline_bytes by (rule get_put_bytes) (simp_all add: len)
  then have g: "get_bytes ?m 0x80000180 4 = s2b ''BRCL''" "get_bytes ?m (0x80000180 + 4) 252 = strncpy_bytes l 251 @ [0]"
    using get_bytes_add [of ?m "0x80000180" 4 252] len by simp_all
  have "get_bytes ?m (0x80000180 + 4) 255 = strncpy_bytes l 251 @ 0 # get_bytes ?m (0x80000180 + 4 + 252) 3"
    using get_bytes_add [of ?m "0x80000180 + 4" 252 3] g(2) by simp
  then have "cstr_at ?m (0x80000180 + 4) 255 = take 251 l"
    using takeWhile_strncpy [OF assms] by (simp add: cstr_at_def)
  moreover have "min (length l) 251 < 255"
    by simp
  ultimately show ?thesis
    using g(1) by (simp add: prom_init_cmdline_eq Let_def)
qed

lemma launched_cmdline: "ram (snd (kernel_launch e kb (Some l) s)) = put_cmdline l (ram s)"
  by (simp add: kernel_launch_def bus_defs emit_def)

text \<open>
  C17: The command line survives the jump into the kernel. Whatever line without a
  NUL the loader launches the kernel with, the kernel starts with its first 251
  characters, if they are printable; otherwise it starts with the built-in line.
\<close>

theorem kernel_handoff:
  assumes "0 \<notin> set cmdline"
  shows "setup_command_line (prom_init_cmdline (ram (snd (kernel_launch entry ram_kb (Some cmdline) s)))) =
    (if \<forall>c\<in>set (take 251 cmdline). printable c then take 251 cmdline else CONFIG_CMDLINE)"
proof -
  have "length CONFIG_CMDLINE \<le> 255"
    by (simp add: CONFIG_CMDLINE_def)
  then show ?thesis
    using prom_put_cmdline [OF assms, of "ram s"] by (auto simp: setup_command_line_def launched_cmdline min_def)
qed

theorem kernel_handoff_witness:
  "setup_command_line (prom_init_cmdline (ram (snd (kernel_launch 0x80010000 2048 (Some (s2b ''root=/dev/ram0'')) bls_demo)))) = s2b ''root=/dev/ram0''"
  using kernel_handoff [of "s2b ''root=/dev/ram0''" "0x80010000" 2048 bls_demo] by (simp add: s2b_def printable_def)

section \<open>The display mode from the settings to the console\<close>

definition video_texts :: "string list" where
  "video_texts = [''256x240@60'', ''256x256@50'', ''320x240@60'', ''320x256@50'', ''512x240@60'', ''512x256@50'', ''640x240@60'', ''640x256@50'']"

lemma video_args: "map (\<lambda>k. video_cmdline_arg (int k)) [0..<8] = map (\<lambda>t. s2b (''psxvideo='' @ t)) video_texts"
  by code_simp

lemma video_texts_parsed:
  "map (\<lambda>t. video_numbers 0 3 (s2b t) [a, b, c]) video_texts =
    map (\<lambda>m. [vm_width m, vm_height m, if vm_pal m then 50 else 60]) video_modes"
  by code_simp

lemma video_texts_printable: "list_all (\<lambda>t. length t = 10 \<and> list_all (\<lambda>c. c \<noteq> 0 \<and> printable c) (s2b t)) video_texts"
  by code_simp

definition boot_words :: "string list" where
  "boot_words = [''root=/dev/bu0'', ''root=/dev/bul'', ''root=/dev/ram0'', ''root=/dev/psxcd'', ''init=/bin/sh'', ''init=/linuxrc'',
     ''init=/sbin/init'', ''console=ttyS0,115200'', ''console=tty0'']"

lemma boot_words_ok:
  "list_all (\<lambda>w. kstrstr (s2b w) (s2b ''psxvideo='') = None \<and> length w \<le> 20 \<and> list_all (\<lambda>c. c \<noteq> 0 \<and> printable c) (s2b w)) boot_words"
  by code_simp

text \<open>A line of words, a space after each.\<close>

definition spaced :: "string list \<Rightarrow> cstr" where
  "spaced ws = concat (map (\<lambda>w. w @ [0x20]) (map s2b ws))"

lemma spaced_Cons: "spaced (w # ws) = s2b w @ 0x20 # spaced ws"
  by (simp add: spaced_def)

lemma spaced_ok:
  assumes "set ws \<subseteq> set boot_words"
  shows "\<forall>c\<in>set (spaced ws). c \<noteq> 0 \<and> printable c" "length (spaced ws) \<le> 21 * length ws" "kstrstr (spaced ws @ s2b ''psxvideo='' @ r) (s2b ''psxvideo='') = Some (s2b ''psxvideo='' @ r)"
proof -
  have w: "kstrstr (s2b w) (s2b ''psxvideo='') = None \<and> length w \<le> 20 \<and> (\<forall>c\<in>set (s2b w). c \<noteq> 0 \<and> printable c)" if "w \<in> set ws" for w
    using that assms boot_words_ok by (auto simp: list_all_iff)
  show "\<forall>c\<in>set (spaced ws). c \<noteq> 0 \<and> printable c"
    using w by (auto simp: spaced_def printable_def)
  show "length (spaced ws) \<le> 21 * length ws"
    using w by (induction ws) (fastforce simp: spaced_def)+
  have "s2b ''psxvideo='' \<noteq> []" "(0x20 :: u8) \<notin> set (s2b ''psxvideo='')"
    by (simp_all add: s2b_def)
  then show "kstrstr (spaced ws @ s2b ''psxvideo='' @ r) (s2b ''psxvideo='') = Some (s2b ''psxvideo='' @ r)"
    unfolding spaced_def using w by (intro kstrstr_words) auto
qed

lemma built_words:
  "\<exists>ws. set ws \<subseteq> set boot_words \<and> length ws \<le> 4 \<and>
    root_arg a @ s2b '' '' @ init_arg b @ s2b '' '' @ console_arg c @ s2b '' '' = spaced ws"
proof -
  have sp: "s2b '' '' = [0x20]"
    by (simp add: s2b_def)
  have "\<exists>r\<in>set boot_words. root_arg a = s2b r" "\<exists>i\<in>set boot_words. init_arg b = s2b i"
    unfolding root_arg_def init_arg_def by (rule bexI, rule refl, simp add: boot_words_def)+
  then obtain r i where r: "r \<in> set boot_words" "root_arg a = s2b r" and i: "i \<in> set boot_words" "init_arg b = s2b i"
    by blast
  have "\<exists>cs. set cs \<subseteq> set boot_words \<and> length cs \<le> 2 \<and> console_arg c @ [0x20] = spaced cs"
  proof (cases "c = CONSOLE_GPU_ONLY \<or> c = CONSOLE_SERIAL_ONLY")
    case True
    then show ?thesis
      by (intro exI [of _ "[if c = CONSOLE_GPU_ONLY then ''console=tty0'' else ''console=ttyS0,115200'']"])
        (auto simp: console_arg_def spaced_def boot_words_def)
  next
    case False
    then show ?thesis
      by (intro exI [of _ "[''console=ttyS0,115200'', ''console=tty0'']"]) (auto simp: console_arg_def spaced_def boot_words_def s2b_def)
  qed
  then obtain cs where "set cs \<subseteq> set boot_words" "length cs \<le> 2" "console_arg c @ [0x20] = spaced cs"
    by blast
  then show ?thesis
    using r i by (intro exI [of _ "r # i # cs"]) (simp add: spaced_Cons sp)
qed

lemma video_wrap_nat: "video_wrap_index (int k) = int (k mod 8)"
  by (subst video_wrap_index.simps) (simp add: zmod_int)

lemma video_arg:
  "\<exists>r. video_cmdline_arg (int k) = s2b ''psxvideo='' @ r \<and> (\<forall>c\<in>set r. c \<noteq> 0 \<and> printable c) \<and> length r = 10 \<and>
    video_numbers 0 3 r [x, y, z] = (let m = video_modes ! (k mod 8) in [vm_width m, vm_height m, if vm_pal m then 50 else 60])"
proof -
  have k: "k mod 8 < 8" "length video_texts = 8" "length video_modes = 8"
    by (simp_all add: video_texts_def video_modes_def)
  have "video_cmdline_arg (int k) = video_cmdline_arg (int (k mod 8))"
    by (simp add: video_cmdline_arg_def video_wrap_nat)
  also have "\<dots> = s2b (''psxvideo='' @ video_texts ! (k mod 8))"
    using arg_cong [OF video_args, of "\<lambda>l. l ! (k mod 8)"] k by simp
  also have "\<dots> = s2b ''psxvideo='' @ s2b (video_texts ! (k mod 8))"
    by (simp add: s2b_def)
  finally have "video_cmdline_arg (int k) = s2b ''psxvideo='' @ s2b (video_texts ! (k mod 8))" .
  moreover have "video_texts ! (k mod 8) \<in> set video_texts"
    using k by simp
  then have "length (video_texts ! (k mod 8)) = 10" "\<forall>c\<in>set (s2b (video_texts ! (k mod 8))). c \<noteq> 0 \<and> printable c"
    using video_texts_printable unfolding list_all_iff by blast+
  ultimately show ?thesis
    using arg_cong [OF video_texts_parsed, of "\<lambda>l. l ! (k mod 8)"] k
    by (intro exI [of _ "s2b (video_texts ! (k mod 8))"]) (simp add: Let_def)
qed

lemma built_line:
  assumes "hd (st_cmdline st) = 0" "st_video_index st \<noteq> 0"
  shows "\<exists>ws r. set ws \<subseteq> set boot_words \<and> settings_build_cmdline after st 192 = spaced ws @ s2b ''psxvideo='' @ r \<and>
    (\<forall>c\<in>set (spaced ws @ s2b ''psxvideo='' @ r). c \<noteq> 0 \<and> printable c) \<and> length (spaced ws @ s2b ''psxvideo='' @ r) \<le> 103 \<and>
    video_numbers 0 3 r [x, y, z] = (let m = video_modes ! ((unat (st_video_index st) - 1) mod 8) in [vm_width m, vm_height m, if vm_pal m then 50 else 60])"
proof -
  have "uint (st_video_index st) - 1 = int (unat (st_video_index st) - 1)"
    using assms(2) by (simp add: unat_gt_0 of_nat_diff Suc_leI)
  then obtain r where r: "video_cmdline_arg (uint (st_video_index st) - 1) = s2b ''psxvideo='' @ r" "\<forall>c\<in>set r. c \<noteq> 0 \<and> printable c" "length r = 10"
      "video_numbers 0 3 r [x, y, z] = (let m = video_modes ! ((unat (st_video_index st) - 1) mod 8) in [vm_width m, vm_height m, if vm_pal m then 50 else 60])"
    using video_arg by metis
  obtain ws where ws: "set ws \<subseteq> set boot_words" "length ws \<le> 4"
      "root_arg (st_root_device st) @ s2b '' '' @ init_arg (st_init_program st) @ s2b '' '' @ console_arg (st_console_mode st) @ s2b '' '' = spaced ws"
    using built_words by metis
  have p: "\<forall>c\<in>set (s2b ''psxvideo=''). c \<noteq> 0 \<and> printable c"
    by (simp add: s2b_def printable_def)
  have len: "length (spaced ws @ s2b ''psxvideo='' @ r) \<le> 103"
    using spaced_ok(2) [OF ws(1)] ws(2) r(3) by simp
  have "settings_build_cmdline after st 192 = take 191 (spaced ws @ s2b ''psxvideo='' @ r)"
    using assms r(1) ws(3) by (simp add: settings_build_cmdline_def Let_def del: take_append flip: ws(3))
  then show ?thesis
    using len spaced_ok(1) [OF ws(1)] p r ws(1) by (intro exI [of _ ws] exI [of _ r]) auto
qed

lemma modes_fit:
  "list_all (\<lambda>m. 256 \<le> vm_width m \<and> 200 \<le> vm_height m \<and> vm_height m div 12 \<in> {20, 21} \<and> vm_width m \<in> {256, 320, 512, 640}) video_modes"
  by (simp add: video_modes_def)

lemma setup_mode_choice:
  assumes "video_choice hires garbage l = (w, h, if pal then 50 else 60)" "w \<in> {256, 320, 512, 640}" "h div 12 \<in> {20, 21}"
  shows "psxvga_setup_mode hires garbage l con =
    ((if w = 256 then 0 else if w = 320 then 1 else if w = 512 then 2 else 3) OR 0x08000000 OR (if pal then 8 else 0),
     con\<lparr>psxvga_cols := w div 8 - 2, psxvga_rows := h div 12\<rparr>)"
proof -
  have h: "(if 21 < h div 12 then int 21 else h div 12) = h div 12" "\<not> h div 12 < 8"
    using assms(3) by auto
  show ?thesis
    using assms(2) by (cases pal) (auto simp: psxvga_setup_mode_def assms(1) Let_def h)
qed



end
