(* ===== verification/ShellLine.thy ===== *)
theory ShellLine
  imports HostTool Handoff
begin

text \<open>
  The shell of the boot loader and the host tool at the two ends of a serial
  line. With the host's conversation as the peer every command of an upload and
  a boot is followed byte by byte to the jump into the kernel; with an arbitrary
  line an upload is shown never to report success without the announced bytes.
\<close>

section \<open>Commands on the line\<close>

lemma quiet_fields:
  fixes s :: "'a bls_scheme"
  assumes "quiet s s'"
  shows "ram s' = ram s" "cfg s' = cfg s" "ram_size_kb s' = ram_size_kb s" "bls.more s' = bls.more s"
  using assms by (cases s; cases s'; simp add: quiet_def)+

lemma quiet_shell:
  fixes s :: "'a shs_scheme"
  assumes "quiet s s'"
  shows "has_upload s' = has_upload s" "last_entry s' = last_entry s"
  using assms by (cases s; cases s'; simp add: quiet_def)+

lemma on_line_upd [simp]:
  fixes s :: "'a bls_scheme" and t :: "'b shs_scheme"
  shows "on_line peer r w got sent (s\<lparr>ram := x\<rparr>) = on_line peer r w got sent s"
    "on_line peer r w got sent (t\<lparr>last_entry := e\<rparr>) = on_line peer r w got sent t"
    "on_line peer r w got sent (t\<lparr>last_load := e\<rparr>) = on_line peer r w got sent t"
    "on_line peer r w got sent (t\<lparr>last_size := e\<rparr>) = on_line peer r w got sent t"
    "on_line peer r w got sent (t\<lparr>status_text := txt\<rparr>) = on_line peer r w got sent t"
    "on_line peer r w got sent (t\<lparr>last_cmd_text := ltxt\<rparr>) = on_line peer r w got sent t"
    "on_line peer r w got sent (t\<lparr>has_upload := u\<rparr>) = on_line peer r w got sent t"
    "on_line peer r w got sent (t\<lparr>dbg_beacons_sent := e\<rparr>) = on_line peer r w got sent t"
    "on_line peer r w got sent (t\<lparr>dbg_cmds_seen := e\<rparr>) = on_line peer r w got sent t"
    "on_line peer r w got sent (t\<lparr>dbg_last_tag := e\<rparr>) = on_line peer r w got sent t"
    "on_line peer r w got sent (t\<lparr>dbg_poll_hits := e\<rparr>) = on_line peer r w got sent t"
    "on_line peer r w got sent (t\<lparr>dbg_sio_stat := h\<rparr>) = on_line peer r w got sent t"
    "on_line peer r w got sent (t\<lparr>dbg_sio_ctrl := h\<rparr>) = on_line peer r w got sent t"
    "on_line peer r w got sent (dbg_push b t) = on_line peer r w got sent t"
  by (simp_all add: on_line_def dbg_push_def)

lemma on_line_emit:
  assumes "on_line peer r w got sent s" "\<not> rd_in {SIO1_DATA} e" "\<not> wr_in {SIO1_DATA} e"
  shows "on_line peer r w got sent (emit e s)"
  using assms by (cases e) (auto simp: on_line_def line_out_def)

lemma st8_ram: "phys a < RAM_WINDOW \<Longrightarrow> st8 a b s = s\<lparr>ram := (ram s)(phys a := b)\<rparr>"
  by (simp add: st8_def)

lemma recv_chunk_line:
  fixes s :: "'a bls_scheme"
  assumes "on_line peer r w got sent s" "peer sent = got @ bs @ rest" "\<forall>p\<in>span a (length bs). p < RAM_WINDOW"
  shows "\<exists>s'. recv_chunk (length bs) a c s = (Some (c + host_checksum bs), s') \<and> on_line peer r w (got @ bs) sent s' \<and>
    quiet (s\<lparr>ram := put_bytes a bs (ram s)\<rparr>) s'"
  using assms
proof (induction bs arbitrary: got a c s)
  case Nil
  then show ?case by (simp add: host_checksum_def)
next
  case (Cons b bs)
  obtain t where t: "serial_getchar s = (Some b, t)" "on_line peer r w (got @ [b]) sent t" "quiet s t"
    using getchar_next [OF Cons.prems(1)] Cons.prems(2) by auto
  let ?t = "t\<lparr>ram := (ram t)(phys a := b)\<rparr>"
  have a: "phys a < RAM_WINDOW" "\<forall>p\<in>span (a + 1) (length bs). p < RAM_WINDOW"
    using Cons.prems(3) by (auto simp: span_Suc)
  have "on_line peer r w (got @ [b]) sent ?t" "peer sent = (got @ [b]) @ bs @ rest"
    using t(2) Cons.prems(2) by simp_all
  from Cons.IH [OF this a(2), of "c + ucast b"] obtain s' where s': "recv_chunk (length bs) (a + 1) (c + ucast b) ?t = (Some (c + ucast b + host_checksum bs), s')"
      "on_line peer r w ((got @ [b]) @ bs) sent s'" "quiet (?t\<lparr>ram := put_bytes (a + 1) bs (ram ?t)\<rparr>) s'"
    by blast
  have "quiet (s\<lparr>ram := put_bytes a (b # bs) (ram s)\<rparr>) s'"
    using s'(3) t(3) by (cases s; cases t; cases s') (simp add: quiet_def)
  moreover have "c + ucast b + host_checksum bs = c + host_checksum (b # bs)"
    by (simp add: host_checksum_def add.assoc)
  ultimately show ?case
    using s'(1,2) t(1) by (simp add: st8_ram [OF a(1)])
qed

section \<open>Chunks\<close>

definition mores :: "nat \<Rightarrow> u8 list" where
  "mores k = concat (replicate k (le32_encode SHELL_MORE))"

lemma mores_simps [simp]: "mores 0 = []" "mores (Suc k) = le32_encode SHELL_MORE @ mores k"
  by (simp_all add: mores_def)

lemma mores_snoc: "mores k @ le32_encode SHELL_MORE = mores (Suc k)"
  by (induction k) simp_all

lemma host_recv_encode [simp]: "host_recv_u32 (le32_encode v @ rx) = Some (v, rx)" "host_recv_u32 [] = None"
  by (simp_all add: host_recv_u32_def)

lemma chunk_take: "take (min (length payload - sent) 2048) (drop sent payload) = take 2048 (drop sent payload)"
  by (simp add: min_def)

lemma chunk_len: "sent < length payload \<Longrightarrow> sent + length (take 2048 (drop sent payload)) = min (sent + 2048) (length payload)"
  by auto

lemma chunk_split:
  "take (r + length (take n (drop r xs))) xs = take r xs @ take n (drop r xs)"
  "drop r xs = take n (drop r xs) @ drop (r + length (take n (drop r xs))) xs"
proof -
  have t: "take (length (take n ys)) ys = take n ys" "drop (length (take n ys)) ys = drop n ys" for ys :: "'a list"
    by (simp_all add: min_def)
  show "take (r + length (take n (drop r xs))) xs = take r xs @ take n (drop r xs)"
    unfolding take_add t ..
  have "drop (r + length (take n (drop r xs))) xs = drop n (drop r xs)"
    by (subst add.commute) (simp only: drop_drop [symmetric] t)
  then show "drop r xs = take n (drop r xs) @ drop (r + length (take n (drop r xs))) xs"
    by (simp only: append_take_drop_id)
qed

lemma chunks_more:
  "sent < length payload \<Longrightarrow> upload_chunks sent payload (le32_encode SHELL_MORE @ rx) =
    (case upload_chunks (min (sent + 2048) (length payload)) payload rx of (out, res) \<Rightarrow> (take 2048 (drop sent payload) @ out, res))"
  using chunk_take [of payload sent] chunk_len [of sent payload] by (subst upload_chunks.simps) (simp add: Let_def del: length_take length_drop)

lemma chunks_wait: "sent < length payload \<Longrightarrow> upload_chunks sent payload [] = (take 2048 (drop sent payload), None)"
  by (subst upload_chunks.simps) (simp add: Let_def min_def)

lemma chunks_done: "length payload \<le> sent \<Longrightarrow> upload_chunks sent payload (le32_encode SHELL_DONE @ rx) = ([], Some (True, rx))"
  by (subst upload_chunks.simps) simp

lemma chunks_sent: "sent + j * 2048 < length payload \<Longrightarrow> upload_chunks sent payload (mores j) = (take ((j + 1) * 2048) (drop sent payload), None)"
proof (induction j arbitrary: sent)
  case (Suc j)
  have "take 2048 (drop sent payload) @ take ((j + 1) * 2048) (drop (sent + 2048) payload) = take ((Suc j + 1) * 2048) (drop sent payload)"
    using take_add [of 2048 "(j + 1) * 2048" "drop sent payload"] by (simp add: add.commute)
  then show ?case
    using Suc.IH [of "sent + 2048"] Suc.prems chunks_more [of sent payload "mores j"] by (simp add: min_def)
qed (simp add: chunks_wait)

lemma chunks_over:
  "length payload \<le> sent + n * 2048 \<Longrightarrow> \<forall>j<n. sent + j * 2048 < length payload \<Longrightarrow> sent \<le> length payload \<Longrightarrow>
   upload_chunks sent payload (mores n @ le32_encode SHELL_DONE @ rx) = (drop sent payload, Some (True, rx))"
proof (induction n arbitrary: sent)
  case (Suc n)
  have s: "sent < length payload"
    using Suc.prems(2) by force
  show ?case
  proof (cases "sent + 2048 \<le> length payload")
    case True
    have "sent + 2048 + j * 2048 < length payload" if "j < n" for j
      using Suc.prems(2) [rule_format, of "Suc j"] that by simp
    then have "upload_chunks (sent + 2048) payload (mores n @ le32_encode SHELL_DONE @ rx) = (drop (sent + 2048) payload, Some (True, rx))"
      using Suc.IH [of "sent + 2048"] Suc.prems(1) True by simp
    moreover have "take 2048 (drop sent payload) @ drop (sent + 2048) payload = drop sent payload"
      by (metis append_take_drop_id drop_drop add.commute)
    ultimately show ?thesis
      using chunks_more [OF s, of "mores n @ le32_encode SHELL_DONE @ rx"] True by (simp add: min_def)
  next
    case False
    then have "n = 0"
      using Suc.prems(2) [rule_format, of 1] by (cases n) simp_all
    then show ?thesis
      using chunks_more [OF s, of "le32_encode SHELL_DONE @ rx"] chunks_done [of payload "length payload" rx] False by (simp add: min_def)
  qed
qed (simp add: chunks_done)

lemma span_part: "i + n \<le> k \<Longrightarrow> span (a + of_nat i) n \<subseteq> span a k"
  using span_add [of a i "k - i"] span_add [of "a + of_nat i" n "k - i - n"] by auto

lemma recv_loop_line:
  fixes s :: "'a bls_scheme"
  assumes "\<forall>j. j * 2048 < length payload \<longrightarrow> peer (pre @ mores j) = base @ take ((j + 1) * 2048) payload"
    and "\<forall>p\<in>span dst (length payload). p < RAM_WINDOW"
    and "on_line peer r w (base @ take (k * 2048) payload) (pre @ mores k) s" "received = min (k * 2048) (length payload)"
    and "\<forall>j<k. j * 2048 < length payload"
  shows "\<exists>s' n. recv_loop dst (length payload) received (host_checksum (take received payload)) s = Some (Some (host_checksum payload), s') \<and>
    on_line peer r w (base @ payload) (pre @ mores n) s' \<and> quiet (s\<lparr>ram := put_bytes (dst + of_nat received) (drop received payload) (ram s)\<rparr>) s' \<and>
    length payload \<le> n * 2048 \<and> (\<forall>j<n. j * 2048 < length payload)"
  using assms(3-5)
proof (induction "length payload - received" arbitrary: k received s rule: less_induct)
  case less
  let ?L = "length payload"
  show ?case
  proof (cases "received < ?L")
    case False
    then have "received = ?L" "?L \<le> k * 2048"
      using less.prems(2) by auto
    then show ?thesis
      using less.prems(1,3) by (subst recv_loop.simps) auto
  next
    case True
    then have rec: "received = k * 2048"
      using less.prems(2) by simp
    define bs where "bs = take 2048 (drop received payload)"
    have chunk: "(if ?L - received > 2048 then 2048 else ?L - received) = length bs"
      by (simp add: bs_def)
    have bs: "take ((k + 1) * 2048) payload = take (k * 2048) payload @ bs" "take (received + length bs) payload = take received payload @ bs"
      "drop received payload = bs @ drop (received + length bs) payload" "received + length bs = min ((k + 1) * 2048) ?L"
      using take_add [of "k * 2048" 2048 payload] chunk_len [OF True] chunk_split [where r = received and n = 2048 and xs = payload] unfolding bs_def rec
      by (simp_all only: add_mult_distrib mult_1 add.commute)
    have sp: "\<forall>p\<in>span (dst + of_nat received) (length bs). p < RAM_WINDOW"
      using assms(2) span_part [of received "length bs" ?L dst] bs(4) by auto
    have p: "peer (pre @ mores k) = (base @ take (k * 2048) payload) @ bs @ []"
      using assms(1) True rec bs(1) by simp
    obtain t where t: "recv_chunk (length bs) (dst + of_nat received) (host_checksum (take received payload)) s =
          (Some (host_checksum (take received payload) + host_checksum bs), t)"
        "on_line peer r w ((base @ take (k * 2048) payload) @ bs) (pre @ mores k) t" "quiet (s\<lparr>ram := put_bytes (dst + of_nat received) bs (ram s)\<rparr>) t"
      using recv_chunk_line [OF less.prems(1) p sp] by blast
    obtain u where u: "serial_send_u32 SHELL_MORE t = Some u" "on_line peer r w ((base @ take (k * 2048) payload) @ bs) ((pre @ mores k) @ le32_encode SHELL_MORE) u" "quiet t u"
      using send_u32_line [OF t(2)] by blast
    have on: "on_line peer r w (base @ take (Suc k * 2048) payload) (pre @ mores (Suc k)) u"
      using u(2) bs(1) mores_snoc [of k] by simp
    have c: "host_checksum (take received payload) + host_checksum bs = host_checksum (take (received + length bs) payload)"
      by (simp add: host_checksum_def bs(2))
    have j: "\<forall>j<Suc k. j * 2048 < ?L"
      using less.prems(3) True rec by (simp add: less_Suc_eq)
    have lt: "?L - (received + length bs) < ?L - received" and r': "received + length bs = min (Suc k * 2048) ?L"
      using True bs(4) by (simp_all add: bs_def)
    obtain s' n where n: "recv_loop dst ?L (received + length bs) (host_checksum (take (received + length bs) payload)) u = Some (Some (host_checksum payload), s')"
        "on_line peer r w (base @ payload) (pre @ mores n) s'"
        "quiet (u\<lparr>ram := put_bytes (dst + of_nat (received + length bs)) (drop (received + length bs) payload) (ram u)\<rparr>) s'"
        "?L \<le> n * 2048" "\<forall>j<n. j * 2048 < ?L"
      using less.hyps [OF lt on r' j] by blast
    have "recv_loop dst ?L received (host_checksum (take received payload)) s = Some (Some (host_checksum payload), s')"
      using n(1) True by (subst recv_loop.simps) (simp add: chunk t(1) u(1) c Let_def)
    moreover have "quiet (s\<lparr>ram := put_bytes (dst + of_nat received) (drop received payload) (ram s)\<rparr>) s'"
      using t(3) u(3) n(3) unfolding bs(3) put_bytes_append by (cases s; cases t; cases u; cases s') (simp add: quiet_def add.assoc)
    ultimately show ?thesis
      using n by blast
  qed
qed

section \<open>Whole commands\<close>

lemma receive_data_line:
  fixes s :: "'a bls_scheme"
  assumes "on_line peer r w base pre s" "length payload < 2 ^ 32"
    and "\<forall>j. j * 2048 < length payload \<longrightarrow> peer (pre @ mores j) = base @ take ((j + 1) * 2048) payload"
    and "\<forall>p\<in>span dst (length payload). p < RAM_WINDOW"
  shows "\<exists>s' n. receive_data dst (of_nat (length payload)) (host_checksum payload) s = Some (True, s') \<and>
    on_line peer r w (base @ payload) (pre @ mores n @ le32_encode SHELL_DONE) s' \<and> quiet (s\<lparr>ram := put_bytes dst payload (ram s)\<rparr>) s' \<and>
    length payload \<le> n * 2048 \<and> (\<forall>j<n. j * 2048 < length payload)"
proof -
  obtain v where v: "in16 INT_MASK s = (v, emit (Rd INT_MASK (ucast v)) s)"
    by (simp add: in16_def Let_def)
  let ?s = "out16 INT_MASK 0 (emit (Rd INT_MASK (ucast v)) s)"
  have on: "on_line peer r w base pre ?s"
    using assms(1) by (auto simp: out16_def intro!: on_line_emit)
  have len: "unat (of_nat (length payload) :: u32) = length payload"
    using assms(2) by (simp add: unat_of_nat take_bit_nat_eq_self)
  obtain t n where t: "recv_loop dst (length payload) 0 0 ?s = Some (Some (host_checksum payload), t)"
      "on_line peer r w (base @ payload) (pre @ mores n) t" "quiet (?s\<lparr>ram := put_bytes dst payload (ram ?s)\<rparr>) t"
      "length payload \<le> n * 2048" "\<forall>j<n. j * 2048 < length payload"
    using recv_loop_line [OF assms(3,4), of r w 0 ?s 0] on by (auto simp: host_checksum_def)
  let ?t = "out16 INT_MASK v t"
  have "on_line peer r w (base @ payload) (pre @ mores n) ?t"
    using t(2) by (auto simp: out16_def intro!: on_line_emit)
  then obtain u where u: "serial_send_u32 SHELL_DONE ?t = Some u" "on_line peer r w (base @ payload) ((pre @ mores n) @ le32_encode SHELL_DONE) u" "quiet ?t u"
    using send_u32_line by blast
  have "receive_data dst (of_nat (length payload)) (host_checksum payload) s = Some (True, u)"
    using t(1) u(1) by (simp add: receive_data_def v len Let_def)
  moreover have "quiet (s\<lparr>ram := put_bytes dst payload (ram s)\<rparr>) u"
    using t(3) u(3) by (cases s; cases t; cases u) (simp add: quiet_def out16_def emit_def)
  ultimately show ?thesis
    using u(2) t(4,5) by auto
qed

text \<open>What the rest of the loader sees of a command: memory, the settings and the upload.\<close>

definition kept :: "'a shs_scheme \<Rightarrow> 'b shs_scheme \<Rightarrow> bool" where
  "kept s s' \<longleftrightarrow> ram s' = ram s \<and> cfg s' = cfg s \<and> ram_size_kb s' = ram_size_kb s \<and> has_upload s' = has_upload s \<and> last_entry s' = last_entry s"

lemma quiet_kept: "quiet s s' \<Longrightarrow> kept s s'"
  by (simp add: kept_def quiet_fields quiet_shell)

lemma kept_trans: "kept s s' \<Longrightarrow> kept s' s'' \<Longrightarrow> kept s s''"
  by (simp add: kept_def)

definition upload_header :: "psexe_upload \<Rightarrow> u8 list" where
  "upload_header u = le32_encode (up_pc0 u) @ le32_encode (up_addr u) @ le32_encode (of_nat (length (up_payload u))) @
     le32_encode (host_checksum (up_payload u))"

lemma upload_exe_line:
  fixes s :: "'a shs_scheme"
  assumes "on_line peer r w got sent s" "length (up_payload u) < 2 ^ 32"
    and "peer (sent @ le32_encode SHELL_OK) = got @ upload_header u"
    and "\<forall>j. j * 2048 < length (up_payload u) \<longrightarrow>
      peer ((sent @ le32_encode SHELL_OK @ le32_encode SHELL_OK) @ mores j) = (got @ upload_header u) @ take ((j + 1) * 2048) (up_payload u)"
    and "\<forall>p\<in>span (up_addr u) (length (up_payload u)). p < RAM_WINDOW"
  shows "\<exists>s' n. cmd_upload_exe s = Some (Returned (), s') \<and>
    on_line peer r w (got @ upload_header u @ up_payload u) (sent @ le32_encode SHELL_OK @ le32_encode SHELL_OK @ mores n @ le32_encode SHELL_DONE) s' \<and>
    length (up_payload u) \<le> n * 2048 \<and> (\<forall>j<n. j * 2048 < length (up_payload u)) \<and>
    kept (s\<lparr>ram := put_bytes (up_addr u) (up_payload u) (ram s), has_upload := True, last_entry := up_pc0 u\<rparr>) s'"
proof -
  let ?L = "length (up_payload u)" and ?ok = "le32_encode SHELL_OK"
  obtain s1 where s1: "serial_send_u32 SHELL_OK s = Some s1" "on_line peer r w got (sent @ ?ok) s1" "quiet s s1"
    using send_u32_line [OF assms(1)] by blast
  obtain s2 where s2: "serial_recv_u32 s1 = (Some (up_pc0 u), s2)" "on_line peer r w (got @ le32_encode (up_pc0 u)) (sent @ ?ok) s2" "quiet s1 s2"
    using recv_u32_line [OF s1(2)] assms(3) by (auto simp: upload_header_def)
  obtain s3 where s3: "serial_recv_u32 s2 = (Some (up_addr u), s3)" "on_line peer r w ((got @ le32_encode (up_pc0 u)) @ le32_encode (up_addr u)) (sent @ ?ok) s3" "quiet s2 s3"
    using recv_u32_line [OF s2(2), of "up_addr u"] assms(3) by (auto simp: upload_header_def)
  obtain s4 where s4: "serial_recv_u32 s3 = (Some (of_nat ?L), s4)"
      "on_line peer r w (((got @ le32_encode (up_pc0 u)) @ le32_encode (up_addr u)) @ le32_encode (of_nat ?L)) (sent @ ?ok) s4" "quiet s3 s4"
    using recv_u32_line [OF s3(2), of "of_nat ?L"] assms(3) by (auto simp: upload_header_def)
  obtain s5 where s5: "serial_recv_u32 s4 = (Some (host_checksum (up_payload u)), s5)" "on_line peer r w (got @ upload_header u) (sent @ ?ok) s5" "quiet s4 s5"
    using recv_u32_line [OF s4(2), of "host_checksum (up_payload u)" "[]"] assms(3) by (auto simp: upload_header_def)
  let ?s5 = "s5\<lparr>last_entry := up_pc0 u, last_load := up_addr u, last_size := of_nat ?L, status_text := s2b ''RECEIVING - do not touch''\<rparr>"
  obtain s6 where s6: "serial_send_u32 SHELL_OK ?s5 = Some s6" "on_line peer r w (got @ upload_header u) ((sent @ ?ok) @ ?ok) s6" "quiet ?s5 s6"
    using send_u32_line [of peer r w "got @ upload_header u" "sent @ ?ok" ?s5 SHELL_OK] s5(2) by auto
  obtain s7 n where s7: "receive_data (up_addr u) (of_nat ?L) (host_checksum (up_payload u)) s6 = Some (True, s7)"
      "on_line peer r w ((got @ upload_header u) @ up_payload u) ((sent @ ?ok @ ?ok) @ mores n @ le32_encode SHELL_DONE) s7"
      "quiet (s6\<lparr>ram := put_bytes (up_addr u) (up_payload u) (ram s6)\<rparr>) s7" "?L \<le> n * 2048" "\<forall>j<n. j * 2048 < ?L"
    using receive_data_line [OF _ assms(2,4,5), of r w s6] s6(2) by auto
  have k: "kept s s5"
    by (intro kept_trans [OF quiet_kept [OF s1(3)]] kept_trans [OF quiet_kept [OF s2(3)]] kept_trans [OF quiet_kept [OF s3(3)]]
        kept_trans [OF quiet_kept [OF s4(3)]] quiet_kept [OF s5(3)])
  let ?s' = "s7\<lparr>has_upload := True, status_text := s2b ''Upload complete'', last_cmd_text := Some (s2b ''UEXE OK'')\<rparr>"
  have "cmd_upload_exe s = Some (Returned (), ?s')"
    by (simp add: cmd_upload_exe_def recv_or_def s1(1) s2(1) s3(1) s4(1) s5(1) s6(1) s7(1) Let_def)
  moreover have "kept (s\<lparr>ram := put_bytes (up_addr u) (up_payload u) (ram s), has_upload := True, last_entry := up_pc0 u\<rparr>) ?s'"
    using k quiet_kept [OF s6(3)] quiet_kept [OF s7(3)] by (simp add: kept_def)
  ultimately show ?thesis
    using s7(2,4,5) by (intro exI [of _ ?s'] exI [of _ n]) simp
qed

section \<open>A pass of the loop\<close>

lemma kept_upd [simp]:
  "kept s (t\<lparr>dbg_beacons_sent := e\<rparr>) = kept s t" "kept s (t\<lparr>dbg_cmds_seen := e\<rparr>) = kept s t" "kept s (t\<lparr>dbg_last_tag := e\<rparr>) = kept s t"
  "kept s (t\<lparr>dbg_poll_hits := e\<rparr>) = kept s t" "kept s (t\<lparr>status_text := txt\<rparr>) = kept s t" "kept s (dbg_push b t) = kept s t"
  "kept s (t\<lparr>dbg_sio_stat := h\<rparr>) = kept s t" "kept s (t\<lparr>dbg_sio_ctrl := h\<rparr>) = kept s t" "kept s (emit ev t) = kept s t"
  by (simp_all add: kept_def dbg_push_def emit_def)

lemma kept_refl [simp]: "kept s s"
  by (simp add: kept_def)

lemma snap_regs_line:
  assumes "on_line peer r w got sent s"
  shows "on_line peer r w got sent (dbg_snap_regs s)" "kept s (dbg_snap_regs s)"
  using assms by (auto simp: dbg_snap_regs_def in16_def Let_def intro!: on_line_emit)

lemma poll_rx_line:
  fixes s :: "'a shs_scheme"
  assumes "on_line peer r w got sent s" "peer sent = got @ b # rest" "n \<noteq> 0"
  shows "\<exists>s'. poll_rx n s = (Some b, s') \<and> on_line peer r w (got @ [b]) sent s' \<and> kept s s'"
proof -
  obtain i where i: "n = Suc i"
    using assms(3) by (cases n) auto
  have st: "in16 SIO1_STAT s = (3, emit (Rd SIO1_STAT 3) s)"
    using assms(1,2) by (auto simp: on_line_def in16_def serial_line_def line_in_def Let_def)
  have on: "on_line peer r w got sent (emit (Rd SIO1_STAT 3) s)"
    using assms(1) by (rule on_line_emit) simp_all
  obtain t where t: "serial_getchar_timeout 1 (emit (Rd SIO1_STAT 3) s) = (Some b, t)" "on_line peer r w (got @ [b]) sent t" "quiet (emit (Rd SIO1_STAT 3) s) t"
    using getchar_line [OF on, of 1] assms(2) by auto
  have "kept s t"
    using quiet_kept [OF t(3)] by (simp add: kept_def emit_def)
  moreover have "poll_rx n s = (Some b, dbg_snap_regs ((dbg_push b t)\<lparr>dbg_poll_hits := dbg_poll_hits (dbg_push b t) + 1\<rparr>))"
    unfolding i poll_rx.simps st by (simp add: t(1) [unfolded One_nat_def] Let_def)
  moreover note snap_regs_line [of peer r w "got @ [b]" sent "(dbg_push b t)\<lparr>dbg_poll_hits := dbg_poll_hits (dbg_push b t) + 1\<rparr>"]
  ultimately show ?thesis
    using t(2) kept_trans [of s "(dbg_push b t)\<lparr>dbg_poll_hits := dbg_poll_hits (dbg_push b t) + 1\<rparr>"] by simp
qed

lemma read_tag_line:
  fixes s :: "'a shs_scheme"
  assumes "on_line peer r w (got @ [hd (le32_encode tag)]) sent s" "peer sent = got @ le32_encode tag @ rest"
  shows "\<exists>s'. read_tag (hd (le32_encode tag)) s = (Some tag, s') \<and> on_line peer r w (got @ le32_encode tag) sent s' \<and> kept s s'"
proof -
  obtain b0 b1 b2 b3 where b: "le32_encode tag = [b0, b1, b2, b3]"
    by (simp add: le32_encode_def)
  then have v: "ucast b0 OR push_bit 8 (ucast b1) OR push_bit 16 (ucast b2) OR push_bit 24 (ucast b3) = tag"
    using le32_at_encode_only [of tag] by (simp add: le32_at_def le32_decode_def)
  obtain s1 where s1: "serial_getchar s = (Some b1, s1)" "on_line peer r w (got @ [b0, b1]) sent s1" "quiet s s1"
    using getchar_next [OF assms(1)] assms(2) b by auto
  obtain s2 where s2: "serial_getchar s1 = (Some b2, s2)" "on_line peer r w (got @ [b0, b1, b2]) sent s2" "quiet s1 s2"
    using getchar_next [OF s1(2)] assms(2) b by auto
  obtain s3 where s3: "serial_getchar s2 = (Some b3, s3)" "on_line peer r w (got @ [b0, b1, b2, b3]) sent s3" "quiet s2 s3"
    using getchar_next [OF s2(2)] assms(2) b by auto
  have "kept s s3"
    by (intro kept_trans [OF quiet_kept [OF s1(3)]] kept_trans [OF quiet_kept [OF s2(3)]] quiet_kept [OF s3(3)])
  then show ?thesis
    using s3(2) v by (simp add: read_tag_def b s1(1) s2(1) s3(1) dbg_push_opt_def Let_def)
qed

lemma shell_pass_line:
  fixes s :: "'a shs_scheme"
  assumes "on_line peer r w got sent s" "peer (sent @ le32_encode SHELL_BEACON) = got @ le32_encode tag @ rest"
  shows "\<exists>t. shell_pass after s = Option.bind (shell_dispatch after tag t) (\<lambda>(f, s).
      Some (f, case f of Returned _ \<Rightarrow> s\<lparr>status_text := s2b ''Listening''\<rparr> | Jumped _ \<Rightarrow> s)) \<and>
    on_line peer r w (got @ le32_encode tag) (sent @ le32_encode SHELL_BEACON) t \<and> kept s t"
proof -
  obtain s1 where s1: "serial_send_u32 SHELL_BEACON s = Some s1" "on_line peer r w got (sent @ le32_encode SHELL_BEACON) s1" "quiet s s1"
    using send_u32_line [OF assms(1)] by blast
  let ?s1 = "s1\<lparr>dbg_beacons_sent := dbg_beacons_sent s1 + 1\<rparr>"
  have e: "le32_encode tag = hd (le32_encode tag) # tl (le32_encode tag)"
    by (simp add: le32_encode_def)
  have "on_line peer r w got (sent @ le32_encode SHELL_BEACON) ?s1"
    using s1(2) by simp
  then obtain s2 where s2: "poll_rx 15000000 ?s1 = (Some (hd (le32_encode tag)), s2)"
      "on_line peer r w (got @ [hd (le32_encode tag)]) (sent @ le32_encode SHELL_BEACON) s2" "kept ?s1 s2"
    using poll_rx_line [of peer r w got "sent @ le32_encode SHELL_BEACON" ?s1 "hd (le32_encode tag)" "tl (le32_encode tag) @ rest" 15000000] assms(2) e by auto
  obtain s3 where s3: "read_tag (hd (le32_encode tag)) s2 = (Some tag, s3)" "on_line peer r w (got @ le32_encode tag) (sent @ le32_encode SHELL_BEACON) s3" "kept s2 s3"
    using read_tag_line [OF s2(2) assms(2)] by blast
  have "kept s (s3\<lparr>status_text := s2b ''Processing...''\<rparr>)"
    using quiet_kept [OF s1(3)] s2(3) s3(3) by (simp add: kept_def)
  then show ?thesis
    using s3(2) by (intro exI [of _ "s3\<lparr>status_text := s2b ''Processing...''\<rparr>"]) (simp add: shell_pass_def s1(1) s2(1) s3(1) Let_def)
qed

lemma recv_bytes_all: "recv_bytes n acc s = line_end.recv_all serial_getchar n acc s"
  by (induction n arbitrary: acc s) (simp_all add: sline.recv_all.simps split: prod.split option.split)

lemma recv_bytes_line:
  assumes "on_line peer r w got sent s" "peer sent = got @ bs @ rest"
  shows "\<exists>s'. recv_bytes (length bs) acc s = (Some (acc @ bs), s') \<and> on_line peer r w (got @ bs) sent s' \<and> quiet s s'"
  unfolding recv_bytes_all by (rule sline.recv_all_at [OF assms])

lemma cmd_boot_line:
  fixes s :: "'a shs_scheme"
  assumes "on_line peer r w got sent s" "has_upload s" "l \<noteq> []" "length l < 256" "0 \<notin> set l"
    and "peer (sent @ le32_encode SHELL_OK) = got @ le32_encode (of_nat (length l)) @ l"
  shows "\<exists>s'. cmd_boot after s = Some (Jumped (last_entry s), s') \<and> ram s' = put_cmdline l (ram s)"
proof -
  obtain s1 where s1: "serial_send_u32 SHELL_OK s = Some s1" "on_line peer r w got (sent @ le32_encode SHELL_OK) s1" "quiet s s1"
    using send_u32_line [OF assms(1)] by blast
  obtain s2 where s2: "serial_recv_u32 s1 = (Some (of_nat (length l)), s2)" "on_line peer r w (got @ le32_encode (of_nat (length l))) (sent @ le32_encode SHELL_OK) s2" "quiet s1 s2"
    using recv_u32_line [OF s1(2)] assms(6) by auto
  obtain s3 where s3: "recv_bytes (length l) [] s2 = (Some l, s3)" "quiet s2 s3"
    using recv_bytes_line [OF s2(2), of l "[]" "[]"] assms(6) by auto
  have k: "kept s s3"
    by (intro kept_trans [OF quiet_kept [OF s1(3)]] kept_trans [OF quiet_kept [OF s2(3)]] quiet_kept [OF s3(2)])
  have len: "unat (of_nat (length l) :: u32) = length l" "(0 :: u32) < of_nat (length l)" "(of_nat (length l) :: u32) < 256"
    using assms(3,4) by (simp_all add: unat_of_nat take_bit_nat_eq_self word_less_nat_alt)
  have tw: "takeWhile (\<lambda>c. c \<noteq> 0) l = l"
    using assms(5) by (auto simp: takeWhile_eq_all_conv)
  obtain s' where "kernel_launch (last_entry s3) (ram_size_kb s3) (Some l) s3 = (Jumped (last_entry s3) :: unit flow, s')" "ram s' = put_cmdline l (ram s3)"
    using kernel_launch_ram by blast
  then show ?thesis
    using assms(2) k by (simp add: cmd_boot_def recv_or_def s1(1) s2(1) s3(1) len tw kept_def)
qed

section \<open>Upload and boot\<close>

lemma wait_beacon [simp]: "wait_for_beacon (le32_encode SHELL_BEACON @ rx) = Some rx"
proof -
  obtain b bs where b: "le32_encode SHELL_BEACON = b # bs"
    by (simp add: le32_encode_def)
  then have "length bs = 3"
    using length_le32_encode [of SHELL_BEACON] by simp
  then show ?thesis
    by (simp add: b)
qed

lemma wait_beacon_only [simp]: "wait_for_beacon (le32_encode SHELL_BEACON) = Some []"
  using wait_beacon [of "[]"] by simp

lemma host_recv_only [simp]: "host_recv_u32 (le32_encode v) = Some (v, [])"
  using host_recv_encode(1) [of v "[]"] by simp

text \<open>What the host has sent at each stage of an upload that is followed by a boot.\<close>

abbreviation (input) upload_peer :: "psexe_upload \<Rightarrow> cstr \<Rightarrow> u8 list \<Rightarrow> u8 list" where
  "upload_peer u l \<equiv> \<lambda>rx. fst (cmd_upload u True l rx)"

lemma peer_tag: "upload_peer u l (le32_encode SHELL_BEACON) = le32_encode (SHELL_TAG ''UEXE'')"
  by (simp add: cmd_upload_def talk_then_def upload_talk_def)

lemma peer_header:
  "upload_peer u l (le32_encode SHELL_BEACON @ le32_encode SHELL_OK) = le32_encode (SHELL_TAG ''UEXE'') @ upload_header u"
  by (simp add: cmd_upload_def talk_then_def upload_talk_def upload_header_def Let_def)

lemma peer_chunks:
  "j * 2048 < length (up_payload u) \<Longrightarrow>
   upload_peer u l ((le32_encode SHELL_BEACON @ le32_encode SHELL_OK @ le32_encode SHELL_OK) @ mores j) =
    (le32_encode (SHELL_TAG ''UEXE'') @ upload_header u) @ take ((j + 1) * 2048) (up_payload u)"
  using chunks_sent [of 0 j "up_payload u"] by (simp add: cmd_upload_def talk_then_def upload_talk_def upload_header_def Let_def)

lemma peer_boot:
  assumes "length (up_payload u) \<le> n * 2048" "\<forall>j<n. j * 2048 < length (up_payload u)"
  shows "upload_peer u l ((le32_encode SHELL_BEACON @ le32_encode SHELL_OK @ le32_encode SHELL_OK @ mores n @ le32_encode SHELL_DONE) @ rx) =
    le32_encode (SHELL_TAG ''UEXE'') @ upload_header u @ up_payload u @ fst (boot_talk l rx)"
  using chunks_over [of "up_payload u" 0 n rx] assms
  by (simp add: cmd_upload_def talk_then_def upload_talk_def upload_header_def Let_def case_prod_beta)

lemma boot_talk_tag: "fst (boot_talk l (le32_encode SHELL_BEACON)) = le32_encode (SHELL_TAG ''BOOT'')"
  by (simp add: boot_talk_def)

lemma boot_talk_line:
  "l \<noteq> [] \<Longrightarrow> fst (boot_talk l (le32_encode SHELL_BEACON @ le32_encode SHELL_OK)) =
     le32_encode (SHELL_TAG ''BOOT'') @ le32_encode (of_nat (length l)) @ l"
  by (simp add: boot_talk_def Let_def)

lemma tags_dispatch:
  "shell_dispatch after (SHELL_TAG ''UEXE'') s = cmd_upload_exe (s\<lparr>dbg_cmds_seen := dbg_cmds_seen s + 1\<rparr>)"
  "shell_dispatch after (SHELL_TAG ''BOOT'') s = cmd_boot after (s\<lparr>dbg_cmds_seen := dbg_cmds_seen s + 1\<rparr>)"
  by (simp_all add: shell_dispatch_def SHELL_TAG_def le32_at_def le32_decode_def s2b_def Let_def)

lemma upload_pass:
  fixes s :: "'a shs_scheme"
  assumes "on_line (upload_peer u l) r w [] [] s" "length (up_payload u) < 2 ^ 32" "\<forall>p\<in>span (up_addr u) (length (up_payload u)). p < RAM_WINDOW"
  shows "\<exists>s' n. shell_pass after s = Some (Returned (), s') \<and>
    on_line (upload_peer u l) r w (le32_encode (SHELL_TAG ''UEXE'') @ upload_header u @ up_payload u)
      (le32_encode SHELL_BEACON @ le32_encode SHELL_OK @ le32_encode SHELL_OK @ mores n @ le32_encode SHELL_DONE) s' \<and>
    length (up_payload u) \<le> n * 2048 \<and> (\<forall>j<n. j * 2048 < length (up_payload u)) \<and>
    kept (s\<lparr>ram := put_bytes (up_addr u) (up_payload u) (ram s), has_upload := True, last_entry := up_pc0 u\<rparr>) s'"
proof -
  obtain t where t: "shell_pass after s = Option.bind (shell_dispatch after (SHELL_TAG ''UEXE'') t) (\<lambda>(f, s).
        Some (f, case f of Returned _ \<Rightarrow> s\<lparr>status_text := s2b ''Listening''\<rparr> | Jumped _ \<Rightarrow> s))"
      "on_line (upload_peer u l) r w (le32_encode (SHELL_TAG ''UEXE'')) (le32_encode SHELL_BEACON) t" "kept s t"
    using shell_pass_line [OF assms(1), of "SHELL_TAG ''UEXE''" "[]" after] peer_tag [of u l] by auto
  let ?t = "t\<lparr>dbg_cmds_seen := dbg_cmds_seen t + 1\<rparr>"
  have on: "on_line (upload_peer u l) r w (le32_encode (SHELL_TAG ''UEXE'')) (le32_encode SHELL_BEACON) ?t"
    using t(2) by simp
  obtain s' n where s': "cmd_upload_exe ?t = Some (Returned (), s')"
      "on_line (upload_peer u l) r w (le32_encode (SHELL_TAG ''UEXE'') @ upload_header u @ up_payload u)
        (le32_encode SHELL_BEACON @ le32_encode SHELL_OK @ le32_encode SHELL_OK @ mores n @ le32_encode SHELL_DONE) s'"
      "length (up_payload u) \<le> n * 2048" "\<forall>j<n. j * 2048 < length (up_payload u)"
      "kept (?t\<lparr>ram := put_bytes (up_addr u) (up_payload u) (ram ?t), has_upload := True, last_entry := up_pc0 u\<rparr>) s'"
    using upload_exe_line [OF on assms(2) peer_header _ assms(3)] peer_chunks [of _ u l] by blast
  show ?thesis
    using s' t(1,3) by (intro exI [of _ "s'\<lparr>status_text := s2b ''Listening''\<rparr>"] exI [of _ n]) (simp add: tags_dispatch kept_def)
qed

lemma boot_pass:
  fixes s :: "'a shs_scheme"
  assumes "on_line (upload_peer u l) r w (le32_encode (SHELL_TAG ''UEXE'') @ upload_header u @ up_payload u)
      (le32_encode SHELL_BEACON @ le32_encode SHELL_OK @ le32_encode SHELL_OK @ mores n @ le32_encode SHELL_DONE) s"
    and "length (up_payload u) \<le> n * 2048" "\<forall>j<n. j * 2048 < length (up_payload u)" "has_upload s" "l \<noteq> []" "length l < 256" "0 \<notin> set l"
  shows "\<exists>s'. shell_pass after s = Some (Jumped (last_entry s), s') \<and> ram s' = put_cmdline l (ram s)"
proof -
  let ?got = "le32_encode (SHELL_TAG ''UEXE'') @ upload_header u @ up_payload u"
    and ?sent = "le32_encode SHELL_BEACON @ le32_encode SHELL_OK @ le32_encode SHELL_OK @ mores n @ le32_encode SHELL_DONE"
  have p: "upload_peer u l (?sent @ rx) = ?got @ fst (boot_talk l rx)" for rx
    using peer_boot [OF assms(2,3), of l rx] by simp
  obtain t where t: "shell_pass after s = Option.bind (shell_dispatch after (SHELL_TAG ''BOOT'') t) (\<lambda>(f, s).
        Some (f, case f of Returned _ \<Rightarrow> s\<lparr>status_text := s2b ''Listening''\<rparr> | Jumped _ \<Rightarrow> s))"
      "on_line (upload_peer u l) r w (?got @ le32_encode (SHELL_TAG ''BOOT'')) (?sent @ le32_encode SHELL_BEACON) t" "kept s t"
    using shell_pass_line [OF assms(1), of "SHELL_TAG ''BOOT''" "[]" after] p [of "le32_encode SHELL_BEACON"] boot_talk_tag [of l] by auto
  let ?t = "t\<lparr>dbg_cmds_seen := dbg_cmds_seen t + 1\<rparr>"
  have "on_line (upload_peer u l) r w (?got @ le32_encode (SHELL_TAG ''BOOT'')) (?sent @ le32_encode SHELL_BEACON) ?t" "has_upload ?t"
    using t(2,3) assms(4) by (simp_all add: kept_def)
  moreover have "upload_peer u l ((?sent @ le32_encode SHELL_BEACON) @ le32_encode SHELL_OK) =
      (?got @ le32_encode (SHELL_TAG ''BOOT'')) @ le32_encode (of_nat (length l)) @ l"
    using p [of "le32_encode SHELL_BEACON @ le32_encode SHELL_OK"] boot_talk_line [OF assms(5)] by simp
  ultimately obtain s' where "cmd_boot after ?t = Some (Jumped (last_entry ?t), s')" "ram s' = put_cmdline l (ram ?t)"
    using cmd_boot_line [OF _ _ assms(5-7)] by blast
  then show ?thesis
    using t(1,3) by (simp add: tags_dispatch kept_def)
qed


definition upload_demo :: "u8 list" where
  "upload_demo = px_demo_hdr @ replicate 3000 7"

definition upload_demo_u :: psexe_upload where
  "upload_demo_u = \<lparr>up_pc0 = 0x80010000, up_addr = 0x80010000, up_payload = replicate 3000 7\<rparr>"

definition shs_demo :: shs where
  "shs_demo = bls.extend (bls_demo\<lparr>hw_env := serial_line (\<lambda>rx. fst (cmd_upload upload_demo_u True (s2b ''root=/dev/ram0'') rx)) 0 0 (\<lambda>_ _. 0), hw_trace := []\<rparr>)
     \<lparr>cur_baud = 115200, status_text = [], last_cmd_text = None, last_entry = 0, last_load = 0, last_size = 0, has_upload = False,
      dbg_ring = replicate 16 0, dbg_ring_pos = 0, dbg_rx_total = 0, dbg_beacons_sent = 0, dbg_cmds_seen = 0, dbg_last_tag = 0,
      dbg_poll_hits = 0, dbg_poll_misses = 0, dbg_sio_stat = 0, dbg_sio_ctrl = 0\<rparr>"


section \<open>An arbitrary line\<close>

text \<open>What each operation reads from the port, whatever is at the other end.\<close>

abbreviation (input) rx_log :: "'a hw_scheme \<Rightarrow> u32 list" where "rx_log s \<equiv> reads SIO1_DATA (hw_trace s)"

lemma wait_rx_log: "serial_wait_rx n s = (ok, s') \<Longrightarrow> quiet s s' \<and> rx_log s' = rx_log s"
proof (induction n s arbitrary: ok s' rule: serial_wait_rx.induct)
  case (1 n s)
  obtain v where v: "in16 SIO1_STAT s = (v, emit (Rd SIO1_STAT (ucast v)) s)"
    by (simp add: in16_def Let_def)
  show ?case
  proof (cases "v AND SIO_STAT_RXRDY \<noteq> 0 \<or> n = 0")
    case True
    then show ?thesis
      using 1(2) by (subst (asm) serial_wait_rx.simps) (auto simp: v quiet_def split: if_splits)
  next
    case False
    then obtain m where m: "n = Suc m"
      by (cases n) auto
    then have "serial_wait_rx m (emit (Rd SIO1_STAT (ucast v)) s) = (ok, s')"
      using 1(2) False by (subst (asm) serial_wait_rx.simps) (simp add: v)
    from 1(1) [OF v [symmetric] _ m this] False show ?thesis
      by (simp add: v quiet_def)
  qed
qed

lemma getchar_log:
  "serial_getchar_timeout n s = (b, s') \<Longrightarrow> quiet s s' \<and> rx_log s' = rx_log s @ (case b of None \<Rightarrow> [] | Some b \<Rightarrow> [ucast b])"
  using wait_rx_log [of n s] by (auto simp: serial_getchar_timeout_def quiet_def in8_def Let_def split: prod.splits bool.splits)

lemma wait_tx_log:
  assumes "serial_wait_tx s = Some s'"
  shows "quiet s s' \<and> rx_log s' = rx_log s"
proof (rule serial_wait_tx.raw_induct [OF _ assms], goal_cases)
  case (1 f s s')
  obtain v where v: "in16 SIO1_STAT s = (v, emit (Rd SIO1_STAT (ucast v)) s)"
    by (simp add: in16_def Let_def)
  then show ?case
    using 1(1) [of "emit (Rd SIO1_STAT (ucast v)) s" s'] 1(2) by (auto simp: quiet_def split: if_splits)
qed

lemma puts_log: "serial_puts bs s = Some s' \<Longrightarrow> quiet s s' \<and> rx_log s' = rx_log s"
proof (induction bs arbitrary: s)
  case (Cons b bs)
  obtain t where t: "serial_wait_tx s = Some t" "serial_puts bs (out8 SIO1_DATA b t) = Some s'"
    using Cons.prems by (auto simp: serial_putchar_def bind_eq_Some_conv)
  then show ?case
    using Cons.IH [OF t(2)] wait_tx_log [OF t(1)] by (simp add: out8_def quiet_def)
qed simp

lemma recv_u32_log:
  assumes "serial_recv_u32 s = (v, s')"
  shows "quiet s s' \<and> (\<exists>bs. rx_log s' = rx_log s @ map ucast bs \<and> (case v of None \<Rightarrow> length bs < 4 | Some v \<Rightarrow> bs = le32_encode v))"
proof -
  obtain v0 s0 v1 s1 v2 s2 v3 s3 where g: "serial_getchar s = (v0, s0)" "serial_getchar s0 = (v1, s1)" "serial_getchar s1 = (v2, s2)" "serial_getchar s2 = (v3, s3)"
    by (metis surj_pair)
  note l = g [unfolded serial_getchar_def, THEN getchar_log]
  consider "v0 = None" | b0 where "v0 = Some b0" "v1 = None" | b0 b1 where "v0 = Some b0" "v1 = Some b1" "v2 = None"
    | b0 b1 b2 where "v0 = Some b0" "v1 = Some b1" "v2 = Some b2" "v3 = None"
    | b0 b1 b2 b3 where "v0 = Some b0" "v1 = Some b1" "v2 = Some b2" "v3 = Some b3"
    by (metis not_None_eq)
  then show ?thesis
  proof cases
    case 1
    then have "v = None" "s' = s0"
      using assms g by (auto simp: serial_recv_u32_def)
    then show ?thesis
      using l 1 by (auto intro: exI [of _ "[]"])
  next
    case (2 b0)
    then have "v = None" "s' = s1"
      using assms g by (auto simp: serial_recv_u32_def)
    then show ?thesis
      using l 2 by (auto simp: quiet_def intro: exI [of _ "[b0]"])
  next
    case (3 b0 b1)
    then have "v = None" "s' = s2"
      using assms g by (auto simp: serial_recv_u32_def)
    then show ?thesis
      using l 3 by (auto simp: quiet_def intro: exI [of _ "[b0, b1]"])
  next
    case (4 b0 b1 b2)
    then have "v = None" "s' = s3"
      using assms g by (auto simp: serial_recv_u32_def)
    then show ?thesis
      using l 4 by (auto simp: quiet_def intro: exI [of _ "[b0, b1, b2]"])
  next
    case (5 b0 b1 b2 b3)
    then have "v = Some (le32_decode b0 b1 b2 b3)" "s' = s3"
      using assms g by (auto simp: serial_recv_u32_def le32_decode_def)
    then show ?thesis
      using l 5 by (auto simp: quiet_def le32_encode_decode intro: exI [of _ "[b0, b1, b2, b3]"])
  qed
qed

text \<open>Only memory changes, and in it only what was stored.\<close>

definition stored :: "u32 \<Rightarrow> u8 list \<Rightarrow> 'a bls_scheme \<Rightarrow> 'a bls_scheme \<Rightarrow> bool" where
  "stored a bs s s' \<longleftrightarrow> bls.more s' = bls.more s \<and> (\<forall>p<RAM_WINDOW. ram s' p = put_bytes a bs (ram s) p)"

lemma put_bytes_cong: "(\<forall>p<RAM_WINDOW. m p = m' p) \<Longrightarrow> p < RAM_WINDOW \<Longrightarrow> put_bytes a bs m p = put_bytes a bs m' p"
proof (induction bs arbitrary: a m m')
  case (Cons b bs)
  then show ?case
    using Cons.IH [of "m(phys a := b)" "m'(phys a := b)"] by simp
qed simp

lemma stored_append: "stored a xs s t \<Longrightarrow> stored (a + of_nat (length xs)) ys t s' \<Longrightarrow> stored a (xs @ ys) s s'"
  using put_bytes_cong [of "ram t" "put_bytes a xs (ram s)"] by (simp add: stored_def put_bytes_append)

lemma quiet_stored: "quiet s s' \<Longrightarrow> stored a [] s s'"
  by (simp add: stored_def quiet_fields)

lemma recv_chunk_log:
  fixes s :: "'a bls_scheme"
  shows "recv_chunk n a c s = (v, s') \<Longrightarrow> \<exists>bs. rx_log s' = rx_log s @ map ucast bs \<and> stored a bs s s' \<and>
    (case v of None \<Rightarrow> length bs < n | Some c' \<Rightarrow> length bs = n \<and> c' = c + host_checksum bs)"
proof (induction n arbitrary: a c s)
  case 0
  then show ?case
    by (intro exI [of _ "[]"]) (auto simp: stored_def host_checksum_def)
next
  case (Suc n)
  obtain b t where g: "serial_getchar s = (b, t)"
    by fastforce
  note l = getchar_log [OF g [unfolded serial_getchar_def]]
  show ?case
  proof (cases b)
    case None
    then show ?thesis
      using Suc.prems l by (intro exI [of _ "[]"]) (auto simp: g quiet_stored)
  next
    case (Some b)
    then have "recv_chunk n (a + 1) (c + ucast b) (st8 a b t) = (v, s')"
      using Suc.prems by (simp add: g)
    from Suc.IH [OF this] obtain bs where bs: "rx_log s' = rx_log (st8 a b t) @ map ucast bs" "stored (a + 1) bs (st8 a b t) s'"
        "case v of None \<Rightarrow> length bs < n | Some c' \<Rightarrow> length bs = n \<and> c' = c + ucast b + host_checksum bs"
      by blast
    have "stored a [b] s (st8 a b t)" "rx_log (st8 a b t) = rx_log t"
      using quiet_fields [of s t] l by (auto simp: stored_def st8_def out8_def emit_def)
    with stored_append [of a "[b]" s "st8 a b t" bs s'] bs l Some show ?thesis
      by (intro exI [of _ "b # bs"]) (auto simp: host_checksum_def add.assoc split: option.splits)
  qed
qed

lemma recv_loop_log:
  fixes s :: "'a bls_scheme"
  shows "recv_loop dst len received c s = Some (v, s') \<Longrightarrow> received \<le> len \<Longrightarrow> \<exists>bs. rx_log s' = rx_log s @ map ucast bs \<and>
    stored (dst + of_nat received) bs s s' \<and> (case v of None \<Rightarrow> length bs < len - received | Some c' \<Rightarrow> length bs = len - received \<and> c' = c + host_checksum bs)"
proof (induction dst len received c s rule: recv_loop.induct)
  case (1 dst len received c s)
  show ?case
  proof (cases "received < len")
    case False
    then show ?thesis
      using 1(2,3) by (subst (asm) recv_loop.simps) (auto simp: stored_def host_checksum_def intro!: exI [of _ "[]"])
  next
    case True
    let ?n = "if len - received > 2048 then 2048 else len - received"
    obtain v1 t where t: "recv_chunk ?n (dst + of_nat received) c s = (v1, t)"
      by fastforce
    obtain bs where bs: "rx_log t = rx_log s @ map ucast bs" "stored (dst + of_nat received) bs s t"
        "case v1 of None \<Rightarrow> length bs < ?n | Some c' \<Rightarrow> length bs = ?n \<and> c' = c + host_checksum bs"
      using recv_chunk_log [OF t] by blast
    show ?thesis
    proof (cases v1)
      case None
      then show ?thesis
        using 1(2) True t bs by (subst (asm) recv_loop.simps) (auto simp: Let_def split: if_splits intro!: exI [of _ bs])
    next
      case (Some c1)
      obtain u where u: "serial_send_u32 SHELL_MORE t = Some u" "recv_loop dst len (received + ?n) c1 u = Some (v, s')"
        using 1(2) True t Some by (subst (asm) recv_loop.simps) (auto simp: Let_def split: option.splits if_splits)
      note lu = puts_log [OF u(1) [unfolded send_u32_puts]]
      have le: "received + ?n \<le> len"
        using True by auto
      obtain bs' where bs': "rx_log s' = rx_log u @ map ucast bs'" "stored (dst + of_nat (received + ?n)) bs' u s'"
          "case v of None \<Rightarrow> length bs' < len - (received + ?n) | Some c' \<Rightarrow> length bs' = len - (received + ?n) \<and> c' = c1 + host_checksum bs'"
        using 1(1) [OF True refl refl t [symmetric] Some u le] by blast
      have b: "length bs = ?n" "c1 = c + host_checksum bs"
        using bs(3) Some by auto
      have "stored (dst + of_nat received) (bs @ bs') s s'"
      proof (rule stored_append [OF bs(2)])
        show "stored (dst + of_nat received + of_nat (length bs)) bs' t s'"
          using bs'(2) stored_append [OF quiet_stored [OF conjunct1 [OF lu]], of "dst + of_nat received + of_nat (length bs)" bs' s'] b(1) by (simp add: add.assoc)
      qed
      then show ?thesis
        using bs(1) bs'(1,3) lu b le by (intro exI [of _ "bs @ bs'"]) (auto simp: host_checksum_def split: option.splits)
    qed
  qed
qed

lemma receive_data_log:
  fixes s :: "'a bls_scheme"
  assumes "receive_data dst len c s = Some (ok, s')"
  shows "\<exists>bs. rx_log s' = rx_log s @ map ucast bs \<and> stored dst bs s s' \<and> length bs \<le> unat len \<and>
    (ok \<longrightarrow> length bs = unat len \<and> c = host_checksum bs)"
proof -
  obtain m where m: "in16 INT_MASK s = (m, emit (Rd INT_MASK (ucast m)) s)"
    by (simp add: in16_def Let_def)
  let ?s = "out16 INT_MASK 0 (emit (Rd INT_MASK (ucast m)) s)"
  obtain v t where t: "recv_loop dst (unat len) 0 0 ?s = Some (v, t)"
    using assms by (auto simp: receive_data_def m Let_def split: option.splits)
  obtain bs where bs: "rx_log t = rx_log ?s @ map ucast bs" "stored (dst + of_nat 0) bs ?s t"
      "case v of None \<Rightarrow> length bs < unat len - 0 | Some c' \<Rightarrow> length bs = unat len - 0 \<and> c' = 0 + host_checksum bs"
    using recv_loop_log [OF t le0] by blast
  obtain tag where tag: "serial_puts (le32_encode tag) (out16 INT_MASK m t) = Some s'" "ok \<longrightarrow> v = Some c"
    using assms by (auto simp: receive_data_def m t Let_def send_u32_puts split: option.splits if_splits)
  have "quiet (out16 INT_MASK m t) s'" "rx_log s' = rx_log (out16 INT_MASK m t)"
    using puts_log [OF tag(1)] by simp_all
  then have "rx_log s' = rx_log t" "ram s' = ram t" "bls.more s' = bls.more t"
    using quiet_fields [of "out16 INT_MASK m t" s'] by (simp_all add: out16_def emit_def)
  moreover have "ram ?s = ram s" "bls.more ?s = bls.more s" "rx_log ?s = rx_log s"
    by (simp_all add: out16_def emit_def)
  ultimately show ?thesis
    using bs tag(2) by (intro exI [of _ bs]) (auto simp: stored_def split: option.splits)
qed

text \<open>How an upload that fails ends.\<close>

definition upload_failed :: "'a shs_scheme \<Rightarrow> unit flow \<Rightarrow> 'a shs_scheme \<Rightarrow> bool" where
  "upload_failed s f s' \<longleftrightarrow> f = Returned () \<and> has_upload s' = has_upload s \<and> last_cmd_text s' = Some (s2b ''UEXE FAIL'')"

lemma upload_exe_fail_log:
  "upload_exe_fail s = Some (f, s') \<Longrightarrow> rx_log s' = rx_log s \<and> upload_failed s f s' \<and> ram s' = ram s \<and> last_entry s' = last_entry s"
  using puts_log [of "le32_encode SHELL_ERR" s]
  by (auto simp: upload_exe_fail_def fin_def send_u32_puts upload_failed_def quiet_fields quiet_shell)

lemma upload_recv:
  assumes "recv_or upload_exe_fail s k = Some (f, s')"
  obtains (fail) bs :: "u8 list" where "length bs < 4" "rx_log s' = rx_log s @ map ucast bs" "upload_failed s f s'" "ram s' = ram s" "last_entry s' = last_entry s"
  | (word) v t where "rx_log t = rx_log s @ map ucast (le32_encode v)" "kept s t" "k v t = Some (f, s')"
proof -
  obtain v t where v: "serial_recv_u32 s = (v, t)"
    by fastforce
  obtain bs where bs: "quiet s t" "rx_log t = rx_log s @ map ucast bs" "case v of None \<Rightarrow> length bs < 4 | Some v \<Rightarrow> bs = le32_encode v"
    using recv_u32_log [OF v] by blast
  show thesis
  proof (cases v)
    case None
    then have "upload_exe_fail t = Some (f, s')"
      using assms v by (simp add: recv_or_def)
    from upload_exe_fail_log [OF this] show thesis
      using fail [of bs] bs None quiet_kept [OF bs(1)] by (auto simp: upload_failed_def kept_def)
  next
    case (Some w)
    then show thesis
      using word [of t w] bs assms v quiet_kept [OF bs(1)] by (simp add: recv_or_def)
  qed
qed

lemma upload_four:
  assumes "recv_or upload_exe_fail s (\<lambda>e s. recv_or upload_exe_fail s (\<lambda>a s. recv_or upload_exe_fail s (\<lambda>n s.
      recv_or upload_exe_fail s (\<lambda>c s. k e a n c s)))) = Some (f, s')"
  obtains (fail) bs :: "u8 list" where "length bs < 16" "rx_log s' = rx_log s @ map ucast bs" "upload_failed s f s'" "last_entry s' = last_entry s"
  | (header) e a n c t where "rx_log t = rx_log s @ map ucast (le32_encode e @ le32_encode a @ le32_encode n @ le32_encode c)" "kept s t"
      "k e a n c t = Some (f, s')"
proof (cases rule: upload_recv [OF assms])
  case (1 bs)
  then show thesis
    by (intro fail [of bs]) auto
next
  case w1: (2 e s1)
  show thesis
  proof (cases rule: upload_recv [OF w1(3)])
    case (1 bs)
    then show thesis
      using w1 by (intro fail [of "le32_encode e @ bs"]) (auto simp: upload_failed_def kept_def)
  next
    case w2: (2 a s2)
    show thesis
    proof (cases rule: upload_recv [OF w2(3)])
      case (1 bs)
      then show thesis
        using w1 w2 by (intro fail [of "le32_encode e @ le32_encode a @ bs"]) (auto simp: upload_failed_def kept_def)
    next
      case w3: (2 n s3)
      show thesis
      proof (cases rule: upload_recv [OF w3(3)])
        case (1 bs)
        then show thesis
          using w1 w2 w3 by (intro fail [of "le32_encode e @ le32_encode a @ le32_encode n @ bs"]) (auto simp: upload_failed_def kept_def)
      next
        case (2 c s4)
        then show thesis
          using w1 w2 w3 by (intro header [of s4 e a n c]) (auto simp: kept_def)
      qed
    qed
  qed
qed

lemma header_at:
  "le32_at (le32_encode e @ le32_encode a @ le32_encode n @ le32_encode c @ bs) 0 = e"
  "le32_at (le32_encode e @ le32_encode a @ le32_encode n @ le32_encode c @ bs) 4 = a"
  "le32_at (le32_encode e @ le32_encode a @ le32_encode n @ le32_encode c @ bs) 8 = n"
  "le32_at (le32_encode e @ le32_encode a @ le32_encode n @ le32_encode c @ bs) 12 = c"
  "drop 16 (le32_encode e @ le32_encode a @ le32_encode n @ le32_encode c @ bs) = bs"
  by (simp_all add: le32_at_append2)


definition one_byte_upload :: psexe_upload where
  "one_byte_upload = \<lparr>up_pc0 = 0x80010000, up_addr = 0x80010000, up_payload = [7]\<rparr>"

definition one_byte_line :: shs where
  "one_byte_line = shs_demo\<lparr>hw_env := serial_line (\<lambda>rx. upload_header one_byte_upload @ (if 8 \<le> length rx then [7] else [])) 0 0 (\<lambda>_ _. 0)\<rparr>"


end
