(* ===== verification/ImageTools.thy ===== *)
theory ImageTools
  imports HostTool BinfmtFixed
begin

text \<open>
  The host tools that turn a linked kernel into a bootable image, in the order
  \<^verbatim>\<open>build.sh convert\<close> runs them: \<^verbatim>\<open>tools/elf2psexe.c\<close> flattens the loadable segments
  behind a PS-EXE header, \<^verbatim>\<open>tools/addpsexe_initrd.c\<close> appends the ram disk where the
  kernel will look for it. Files are byte lists; \<open>alloc n\<close> tells whether the C
  library hands out \<open>n\<close> bytes. An access outside a buffer is the error \<open>Undefined\<close>.
\<close>

section \<open>Buffers\<close>

datatype tool_error =
    Cannot_read_header | Not_ELF | Not_32bit | Not_little_endian | Not_MIPS
  | Cannot_allocate | Cannot_read_phdrs | Cannot_write | Not_PSEXE | Undefined

text \<open>\<^verbatim>\<open>memcpy(img + off, bs, n)\<close> into a buffer of known size.\<close>

definition overlay :: "u8 list \<Rightarrow> nat \<Rightarrow> u8 list \<Rightarrow> u8 list" where
  "overlay img off bs = take off img @ bs @ drop (off + length bs) img"

definition copy_to :: "u8 list \<Rightarrow> nat \<Rightarrow> u8 list \<Rightarrow> tool_error + u8 list" where
  "copy_to img off bs = (if off + length bs \<le> length img then Inr (overlay img off bs) else Inl Undefined)"

definition bind_tool :: "tool_error + 'a \<Rightarrow> ('a \<Rightarrow> tool_error + 'b) \<Rightarrow> tool_error + 'b" where
  "bind_tool x f = (case x of Inl e \<Rightarrow> Inl e | Inr a \<Rightarrow> f a)"

text \<open>\<^verbatim>\<open>(x + 2047) & ~2047\<close>, the sector rounding both tools do.\<close>

definition sector_up :: "u32 \<Rightarrow> u32" where
  "sector_up x = (x + 2047) AND NOT 2047"

section \<open>elf2psexe\<close>

record Elf32_Phdr = elf_phdr +
  p_flags :: u32

definition Elf32_Phdr_of :: "u8 list \<Rightarrow> nat \<Rightarrow> Elf32_Phdr" where
  "Elf32_Phdr_of b i = elf_phdr.extend (phdr_of b i) \<lparr>p_flags = le32_at b (32 * i + 24)\<rparr>"

record PSEXE_HDR =
  pc0 :: u32
  gp0 :: u32
  t_addr :: u32
  t_size :: u32
  d_addr :: u32
  d_size :: u32
  b_addr :: u32
  b_size :: u32
  sp_base :: u32
  sp_offset :: u32
  marker :: cstr

definition PSEXE_HDR_bytes :: "PSEXE_HDR \<Rightarrow> u8 list" where
  "PSEXE_HDR_bytes h = s2b ''PS-X EXE'' @ replicate 8 0 @ le32_encode (pc0 h) @ le32_encode (gp0 h) @ le32_encode (t_addr h) @
     le32_encode (t_size h) @ le32_encode (d_addr h) @ le32_encode (d_size h) @ le32_encode (b_addr h) @ le32_encode (b_size h) @
     le32_encode (sp_base h) @ le32_encode (sp_offset h) @ replicate 20 0 @ marker h @ replicate (1972 - length (marker h)) 0"

definition TO_KSEG0 :: "u32 \<Rightarrow> u32" where
  "TO_KSEG0 addr = (if addr < 0x80000000 then addr OR 0x80000000 else addr)"

record elf_scan =
  load_addr :: u32
  end_addr :: u32
  bss_addr :: u32
  bss_sz :: u32
  data_addr :: u32
  data_sz :: u32

definition scan_start :: elf_scan where
  "scan_start = \<lparr>load_addr = 0xFFFFFFFF, end_addr = 0, bss_addr = 0, bss_sz = 0, data_addr = 0, data_sz = 0\<rparr>"

definition scan_phdr :: "Elf32_Phdr \<Rightarrow> elf_scan \<Rightarrow> elf_scan" where
  "scan_phdr ph s =
    (if p_type ph = PT_LOAD
     then let s = (if p_vaddr ph < load_addr s then s\<lparr>load_addr := p_vaddr ph\<rparr> else s);
              s = (if p_vaddr ph + p_filesz ph > end_addr s then s\<lparr>end_addr := p_vaddr ph + p_filesz ph\<rparr> else s);
              s = (if p_memsz ph > p_filesz ph
                   then s\<lparr>bss_addr := p_vaddr ph + p_filesz ph, bss_sz := p_memsz ph - p_filesz ph\<rparr> else s)
          in if p_flags ph AND 2 \<noteq> 0 then s\<lparr>data_addr := p_vaddr ph, data_sz := p_filesz ph\<rparr> else s
     else s)"

text \<open>A segment that is cut short by the end of the file only draws a warning.\<close>

fun load_phdrs :: "u8 list \<Rightarrow> u32 \<Rightarrow> Elf32_Phdr list \<Rightarrow> u8 list \<Rightarrow> tool_error + u8 list" where
  "load_phdrs file la [] img = Inr img"
| "load_phdrs file la (ph # phs) img =
    (if p_type ph = PT_LOAD \<and> p_filesz ph > 0
     then bind_tool (copy_to img (unat (p_vaddr ph - la)) (take (unat (p_filesz ph)) (drop (unat (p_offset ph)) file)))
            (load_phdrs file la phs)
     else load_phdrs file la phs img)"

definition elf_phdrs :: "u8 list \<Rightarrow> Elf32_Phdr list" where
  "elf_phdrs file = map (Elf32_Phdr_of (drop (unat (e_phoff (elfhdr_of file))) file)) [0..<unat (e_phnum (elfhdr_of file))]"

definition exe_header :: "u32 \<Rightarrow> elf_scan \<Rightarrow> u32 \<Rightarrow> u32 \<Rightarrow> PSEXE_HDR" where
  "exe_header entry s image_size stack_top =
    \<lparr>pc0 = TO_KSEG0 entry, gp0 = 0, t_addr = TO_KSEG0 (load_addr s), t_size = image_size,
     d_addr = TO_KSEG0 (data_addr s), d_size = data_sz s, b_addr = TO_KSEG0 (bss_addr s), b_size = bss_sz s,
     sp_base = stack_top, sp_offset = 0, marker = s2b ''Blackroo Linux for PlayStation''\<rparr>"

definition elf2psexe :: "(nat \<Rightarrow> bool) \<Rightarrow> u32 option \<Rightarrow> u8 list \<Rightarrow> tool_error + u8 list" where
  "elf2psexe alloc arg3 file =
    (let stack_top = (case arg3 of None \<Rightarrow> 0x801fff00 | Some v \<Rightarrow> v);
         ehdr = elfhdr_of file in
     if length file < 52 then Inl Cannot_read_header
     else if take 4 (e_ident ehdr) \<noteq> [0x7f, 0x45, 0x4c, 0x46] then Inl Not_ELF
     else if e_ident ehdr ! 4 \<noteq> 1 then Inl Not_32bit
     else if e_ident ehdr ! 5 \<noteq> 1 then Inl Not_little_endian
     else if e_machine ehdr \<noteq> 8 then Inl Not_MIPS
     else if \<not> alloc (unat (e_phnum ehdr) * 32) then Inl Cannot_allocate
     else if length file < unat (e_phoff ehdr) + unat (e_phnum ehdr) * 32 \<and> e_phnum ehdr \<noteq> 0 then Inl Cannot_read_phdrs
     else let phdrs = elf_phdrs file;
              s = fold scan_phdr phdrs scan_start;
              image_size = end_addr s - load_addr s in
          if \<not> alloc (unat image_size) then Inl Cannot_allocate
          else bind_tool (load_phdrs file (load_addr s) phdrs (replicate (unat image_size) 0)) (\<lambda>image.
            let padded_size = sector_up image_size in
            if padded_size > image_size \<and> \<not> alloc (unat padded_size) then Inl Undefined
            else let image = (if padded_size > image_size then image @ replicate (unat padded_size - unat image_size) 0 else image);
                     image_size = (if padded_size > image_size then padded_size else image_size) in
                 if image_size = 0 then Inl Cannot_write
                 else Inr (PSEXE_HDR_bytes (exe_header (e_entry ehdr) s image_size stack_top) @ image)))"

section \<open>addpsexe_initrd\<close>

definition initrd_offset_of :: "u32 \<Rightarrow> u32" where
  "initrd_offset_of kernel_end =
    (let initrd_offset = ((kernel_end + 4096 - 1) AND NOT (4096 - 1)) - 8 in
     if initrd_offset < kernel_end then initrd_offset + 4096 else initrd_offset)"

definition kernel_end_of :: "u32 \<Rightarrow> u32 option \<Rightarrow> u32" where
  "kernel_end_of image_end arg4 =
    (case arg4 of
       None \<Rightarrow> image_end
     | Some sym_end \<Rightarrow>
        let sym_end = (if sym_end < 0x80000000 then sym_end OR 0x80000000 else sym_end) in
        if sym_end > image_end then sym_end else image_end)"

definition addpsexe_initrd :: "(nat \<Rightarrow> bool) \<Rightarrow> u8 list \<Rightarrow> u8 list \<Rightarrow> u32 option \<Rightarrow> tool_error + u8 list" where
  "addpsexe_initrd alloc exe initrd arg4 =
    (let exe_size = unat (of_nat (length exe) :: u32);
         initrd_size = of_nat (length initrd) :: u32;
         exe_data = take exe_size exe;
         t_addr = le32_at exe_data 0x18;
         t_size = le32_at exe_data 0x1C in
     if \<not> alloc exe_size then Inl Cannot_allocate
     else if exe_size < 8 then Inl Undefined
     else if take 8 exe_data \<noteq> s2b ''PS-X EXE'' then Inl Not_PSEXE
     else if exe_size < 32 then Inl Undefined
     else if \<not> alloc (unat initrd_size) then Inl Cannot_allocate
     else let initrd_data = take (unat initrd_size) initrd;
              image_end = t_addr + t_size;
              initrd_offset = initrd_offset_of (kernel_end_of image_end arg4);
              padding_size = initrd_offset - image_end;
              new_t_size = sector_up (t_size + padding_size + 8 + initrd_size);
              output_size = 2048 + new_t_size;
              file_offset = 2048 + (initrd_offset - t_addr) in
          if \<not> alloc (unat output_size) then Inl Cannot_allocate
          else if exe_size < 2048 \<or> exe_size < 2048 + unat t_size then Inl Undefined
          else bind_tool (copy_to (replicate (unat output_size) 0) 0 (take 2048 exe_data)) (\<lambda>output.
               bind_tool (copy_to output 0x1C (le32_encode new_t_size)) (\<lambda>output.
               bind_tool (copy_to output 2048 (take (unat t_size) (drop 2048 exe_data))) (\<lambda>output.
               bind_tool (copy_to output (unat file_offset) (le32_encode 0x494E5244 @ le32_encode initrd_size)) (\<lambda>output.
               copy_to output (unat file_offset + 8) initrd_data)))))"

section \<open>Slices of a buffer\<close>

lemma length_overlay [simp]: "off + length bs \<le> length img \<Longrightarrow> length (overlay img off bs) = length img"
  by (simp add: overlay_def)

lemma nth_overlay:
  "off + length bs \<le> length img \<Longrightarrow> i < length img \<Longrightarrow>
   overlay img off bs ! i = (if off \<le> i \<and> i < off + length bs then bs ! (i - off) else img ! i)"
  by (auto simp: overlay_def nth_append min_def)

lemma slice_overlay:
  "off + length bs \<le> length img \<Longrightarrow> take (length bs) (drop off (overlay img off bs)) = bs"
  by (simp add: overlay_def)

lemma slice_overlay_other:
  assumes "off + length bs \<le> length img" "k + n \<le> off \<or> off + length bs \<le> k"
  shows "take n (drop k (overlay img off bs)) = take n (drop k img)"
  using assms by (intro nth_equalityI) (auto simp: nth_overlay)

lemma copy_to_Inr: "copy_to img off bs = Inr img' \<longleftrightarrow> off + length bs \<le> length img \<and> img' = overlay img off bs"
  by (auto simp: copy_to_def)

lemma bind_tool_Inr: "bind_tool x f = Inr b \<longleftrightarrow> (\<exists>a. x = Inr a \<and> f a = Inr b)"
  by (auto simp: bind_tool_def split: sum.splits)

lemma bind_tool_simps [simp]: "bind_tool (Inr a) f = f a" "bind_tool (Inl e) f = Inl e"
  by (simp_all add: bind_tool_def)

section \<open>The header\<close>

lemma length_PSEXE_HDR_bytes: "length (marker h) \<le> 1972 \<Longrightarrow> length (PSEXE_HDR_bytes h) = 2048"
  by (simp add: PSEXE_HDR_bytes_def)

lemma PSEXE_HDR_fields:
  "take 8 (PSEXE_HDR_bytes h @ img) = s2b ''PS-X EXE''"
  "le32_at (PSEXE_HDR_bytes h @ img) 0x10 = pc0 h"
  "le32_at (PSEXE_HDR_bytes h @ img) 0x18 = t_addr h"
  "le32_at (PSEXE_HDR_bytes h @ img) 0x1C = t_size h"
  by (simp_all add: PSEXE_HDR_bytes_def le32_at_append2)

lemma length_exe_header [simp]: "length (PSEXE_HDR_bytes (exe_header e s n st)) = 2048"
  by (rule length_PSEXE_HDR_bytes) (simp add: exe_header_def)

lemma unat_and_not_mask: "unat ((x :: u32) AND NOT (mask n)) = unat x div 2 ^ n * 2 ^ n"
proof -
  have "take_bit n x OR (x AND NOT (mask n)) = x" "take_bit n x AND (x AND NOT (mask n)) = 0"
    by (auto simp: bit_simps intro!: bit_word_eqI)
  then have "take_bit n x + (x AND NOT (mask n)) = x"
    using disjunctive_add_eq_or [of "take_bit n x" "x AND NOT (mask n)"] by simp
  then have "x AND NOT (mask n) = x - take_bit n x"
    by (simp add: algebra_simps eq_diff_eq)
  moreover have "take_bit n x \<le> x"
    by (simp add: word_le_nat_alt unsigned_take_bit_eq)
  moreover have "unat (take_bit n x) = unat x mod 2 ^ n"
    by (simp only: unsigned_take_bit_eq) (simp only: take_bit_eq_mod)
  ultimately have "unat (x AND NOT (mask n)) = unat x - unat x mod 2 ^ n"
    by (simp add: unat_sub)
  then show ?thesis
    by (simp add: minus_mod_eq_div_mult)
qed

lemma unat_sector_up:
  assumes "unat x + 2047 < 2 ^ 32"
  shows "unat (sector_up x) = (unat x + 2047) div 2048 * 2048"
proof -
  have "unat (x + 2047) = unat x + 2047"
    using assms unat_add_small [of x 2047] by simp
  then show ?thesis
    using unat_and_not_mask [of "x + 2047" 11] by (simp add: sector_up_def mask_eq_exp_minus_1)
qed

lemma sector_up_ge: "unat x + 2047 < 2 ^ 32 \<Longrightarrow> x \<le> sector_up x \<and> unat (sector_up x) < unat x + 2048 \<and> unat (sector_up x) mod 2048 = 0"
  using div_mult_mod_eq [of "unat x + 2047" 2048] mod_less_divisor [of 2048 "unat x + 2047"]
  by (simp add: word_le_nat_alt unat_sector_up) linarith

section \<open>The segments\<close>

abbreviation (input) loads :: "Elf32_Phdr \<Rightarrow> bool" where
  "loads ph \<equiv> p_type ph = PT_LOAD"

lemma scan_phdr_bounds:
  "load_addr (scan_phdr ph s) = (if loads ph then min (load_addr s) (p_vaddr ph) else load_addr s)"
  "end_addr (scan_phdr ph s) = (if loads ph then max (end_addr s) (p_vaddr ph + p_filesz ph) else end_addr s)"
  by (auto simp: scan_phdr_def Let_def min_def max_def)

lemma scan_bounds:
  "load_addr (fold scan_phdr phs s) \<le> load_addr s \<and> end_addr s \<le> end_addr (fold scan_phdr phs s) \<and>
   (\<forall>ph\<in>set phs. loads ph \<longrightarrow>
      load_addr (fold scan_phdr phs s) \<le> p_vaddr ph \<and> p_vaddr ph + p_filesz ph \<le> end_addr (fold scan_phdr phs s))"
proof (induction phs arbitrary: s)
  case (Cons ph phs)
  show ?case
    using Cons.IH [of "scan_phdr ph s"] by (auto simp: scan_phdr_bounds split: if_splits)
qed simp

text \<open>The bytes the file holds of a segment, and that two segments do not overlap.\<close>

definition seg_bytes :: "u8 list \<Rightarrow> Elf32_Phdr \<Rightarrow> u8 list" where
  "seg_bytes file ph = take (unat (p_filesz ph)) (drop (unat (p_offset ph)) file)"

definition apart :: "Elf32_Phdr \<Rightarrow> Elf32_Phdr \<Rightarrow> bool" where
  "apart a b \<longleftrightarrow> (loads a \<and> loads b \<longrightarrow>
     unat (p_vaddr a) + unat (p_filesz a) \<le> unat (p_vaddr b) \<or> unat (p_vaddr b) + unat (p_filesz b) \<le> unat (p_vaddr a))"

lemma length_seg_bytes: "length (seg_bytes file ph) \<le> unat (p_filesz ph)"
  by (simp add: seg_bytes_def)

lemma load_phdrs_frame:
  assumes "load_phdrs file la phs img = Inr img'"
  shows "length img' = length img \<and>
    (\<forall>k n. (\<forall>ph\<in>set phs. loads ph \<longrightarrow> k + n \<le> unat (p_vaddr ph - la) \<or> unat (p_vaddr ph - la) + unat (p_filesz ph) \<le> k) \<longrightarrow>
       take n (drop k img') = take n (drop k img))"
  using assms
proof (induction phs arbitrary: img)
  case (Cons ph phs)
  show ?case
  proof (cases "loads ph \<and> p_filesz ph > 0")
    case True
    let ?o = "unat (p_vaddr ph - la)"
    have a: "?o + length (seg_bytes file ph) \<le> length img" "load_phdrs file la phs (overlay img ?o (seg_bytes file ph)) = Inr img'"
      using Cons.prems True by (auto simp: bind_tool_Inr copy_to_Inr seg_bytes_def)
    have "take n (drop k img') = take n (drop k img)"
      if h: "\<forall>ph\<in>set (ph # phs). loads ph \<longrightarrow> k + n \<le> unat (p_vaddr ph - la) \<or> unat (p_vaddr ph - la) + unat (p_filesz ph) \<le> k" for k n
    proof -
      have "take n (drop k img') = take n (drop k (overlay img ?o (seg_bytes file ph)))"
        using Cons.IH [OF a(2)] h by auto
      also have "\<dots> = take n (drop k img)"
        using h True length_seg_bytes [of "file" ph] by (intro slice_overlay_other [OF a(1)]) auto
      finally show ?thesis .
    qed
    then show ?thesis
      using Cons.IH [OF a(2)] a(1) by simp
  next
    case False
    then show ?thesis
      using Cons.prems Cons.IH [of img] by auto
  qed
qed simp

lemma load_phdrs_in_place:
  assumes "load_phdrs file la phs img = Inr img'" "sorted_wrt apart phs" "ph \<in> set phs" "loads ph"
    and "\<forall>ph\<in>set phs. loads ph \<longrightarrow> la \<le> p_vaddr ph"
  shows "take (length (seg_bytes file ph)) (drop (unat (p_vaddr ph - la)) img') = seg_bytes file ph"
  using assms
proof (induction phs arbitrary: img)
  case (Cons q phs)
  show ?case
  proof (cases "q = ph")
    case True
    show ?thesis
    proof (cases "p_filesz ph > 0")
      case pos: True
      let ?o = "unat (p_vaddr ph - la)" and ?b = "seg_bytes file ph"
      have a: "?o + length ?b \<le> length img" "load_phdrs file la phs (overlay img ?o ?b) = Inr img'"
        using Cons.prems(1,4) True pos by (auto simp: bind_tool_Inr copy_to_Inr seg_bytes_def)
      have off: "unat (p_vaddr x - la) = unat (p_vaddr x) - unat la" "unat la \<le> unat (p_vaddr x)" if "x \<in> set (q # phs)" "loads x" for x
        using Cons.prems(5) that by (auto simp: unat_sub word_le_nat_alt)
      have "take (length ?b) (drop ?o img') = take (length ?b) (drop ?o (overlay img ?o ?b))"
      proof (rule load_phdrs_frame [OF a(2), THEN conjunct2, rule_format])
        fix x assume x: "x \<in> set phs" "loads x"
        then have "apart ph x"
          using Cons.prems(2) True by simp
        then show "?o + length ?b \<le> unat (p_vaddr x - la) \<or> unat (p_vaddr x - la) + unat (p_filesz x) \<le> ?o"
          using x Cons.prems(4) off [of x] off [of ph] True length_seg_bytes [of "file" ph] unfolding apart_def by auto
      qed
      then show ?thesis
        by (simp add: slice_overlay [OF a(1)])
    qed (simp add: seg_bytes_def word_gt_0)
  next
    case False
    then have "ph \<in> set phs"
      using Cons.prems(3) by simp
    moreover obtain img2 where "load_phdrs file la phs img2 = Inr img'"
      using Cons.prems(1) by (auto simp: bind_tool_Inr split: if_splits)
    ultimately show ?thesis
      using Cons.prems Cons.IH [of img2] by simp
  qed
qed simp

section \<open>What elf2psexe writes\<close>

abbreviation (input) elf_scan_of :: "u8 list \<Rightarrow> elf_scan" where
  "elf_scan_of elf \<equiv> fold scan_phdr (elf_phdrs elf) scan_start"

definition image_small :: "u8 list \<Rightarrow> bool" where
  "image_small elf \<longleftrightarrow> unat (end_addr (elf_scan_of elf) - load_addr (elf_scan_of elf)) + 2047 < 2 ^ 32"

lemma elf2psexe_cases:
  assumes "elf2psexe alloc arg3 elf = Inr exe" "image_small elf"
  obtains stack image n where
    "exe = PSEXE_HDR_bytes (exe_header (e_entry (elfhdr_of elf)) (elf_scan_of elf) n stack) @ image"
    "n = sector_up (end_addr (elf_scan_of elf) - load_addr (elf_scan_of elf))" "length image = unat n"
    "\<exists>im. load_phdrs elf (load_addr (elf_scan_of elf)) (elf_phdrs elf)
        (replicate (unat (end_addr (elf_scan_of elf) - load_addr (elf_scan_of elf))) 0) = Inr im \<and>
      image = im @ replicate (unat n - length im) 0"
proof -
  let ?s = "elf_scan_of elf"
  let ?z = "end_addr ?s - load_addr ?s"
  have up: "?z \<le> sector_up ?z"
    using sector_up_ge [of ?z] assms(2) by (simp add: image_small_def)
  obtain im where im: "load_phdrs elf (load_addr ?s) (elf_phdrs elf) (replicate (unat ?z) 0) = Inr im"
    and exe: "exe = PSEXE_HDR_bytes (exe_header (e_entry (elfhdr_of elf)) ?s (if sector_up ?z > ?z then sector_up ?z else ?z)
        (case arg3 of None \<Rightarrow> 0x801fff00 | Some v \<Rightarrow> v)) @
      (if sector_up ?z > ?z then im @ replicate (unat (sector_up ?z) - unat ?z) 0 else im)"
    using assms(1) by (auto simp: elf2psexe_def Let_def bind_tool_Inr split: if_splits)
  have len: "length im = unat ?z"
    using load_phdrs_frame [OF im] by simp
  have n: "(if sector_up ?z > ?z then sector_up ?z else ?z) = sector_up ?z"
    using up by auto
  have i: "(if sector_up ?z > ?z then im @ replicate (unat (sector_up ?z) - unat ?z) 0 else im) =
      im @ replicate (unat (sector_up ?z) - length im) 0"
    using up len by (auto simp: not_less)
  show ?thesis
  proof (rule that)
    show "exe = PSEXE_HDR_bytes (exe_header (e_entry (elfhdr_of elf)) ?s (sector_up ?z) (case arg3 of None \<Rightarrow> 0x801fff00 | Some v \<Rightarrow> v)) @
        im @ replicate (unat (sector_up ?z) - length im) 0"
      using exe unfolding n i .
    show "length (im @ replicate (unat (sector_up ?z) - length im) 0) = unat (sector_up ?z)"
      using len up by (simp add: word_le_nat_alt)
  qed (use im in auto)
qed

lemma elf2psexe_parse:
  assumes "elf2psexe alloc arg3 elf = Inr exe" "image_small elf"
  shows "length exe = 2048 + unat (le32_at exe 0x1C)" "take 8 exe = s2b ''PS-X EXE''"
    "le32_at exe 0x10 = TO_KSEG0 (e_entry (elfhdr_of elf))" "le32_at exe 0x18 = TO_KSEG0 (load_addr (elf_scan_of elf))"
    "le32_at exe 0x1C = sector_up (end_addr (elf_scan_of elf) - load_addr (elf_scan_of elf))"
proof -
  obtain stack image n where e: "exe = PSEXE_HDR_bytes (exe_header (e_entry (elfhdr_of elf)) (elf_scan_of elf) n stack) @ image"
    "n = sector_up (end_addr (elf_scan_of elf) - load_addr (elf_scan_of elf))" "length image = unat n"
    using elf2psexe_cases [OF assms] by metis
  show sz: "le32_at exe 0x1C = sector_up (end_addr (elf_scan_of elf) - load_addr (elf_scan_of elf))"
    unfolding e(1) PSEXE_HDR_fields using e(2) by (simp add: exe_header_def)
  show "length exe = 2048 + unat (le32_at exe 0x1C)"
    unfolding sz using e by simp
  show "take 8 exe = s2b ''PS-X EXE''" "le32_at exe 0x10 = TO_KSEG0 (e_entry (elfhdr_of elf))"
      "le32_at exe 0x18 = TO_KSEG0 (load_addr (elf_scan_of elf))"
    unfolding e(1) PSEXE_HDR_fields by (simp_all add: exe_header_def)
qed

lemma elf2psexe_segments:
  assumes "elf2psexe alloc arg3 elf = Inr exe" "image_small elf" "sorted_wrt apart (elf_phdrs elf)" "ph \<in> set (elf_phdrs elf)" "loads ph"
    and "\<forall>ph\<in>set (elf_phdrs elf). loads ph \<longrightarrow> unat (p_vaddr ph) + unat (p_filesz ph) < 2 ^ 32"
  shows "take (length (seg_bytes elf ph)) (drop (2048 + (unat (p_vaddr ph) - unat (load_addr (elf_scan_of elf)))) exe) = seg_bytes elf ph"
    "unat (load_addr (elf_scan_of elf)) \<le> unat (p_vaddr ph)"
    "unat (p_vaddr ph) - unat (load_addr (elf_scan_of elf)) + length (seg_bytes elf ph) \<le> unat (le32_at exe 0x1C)"
proof -
  let ?s = "elf_scan_of elf"
  let ?z = "end_addr ?s - load_addr ?s" and ?o = "unat (p_vaddr ph) - unat (load_addr ?s)"
  obtain stack image n im where e:
    "exe = PSEXE_HDR_bytes (exe_header (e_entry (elfhdr_of elf)) ?s n stack) @ image" "n = sector_up ?z" "length image = unat n"
    "load_phdrs elf (load_addr ?s) (elf_phdrs elf) (replicate (unat ?z) 0) = Inr im" "image = im @ replicate (unat n - length im) 0"
    using elf2psexe_cases [OF assms(1,2)] by metis
  have b: "load_addr ?s \<le> p_vaddr x" "p_vaddr x + p_filesz x \<le> end_addr ?s" if "x \<in> set (elf_phdrs elf)" "loads x" for x
    using scan_bounds [of "elf_phdrs elf" scan_start] that by auto
  have o: "unat (p_vaddr ph - load_addr ?s) = ?o"
    using b(1) [OF assms(4,5)] by (simp add: unat_sub)
  have lens: "length im = unat ?z"
    using load_phdrs_frame [OF e(4)] by simp
  have "unat (p_vaddr ph + p_filesz ph) = unat (p_vaddr ph) + unat (p_filesz ph)"
    using assms(4-6) by (intro unat_add_small) auto
  then have "unat (p_vaddr ph) + unat (p_filesz ph) \<le> unat (end_addr ?s)"
    using b(2) [OF assms(4,5)] by (simp add: word_le_nat_alt)
  moreover have la: "unat (load_addr ?s) \<le> unat (p_vaddr ph)"
    using b(1) [OF assms(4,5)] by (simp add: word_le_nat_alt)
  ultimately have fit: "?o + length (seg_bytes elf ph) \<le> length im"
    using lens length_seg_bytes [of elf ph] by (simp add: unat_sub word_le_nat_alt)
  have "take (length (seg_bytes elf ph)) (drop ?o im) = seg_bytes elf ph"
    using load_phdrs_in_place [OF e(4) assms(3,4,5)] b(1) o by auto
  then show "take (length (seg_bytes elf ph)) (drop (2048 + ?o) exe) = seg_bytes elf ph"
    using fit by (simp add: e(1,5))
  show "unat (load_addr ?s) \<le> unat (p_vaddr ph)"
    by (rule la)
  have "unat (le32_at exe 0x1C) = length image"
    using elf2psexe_parse(1) [OF assms(1,2)] e(1) by simp
  then show "?o + length (seg_bytes elf ph) \<le> unat (le32_at exe 0x1C)"
    using fit e(5) by simp
qed

section \<open>What addpsexe_initrd writes\<close>

abbreviation (input) exe_end :: "u8 list \<Rightarrow> u32" where
  "exe_end exe \<equiv> le32_at exe 0x18 + le32_at exe 0x1C"

abbreviation (input) initrd_at :: "u8 list \<Rightarrow> u32 option \<Rightarrow> u32" where
  "initrd_at exe arg4 \<equiv> initrd_offset_of (kernel_end_of (exe_end exe) arg4)"

text \<open>The image and the ram disk fit below the end of the address space.\<close>

definition packs :: "u8 list \<Rightarrow> u8 list \<Rightarrow> u32 option \<Rightarrow> bool" where
  "packs exe initrd arg4 \<longleftrightarrow> length exe < 2 ^ 32 \<and> unat (le32_at exe 0x18) + unat (le32_at exe 0x1C) < 2 ^ 32 \<and>
     4096 \<le> unat (kernel_end_of (exe_end exe) arg4) \<and>
     unat (kernel_end_of (exe_end exe) arg4) + length initrd + 16384 < 2 ^ 32"

lemma initrd_offset_same: "initrd_offset_of = initrd_header_addr"
  by (rule ext) (simp add: initrd_offset_of_def initrd_header_addr_def)

lemma kernel_end_ge: "image_end \<le> kernel_end_of image_end arg4"
  by (auto simp: kernel_end_of_def Let_def split: option.splits)

lemma packs_sizes:
  assumes "packs exe initrd arg4"
  defines "A \<equiv> unat (le32_at exe 0x18)" and "T \<equiv> unat (le32_at exe 0x1C)" and "P \<equiv> unat (initrd_at exe arg4)"
  defines "new \<equiv> sector_up (le32_at exe 0x1C + (initrd_at exe arg4 - exe_end exe) + 8 + of_nat (length initrd))"
  shows "A + T \<le> P" "P + 8 + length initrd + 4096 < 2 ^ 32" "unat (of_nat (length initrd) :: u32) = length initrd"
    "P - A + 8 + length initrd \<le> unat new" "unat (2048 + new) = 2048 + unat new" "unat (2048 + (initrd_at exe arg4 - le32_at exe 0x18)) = 2048 + (P - A)"
    "unat new mod 2048 = 0" "unat new < P - A + 8 + length initrd + 2048"
proof -
  let ?k = "kernel_end_of (exe_end exe) arg4" and ?p = "initrd_at exe arg4" and ?e = "exe_end exe"
  let ?x = "le32_at exe 0x1C + (?p - ?e) + 8 + of_nat (length initrd)"
  have K: "4096 \<le> unat ?k" "unat ?k + length initrd + 16384 < 2 ^ 32" and e: "unat ?e = A + T"
    using assms(1) unat_add_small [of "le32_at exe 0x18" "le32_at exe 0x1C"] by (auto simp: packs_def A_def T_def)
  have P: "unat ?k \<le> P" "P < unat ?k + 4096"
    using initrd_header_nat [of ?k] K by (auto simp: initrd_offset_same P_def)
  have "unat ?e \<le> unat ?k"
    using kernel_end_ge [of ?e arg4] by (simp add: word_le_nat_alt)
  then show AT: "A + T \<le> P"
    using e P by simp
  show big: "P + 8 + length initrd + 4096 < 2 ^ 32"
    using P K by simp
  show n: "unat (of_nat (length initrd) :: u32) = length initrd"
    using big by (simp add: unat_of_nat take_bit_nat_eq_self)
  have d: "unat (?p - ?e) = P - (A + T)" "unat (?p - le32_at exe 0x18) = P - A"
    using AT e unat_sub [of ?e ?p] unat_sub [of "le32_at exe 0x18" ?p] by (simp_all add: word_le_nat_alt P_def A_def)
  have "unat (le32_at exe 0x1C + (?p - ?e)) = P - A"
    using d AT big unat_add_small [of "le32_at exe 0x1C" "?p - ?e"] by (simp add: T_def)
  then have "unat (le32_at exe 0x1C + (?p - ?e) + 8) = P - A + 8"
    using big unat_add_small [of "le32_at exe 0x1C + (?p - ?e)" 8] by simp
  then have x: "unat ?x = P - A + 8 + length initrd"
    using big n unat_add_small [of "le32_at exe 0x1C + (?p - ?e) + 8" "of_nat (length initrd)"] by simp
  then have new: "?x \<le> new" "unat new < unat ?x + 2048" "unat new mod 2048 = 0"
    using sector_up_ge [of ?x] big by (auto simp: new_def)
  show "P - A + 8 + length initrd \<le> unat new" "unat new mod 2048 = 0" "unat new < P - A + 8 + length initrd + 2048"
    using new x by (simp_all add: word_le_nat_alt)
  show "unat (2048 + new) = 2048 + unat new" "unat (2048 + (?p - le32_at exe 0x18)) = 2048 + (P - A)"
    using new x big d unat_add_small [of 2048 new] unat_add_small [of 2048 "?p - le32_at exe 0x18"] by simp_all
qed

lemma le32_at_slice: "le32_at bs i = le32_at (take 4 (drop i bs)) 0" if "i + 4 \<le> length bs"
  using that by (simp add: le32_at_def)

lemma addpsexe_cases:
  assumes "addpsexe_initrd alloc exe initrd arg4 = Inr img" "packs exe initrd arg4"
  defines "A \<equiv> unat (le32_at exe 0x18)" and "T \<equiv> unat (le32_at exe 0x1C)" and "P \<equiv> unat (initrd_at exe arg4)"
  obtains new where "2048 + T \<le> length exe" "take 8 exe = s2b ''PS-X EXE''" "P - A + 8 + length initrd \<le> unat new" "unat new mod 2048 = 0"
    "unat new < P - A + 8 + length initrd + 2048"
    "img = overlay (overlay (overlay (overlay (overlay (replicate (2048 + unat new) 0) 0 (take 2048 exe)) 0x1C (le32_encode new))
       2048 (take T (drop 2048 exe))) (2048 + (P - A)) (le32_encode INITRD_MAGIC @ le32_encode (of_nat (length initrd))))
       (2048 + (P - A) + 8) initrd"
proof -
  let ?new = "sector_up (le32_at exe 0x1C + (initrd_at exe arg4 - exe_end exe) + 8 + of_nat (length initrd))"
  note z = packs_sizes [OF assms(2), folded A_def T_def P_def]
  have "length exe < 2 ^ 32"
    using assms(2) by (simp add: packs_def)
  then have l: "unat (of_nat (length exe) :: u32) = length exe"
    by (simp add: unat_of_nat take_bit_nat_eq_self)
  show ?thesis
  proof (rule that [of ?new])
    show "2048 + T \<le> length exe" "take 8 exe = s2b ''PS-X EXE''"
      using assms(1) by (auto simp: addpsexe_initrd_def Let_def l T_def split: if_splits)
    show "P - A + 8 + length initrd \<le> unat ?new" "unat ?new mod 2048 = 0" "unat ?new < P - A + 8 + length initrd + 2048"
      by (rule z)+
    show "img = overlay (overlay (overlay (overlay (overlay (replicate (2048 + unat ?new) 0) 0 (take 2048 exe)) 0x1C (le32_encode ?new))
       2048 (take T (drop 2048 exe))) (2048 + (P - A)) (le32_encode INITRD_MAGIC @ le32_encode (of_nat (length initrd))))
       (2048 + (P - A) + 8) initrd"
      using assms(1) z(3,5,6) by (auto simp: addpsexe_initrd_def Let_def l T_def bind_tool_Inr copy_to_Inr split: if_splits)
  qed
qed

lemma nested_slices:
  fixes exe body hd initrd z :: "u8 list" and N d :: nat
  defines "o2 \<equiv> overlay (overlay (replicate (2048 + N) 0) 0 (take 2048 exe)) 0x1C z"
  defines "o4 \<equiv> overlay (overlay o2 2048 body) (2048 + d) hd"
  defines "img \<equiv> overlay o4 (2048 + d + length hd) initrd"
  assumes "2048 \<le> length exe" "length z = 4" "length body \<le> d" "d + length hd + length initrd \<le> N"
  shows "length img = 2048 + N" "take 4 (drop 0x1C img) = z"
    "k + i \<le> 0x1C \<or> 0x20 \<le> k \<and> k + i \<le> 2048 \<Longrightarrow> take i (drop k img) = take i (drop k exe)"
    "take (length body) (drop 2048 img) = body" "take (length hd) (drop (2048 + d) img) = hd"
    "take (length initrd) (drop (2048 + d + length hd) img) = initrd"
proof -
  have len: "length o2 = 2048 + N" "length (overlay o2 2048 body) = 2048 + N" "length o4 = 2048 + N"
    using assms(4-) by (simp_all add: o2_def o4_def)
  show "length img = 2048 + N"
    using assms(7) by (simp add: img_def len)
  have s4: "take i (drop k img) = take i (drop k o4)" if "k + i \<le> 2048 + d + length hd" for i k
    using that assms(7) unfolding img_def by (intro slice_overlay_other) (auto simp: len)
  have s3: "take i (drop k img) = take i (drop k (overlay o2 2048 body))" if "k + i \<le> 2048 + d" for i k
    using that assms(7) s4 [of k i] unfolding o4_def by (simp add: slice_overlay_other len)
  have s2: "take i (drop k img) = take i (drop k o2)" if "k + i \<le> 2048" for i k
    using that assms(6,7) s3 [of k i] by (simp add: slice_overlay_other len)
  show "take 4 (drop 0x1C img) = z"
    using s2 [of "0x1C" 4] assms(4,5) slice_overlay [of "0x1C" z "overlay (replicate (2048 + N) 0) 0 (take 2048 exe)"] by (simp add: o2_def)
  show "take i (drop k img) = take i (drop k exe)" if "k + i \<le> 0x1C \<or> 0x20 \<le> k \<and> k + i \<le> 2048" for i k
  proof -
    have "take i (drop k o2) = take i (drop k (overlay (replicate (2048 + N) 0) 0 (take 2048 exe)))"
      using that assms(4,5) unfolding o2_def by (intro slice_overlay_other) auto
    also have "\<dots> = take i (drop k (take 2048 exe))"
      using that assms(4) by (auto simp: overlay_def)
    finally show ?thesis
      using s2 [of k i] that by (auto simp: drop_take min_def)
  qed
  show "take (length body) (drop 2048 img) = body"
    using s3 [of 2048 "length body"] slice_overlay [of 2048 body o2] assms(6,7) by (simp add: len)
  show "take (length hd) (drop (2048 + d) img) = hd"
    using s4 [of "2048 + d" "length hd"] slice_overlay [of "2048 + d" hd "overlay o2 2048 body"] assms(7) by (simp add: o4_def len)
  show "take (length initrd) (drop (2048 + d + length hd) img) = initrd"
    using slice_overlay [of "2048 + d + length hd" initrd o4] assms(7) by (simp add: img_def len)
qed

lemma addpsexe_layout:
  assumes "addpsexe_initrd alloc exe initrd arg4 = Inr img" "packs exe initrd arg4"
  defines "A \<equiv> unat (le32_at exe 0x18)" and "T \<equiv> unat (le32_at exe 0x1C)" and "P \<equiv> unat (initrd_at exe arg4)"
  shows "length img = 2048 + unat (le32_at img 0x1C)" "take 8 img = s2b ''PS-X EXE''"
    "le32_at img 0x10 = le32_at exe 0x10" "le32_at img 0x18 = le32_at exe 0x18"
    "A + T \<le> P" "P - A + 8 + length initrd \<le> unat (le32_at img 0x1C)" "unat (le32_at img 0x1C) mod 2048 = 0"
    "take T (drop 2048 img) = take T (drop 2048 exe)"
    "take 8 (drop (2048 + (P - A)) img) = le32_encode INITRD_MAGIC @ le32_encode (of_nat (length initrd))"
    "take (length initrd) (drop (2048 + (P - A) + 8) img) = initrd"
    "unat (le32_at img 0x1C) < P - A + 8 + length initrd + 2048"
proof -
  show AP: "A + T \<le> P"
    using packs_sizes(1) [OF assms(2)] by (simp add: A_def T_def P_def)
  let ?h = "le32_encode INITRD_MAGIC @ le32_encode (of_nat (length initrd))"
  obtain new where n: "2048 + T \<le> length exe" "take 8 exe = s2b ''PS-X EXE''" "P - A + 8 + length initrd \<le> unat new" "unat new mod 2048 = 0"
      "unat new < P - A + 8 + length initrd + 2048"
    and img: "img = overlay (overlay (overlay (overlay (overlay (replicate (2048 + unat new) 0) 0 (take 2048 exe)) 0x1C (le32_encode new))
       2048 (take T (drop 2048 exe))) (2048 + (P - A)) ?h) (2048 + (P - A) + length ?h) initrd"
    using addpsexe_cases [OF assms(1,2), folded A_def T_def P_def] by simp metis
  have f: "length (take T (drop 2048 exe)) = T" "length ?h = 8" "2048 \<le> length exe"
    using n(1) by simp_all
  note sl = nested_slices [of exe "le32_encode new" "take T (drop 2048 exe)" "P - A" ?h initrd "unat new", folded img, unfolded f(1,2)]
  have l: "length img = 2048 + unat new" and new: "take 4 (drop 0x1C img) = le32_encode new"
    using sl(1,2) AP n(1,3) by simp_all
  have hd: "take i (drop k img) = take i (drop k exe)" if "k + i \<le> 0x1C" for i k
    using sl(3) [of k i] AP n(1,3) that by simp
  have sz: "le32_at img 0x1C = new"
    using le32_at_slice [of "0x1C" img] l new by simp
  show "length img = 2048 + unat (le32_at img 0x1C)" "P - A + 8 + length initrd \<le> unat (le32_at img 0x1C)" "unat (le32_at img 0x1C) mod 2048 = 0"
      "unat (le32_at img 0x1C) < P - A + 8 + length initrd + 2048"
    using l sz n by simp_all
  show "take 8 img = s2b ''PS-X EXE''"
    using hd [of 0 8] n(2) by simp
  show "le32_at img 0x10 = le32_at exe 0x10" "le32_at img 0x18 = le32_at exe 0x18"
    using le32_at_slice [of "0x10" img] le32_at_slice [of "0x10" exe] le32_at_slice [of "0x18" img] le32_at_slice [of "0x18" exe]
      hd [of "0x10" 4] hd [of "0x18" 4] l n(1) by simp_all
  show "take T (drop 2048 img) = take T (drop 2048 exe)" "take 8 (drop (2048 + (P - A)) img) = ?h"
      "take (length initrd) (drop (2048 + (P - A) + 8) img) = initrd"
    using sl(4-6) AP n(1,3) by simp_all
qed

section \<open>From the linker to the mounted ram disk\<close>

lemma phys_TO_KSEG0: "phys (TO_KSEG0 a) = phys a"
  by (simp add: phys_def TO_KSEG0_def bit.conj_disj_distrib2)

lemma mask_31: "mask 31 = (0x7FFFFFFF :: u32)"
  by (simp add: mask_eq_exp_minus_1)

lemma unat_TO_KSEG0: "unat a < 2 ^ 31 \<Longrightarrow> unat (TO_KSEG0 a) = 2 ^ 31 + unat a"
proof -
  assume a: "unat a < 2 ^ 31"
  then have "take_bit 31 a = a"
    by (simp add: word_unat_eq_iff unsigned_take_bit_eq take_bit_nat_eq_self)
  then have "a AND 0x80000000 = (a AND 0x7FFFFFFF) AND 0x80000000"
    by (simp only: take_bit_eq_mask mask_31)
  then have "a AND 0x80000000 = 0"
    by (simp only: and.assoc) simp
  then have "a OR 0x80000000 = a + 0x80000000"
    by (simp add: disjunctive_add_eq_or)
  then show ?thesis
    using a unat_add_small [of a "0x80000000"] by (simp add: TO_KSEG0_def word_less_nat_alt)
qed

lemma get_bytes_phys: "phys a = phys b \<Longrightarrow> get_bytes m a n = get_bytes m b n"
  by (rule nth_equalityI) (simp_all, metis phys_add)

lemma get_bytes_slice: "get_bytes m a N = bs \<Longrightarrow> k + n \<le> N \<Longrightarrow> get_bytes m (a + of_nat k) n = take n (drop k bs)"
  using get_bytes_add [of m a k "N - k"] get_bytes_add [of m "a + of_nat k" n "N - k - n"] by auto

lemma scan_end_le:
  "end_addr s \<le> e \<Longrightarrow> \<forall>ph\<in>set phs. loads ph \<longrightarrow> p_vaddr ph + p_filesz ph \<le> e \<Longrightarrow> end_addr (fold scan_phdr phs s) \<le> e"
  by (induction phs arbitrary: s) (auto simp: scan_phdr_bounds)

lemma scan_load:
  "load_addr (fold scan_phdr phs s) = load_addr s \<or> (\<exists>ph\<in>set phs. loads ph \<and> load_addr (fold scan_phdr phs s) = p_vaddr ph)"
proof (induction phs arbitrary: s)
  case (Cons ph phs)
  show ?case
    using Cons.IH [of "scan_phdr ph s"] by (auto simp: scan_phdr_bounds min_def split: if_splits)
qed simp

text \<open>
  A linked kernel: its segments do not overlap and end, like the padded image,
  below \<^verbatim>\<open>_end\<close>.
\<close>

definition kernel_elf :: "u8 list \<Rightarrow> u32 \<Rightarrow> bool" where
  "kernel_elf elf kend \<longleftrightarrow> sorted_wrt apart (elf_phdrs elf) \<and>
     (\<forall>ph\<in>set (elf_phdrs elf). loads ph \<longrightarrow> unat (p_vaddr ph) + unat (p_filesz ph) \<le> unat kend) \<and>
     unat (load_addr (elf_scan_of elf)) + unat (sector_up (end_addr (elf_scan_of elf) - load_addr (elf_scan_of elf))) \<le> unat kend"

lemma kernel_elf_small:
  assumes "kernel_elf elf kend" "unat kend \<le> 2 ^ 27"
  shows "image_small elf"
proof -
  let ?s = "elf_scan_of elf"
  have seg: "unat (p_vaddr ph + p_filesz ph) = unat (p_vaddr ph) + unat (p_filesz ph)" "unat (p_vaddr ph) + unat (p_filesz ph) \<le> unat kend"
    if "ph \<in> set (elf_phdrs elf)" "loads ph" for ph
    using that assms by (auto simp: kernel_elf_def intro!: unat_add_small)
  have "end_addr ?s \<le> kend"
    by (rule scan_end_le) (use seg in \<open>auto simp: scan_start_def word_le_nat_alt\<close>)
  moreover have "load_addr ?s \<noteq> 0xFFFFFFFF"
    using assms by (auto simp: kernel_elf_def)
  then obtain ph where ph: "ph \<in> set (elf_phdrs elf)" "loads ph" "load_addr ?s = p_vaddr ph"
    using scan_load [of "elf_phdrs elf" scan_start] by (auto simp: scan_start_def)
  have "unat (load_addr ?s) \<le> unat (end_addr ?s)"
    using scan_bounds [of "elf_phdrs elf" scan_start] ph seg(1) [OF ph(1,2)] by (auto simp: word_le_nat_alt)
  ultimately show ?thesis
    using assms(2) by (simp add: image_small_def unat_sub word_le_nat_alt)
qed

lemma page_unique:
  "(a + 8) mod 4096 = (b + 8) mod (4096 :: nat) \<Longrightarrow> k \<le> b \<Longrightarrow> b < k + 4096 \<Longrightarrow> k \<le> a \<Longrightarrow> a < k + 4096 \<Longrightarrow> a = b"
proof (induction a b rule: linorder_wlog)
  case (le a b)
  obtain q where "b + 8 = a + 8 + 4096 * q"
    using mod_eq_nat1E [of "b + 8" 4096 "a + 8"] le by (metis add_le_mono1)
  then show ?case
    using le by (cases q) simp_all
next
  case (sym a b)
  then show ?case
    by metis
qed

lemma header_kseg0:
  assumes "4096 \<le> unat kend" "unat kend \<le> 2 ^ 27"
  shows "unat (initrd_header_addr (TO_KSEG0 kend)) = 2 ^ 31 + unat (initrd_header_addr kend)"
proof -
  let ?a = "unat (initrd_header_addr (TO_KSEG0 kend))" and ?b = "unat (initrd_header_addr kend)"
  have k: "unat (TO_KSEG0 kend) = 2 ^ 31 + unat kend"
    using unat_TO_KSEG0 [of kend] assms by simp
  have "2 ^ 31 + unat kend \<le> ?a" "?a < 2 ^ 31 + unat kend + 4096" "(?a + 8) mod 4096 = 0"
    using initrd_header_nat [of "TO_KSEG0 kend"] k assms by simp_all
  moreover have "unat kend \<le> ?b" "?b < unat kend + 4096" "(?b + 8) mod 4096 = 0"
    using initrd_header_nat [of kend] assms by simp_all
  moreover have "(2 ^ 31 + ?b + 8) mod 4096 = (?b + 8) mod 4096"
    using mod_mult_self1 [of "?b + 8" 524288 4096] by (simp add: ac_simps)
  ultimately have "(?a + 8) mod 4096 = (2 ^ 31 + ?b + 8) mod 4096" "2 ^ 31 + unat kend \<le> 2 ^ 31 + ?b" "2 ^ 31 + ?b < 2 ^ 31 + unat kend + 4096"
      "2 ^ 31 + unat kend \<le> ?a" "?a < 2 ^ 31 + unat kend + 4096"
    by simp_all
  then show ?thesis
    by (rule page_unique)
qed

text \<open>Where the tools put the ram disk, relative to the load address.\<close>

lemma packed_place:
  assumes "elf2psexe alloc arg3 elf = Inr exe" "kernel_elf elf kend" "4096 \<le> unat kend" "unat kend + length initrd \<le> 2 ^ 28" "unat kend \<le> 2 ^ 27"
  defines "la \<equiv> load_addr (elf_scan_of elf)"
  shows "packs exe initrd (Some kend)" "unat (le32_at exe 0x18) = 2 ^ 31 + unat la" "unat la + unat (le32_at exe 0x1C) \<le> unat kend"
    "unat (initrd_at exe (Some kend)) = 2 ^ 31 + unat (initrd_header_addr kend)"
proof -
  note p = elf2psexe_parse [OF assms(1) kernel_elf_small [OF assms(2,5)]]
  have la: "unat la + unat (le32_at exe 0x1C) \<le> unat kend"
    using assms(2) p(5) by (simp add: kernel_elf_def la_def)
  then show "unat la + unat (le32_at exe 0x1C) \<le> unat kend" .
  have k: "unat (TO_KSEG0 la) = 2 ^ 31 + unat la" "unat (TO_KSEG0 kend) = 2 ^ 31 + unat kend"
    using la assms(5) unat_TO_KSEG0 [of la] unat_TO_KSEG0 [of kend] by simp_all
  then show t: "unat (le32_at exe 0x18) = 2 ^ 31 + unat la"
    using p(4) by (simp add: la_def)
  have e: "unat (exe_end exe) = 2 ^ 31 + unat la + unat (le32_at exe 0x1C)"
    using t la assms(5) unat_add_small [of "le32_at exe 0x18" "le32_at exe 0x1C"] by simp
  have "(if kend < 0x80000000 then kend OR 0x80000000 else kend) = TO_KSEG0 kend"
    by (simp add: TO_KSEG0_def)
  moreover have "exe_end exe \<le> TO_KSEG0 kend"
    using e k la by (simp add: word_le_nat_alt)
  ultimately have ke: "kernel_end_of (exe_end exe) (Some kend) = TO_KSEG0 kend"
    by (auto simp: kernel_end_of_def Let_def)
  show "packs exe initrd (Some kend)"
    unfolding packs_def ke using p(1) t la k assms(3-5) by simp
  show "unat (initrd_at exe (Some kend)) = 2 ^ 31 + unat (initrd_header_addr kend)"
    unfolding ke initrd_offset_same using header_kseg0 assms(3,5) by simp
qed

lemma loaded_at:
  assumes "get_bytes m a N = bs" "phys a = phys la" "unat la \<le> unat x" "unat x - unat la + n \<le> N"
  shows "get_bytes m x n = take n (drop (unat x - unat la) bs)"
proof -
  have "x = la + of_nat (unat x - unat la)"
    using assms(3) by (simp add: of_nat_diff)
  then have "phys x = phys (a + of_nat (unat x - unat la))"
    by (metis assms(2) phys_add)
  then show ?thesis
    using get_bytes_slice [OF assms(1,4)] get_bytes_phys by metis
qed

lemma packed_parse:
  assumes "addpsexe_initrd alloc exe initrd arg4 = Inr img" "packs exe initrd arg4" "psexe_parse img = Some u"
  shows "up_pc0 u = le32_at exe 0x10" "up_addr u = le32_at exe 0x18" "up_payload u = drop 2048 img" "length (up_payload u) = unat (le32_at img 0x1C)"
  using assms(3) addpsexe_layout(1,3,4) [OF assms(1,2)] by (auto simp: psexe_parse_def Let_def split: if_splits)

lemma slice_of_prefix:
  assumes "take T xs = take T ys" "k + n \<le> T"
  shows "take n (drop k xs) = take n (drop k ys)"
proof -
  have "take n (drop k zs) = take n (drop k (take T zs))" for zs :: "'a list"
    using assms(2) by (simp add: drop_take min_def)
  then show ?thesis
    using assms(1) by metis
qed

lemma addpsexe_succeeds:
  assumes "packs exe initrd arg4" "take 8 exe = s2b ''PS-X EXE''" "2048 + unat (le32_at exe 0x1C) \<le> length exe" "\<And>n. alloc n"
  shows "\<exists>img. addpsexe_initrd alloc exe initrd arg4 = Inr img"
proof -
  have l: "unat (of_nat (length exe) :: u32) = length exe"
    using assms(1) by (simp add: packs_def unat_of_nat take_bit_nat_eq_self)
  show ?thesis
    using assms(2-4) packs_sizes(1,3-6) [OF assms(1)] by (auto simp: addpsexe_initrd_def Let_def l copy_to_def)
qed

lemma packed_memory:
  assumes "elf2psexe alloc arg3 elf = Inr exe" "addpsexe_initrd alloc exe initrd (Some kend) = Inr img" "psexe_parse img = Some u"
    and "get_bytes m (up_addr u) (length (up_payload u)) = up_payload u"
    and "kernel_elf elf kend" "4096 \<le> unat kend" "unat kend \<le> 2 ^ 27" "unat kend + length initrd \<le> 2 ^ 28"
  defines "la \<equiv> unat (load_addr (elf_scan_of elf))" and "h \<equiv> unat (initrd_header_addr kend)"
  shows "la \<le> unat x \<Longrightarrow> unat x - la + n \<le> unat (le32_at img 0x1C) \<Longrightarrow> get_bytes m x n = take n (drop (2048 + (unat x - la)) img)"
    "la + unat (le32_at exe 0x1C) \<le> h" "h - la + 8 + length initrd \<le> unat (le32_at img 0x1C)"
    "take (unat (le32_at exe 0x1C)) (drop 2048 img) = take (unat (le32_at exe 0x1C)) (drop 2048 exe)"
    "take 8 (drop (2048 + (h - la)) img) = le32_encode INITRD_MAGIC @ le32_encode (of_nat (length initrd))"
    "take (length initrd) (drop (2048 + (h - la) + 8) img) = initrd"
    "up_pc0 u = TO_KSEG0 (e_entry (elfhdr_of elf))"
proof -
  note p = elf2psexe_parse [OF assms(1) kernel_elf_small [OF assms(5,7)]] and q = packed_place [OF assms(1,5,6,8,7)]
  note u = packed_parse [OF assms(2) q(1) assms(3)]
  have "phys (up_addr u) = phys (load_addr (elf_scan_of elf))"
    unfolding u(2) p(4) by (rule phys_TO_KSEG0)
  note at = loaded_at [OF assms(4) this, folded la_def, unfolded u(3)]
  show "get_bytes m x n = take n (drop (2048 + (unat x - la)) img)" if "la \<le> unat x" "unat x - la + n \<le> unat (le32_at img 0x1C)"
    using at [OF that(1), of n] that(2) u(3,4) by (simp add: add.commute)
  note l = addpsexe_layout [OF assms(2) q(1), unfolded q(2,4), folded la_def h_def]
  show "la + unat (le32_at exe 0x1C) \<le> h" "h - la + 8 + length initrd \<le> unat (le32_at img 0x1C)"
      "take (unat (le32_at exe 0x1C)) (drop 2048 img) = take (unat (le32_at exe 0x1C)) (drop 2048 exe)"
      "take 8 (drop (2048 + (h - la)) img) = le32_encode INITRD_MAGIC @ le32_encode (of_nat (length initrd))"
      "take (length initrd) (drop (2048 + (h - la) + 8) img) = initrd"
    using l(5,6,8-10) by simp_all
  show "up_pc0 u = TO_KSEG0 (e_entry (elfhdr_of elf))"
    using u(1) p(3) by simp
qed

lemma packed_segment:
  assumes "elf2psexe alloc arg3 elf = Inr exe" "addpsexe_initrd alloc exe initrd (Some kend) = Inr img" "psexe_parse img = Some u"
    and "get_bytes m (up_addr u) (length (up_payload u)) = up_payload u"
    and "kernel_elf elf kend" "4096 \<le> unat kend" "unat kend \<le> 2 ^ 27" "unat kend + length initrd \<le> 2 ^ 28"
    and ph: "ph \<in> set (elf_phdrs elf)" "loads ph"
  shows "get_bytes m (p_vaddr ph) (length (seg_bytes elf ph)) = seg_bytes elf ph"
proof -
  let ?n = "length (seg_bytes elf ph)" and ?k = "unat (p_vaddr ph) - unat (load_addr (elf_scan_of elf))"
  note pm = packed_memory [OF assms(1-8)]
  have nw: "\<forall>ph\<in>set (elf_phdrs elf). loads ph \<longrightarrow> unat (p_vaddr ph) + unat (p_filesz ph) < 2 ^ 32" and ap: "sorted_wrt apart (elf_phdrs elf)"
    using assms(5,7) by (auto simp: kernel_elf_def)
  note g = elf2psexe_segments [OF assms(1) kernel_elf_small [OF assms(5,7)] ap ph nw]
  have "take ?n (drop ?k (drop 2048 img)) = take ?n (drop ?k (drop 2048 exe))"
    by (rule slice_of_prefix [OF pm(4) g(3)])
  then show ?thesis
    using pm(1) [OF g(2), of ?n] g(1,3) pm(2,3) by (simp add: add.commute)
qed

lemma packed_initrd:
  assumes "elf2psexe alloc arg3 elf = Inr exe" "addpsexe_initrd alloc exe initrd (Some kend) = Inr img" "psexe_parse img = Some u"
    and "get_bytes m (up_addr u) (length (up_payload u)) = up_payload u"
    and "kernel_elf elf kend" "4096 \<le> unat kend" "unat kend \<le> 2 ^ 27" "unat kend + length initrd \<le> 2 ^ 28"
  shows "get_bytes m (initrd_header_addr kend) (8 + length initrd) = le32_encode INITRD_MAGIC @ le32_encode (of_nat (length initrd)) @ initrd"
proof -
  let ?h = "initrd_header_addr kend"
  note pm = packed_memory [OF assms]
  have "unat (?h + 8) = unat ?h + 8"
    using unat_add_small [of ?h 8] initrd_header_nat(2) [OF assms(6)] assms(7) by simp
  then show ?thesis
    using pm(1) [of ?h 8] pm(1) [of "?h + 8" "length initrd"] pm(2,3,5,6) get_bytes_add [of m ?h 8 "length initrd"] by simp
qed

text \<open>
  C4: The image tools, the loaders and the kernel agree. Take a kernel whose
  segments lie apart and whose padded image ends below \<^verbatim>\<open>_end\<close>, turn it into a PS-EXE
  with \<^verbatim>\<open>elf2psexe\<close> and append a ram disk with \<^verbatim>\<open>addpsexe_initrd\<close>, given \<^verbatim>\<open>_end\<close>. Once the payload
  is in memory where the header says, every segment's bytes are at their link
  address; the entry is the linked one in KSEG0; and when the kernel has since
  written only below \<^verbatim>\<open>_end\<close>, \<^verbatim>\<open>setup_arch\<close> finds exactly this ram disk and keeps its bytes.
\<close>

theorem packed_image_boots:
  assumes "elf2psexe alloc arg3 elf = Inr exe" "addpsexe_initrd alloc exe initrd (Some kend) = Inr img" "psexe_parse img = Some u"
    and "kernel_elf elf kend" "4096 \<le> unat kend" "unat kend \<le> unat sz" "unat (initrd_header_addr kend) + 8 + length initrd + 8192 \<le> unat sz"
    and "unat sz \<le> 2 ^ 27" "unat sz mod 4096 = 0"
    and loaded: "get_bytes m (up_addr u) (length (up_payload u)) = up_payload u"
    and ran: "\<forall>p. unat kend \<le> unat p \<longrightarrow> mk p = m p"
  shows "up_pc0 u = TO_KSEG0 (e_entry (elfhdr_of elf)) \<and>
    (\<forall>ph\<in>set (elf_phdrs elf). p_type ph = PT_LOAD \<longrightarrow> get_bytes m (p_vaddr ph) (length (seg_bytes elf ph)) = seg_bytes elf ph) \<and>
    (\<exists>bd m'. setup_arch_mem mk kend [(0, sz, 1)] =
       Some (bd, Some (initrd_header_addr kend + 8, initrd_header_addr kend + 8 + of_nat (length initrd)), m') \<and>
     get_bytes m' (initrd_header_addr kend + 8) (length initrd) = initrd)"
proof -
  let ?h = "initrd_header_addr kend" and ?N = "length initrd"
  have k: "unat kend + 8192 < 2 ^ 32" "unat kend \<le> 2 ^ 27"
    using assms(6,8) by simp_all
  note h = initrd_header_nat [OF assms(5) k(1)]
  have kN: "unat kend + ?N \<le> 2 ^ 28"
    using h assms(7,8) by simp
  note pk = assms(1-3) loaded assms(4,5) k(2) kN
  have "mk p = m p" if "p \<in> span ?h (8 + ?N)" for p
  proof -
    have "unat ?h \<le> unat p"
      using span_linear [OF _ that] assms(7,8) unat_phys_low [of ?h] by simp
    then show ?thesis
      using ran h(1) by simp
  qed
  then have "get_bytes mk ?h (8 + ?N) = get_bytes m ?h (8 + ?N)"
    by (rule get_bytes_same)
  then have mk: "get_bytes mk ?h (8 + ?N) = le32_encode INITRD_MAGIC @ le32_encode (of_nat ?N) @ initrd"
    using packed_initrd [OF pk] by simp
  have "get_bytes mk ?h 4 = le32_encode INITRD_MAGIC" "get_bytes mk (?h + 4) 4 = le32_encode (of_nat ?N)" "get_bytes mk (?h + 8) ?N = initrd"
    using get_bytes_slice [OF mk, of 0 4] get_bytes_slice [OF mk, of 4 4] get_bytes_slice [OF mk, of 8 ?N] by simp_all
  then have g: "get32 mk ?h = INITRD_MAGIC" "get32 mk (?h + 4) = of_nat ?N" "get_bytes mk (?h + 8) ?N = initrd"
    by (simp_all add: get32_def)
  have n: "unat (of_nat ?N :: u32) = ?N"
    using kN by (simp add: unat_of_nat take_bit_nat_eq_self)
  have "initrd_fits mk kend sz"
    using assms(5-9) g n by (simp add: initrd_fits_def)
  from setup_arch_initrd [OF this] show ?thesis
    using g n packed_memory(7) [OF pk] packed_segment [OF pk] by auto
qed

definition ehdr_demo :: "u8 list" where
  "ehdr_demo = [0x7f, 0x45, 0x4c, 0x46, 1, 1, 1] @ replicate 9 0 @ le16_encode 2 @ le16_encode 8 @ le32_encode 1 @ le32_encode 0x90000 @
     le32_encode 52 @ replicate 12 0 @ le16_encode 1 @ replicate 6 0"

definition kphdr_demo :: "u8 list" where
  "kphdr_demo = le32_encode 1 @ le32_encode 84 @ le32_encode 0x90000 @ le32_encode 0x90000 @ le32_encode 4 @ le32_encode 0x3000 @ le32_encode 7 @ le32_encode 0"

definition kernel_demo :: "u8 list" where
  "kernel_demo = ehdr_demo @ kphdr_demo @ [0x27, 0xbd, 0xff, 0xe8]"

lemma kernel_demo_hdr:
  "elfhdr_of (ehdr_demo @ x) = \<lparr>e_ident = [0x7f, 0x45, 0x4c, 0x46, 1, 1, 1] @ replicate 9 0, e_type = 2, e_machine = 8, e_entry = 0x90000,
     e_phoff = 52, e_phnum = 1\<rparr>" "length ehdr_demo = 52" "length kphdr_demo = 32"
  by (simp_all add: elfhdr_of_def ehdr_demo_def kphdr_demo_def le16_at_def le32_at_def le16_encode_def le32_encode_def le16_decode_def le32_decode_def
    nth_append nth_Cons')

lemma kernel_demo_phdr:
  "Elf32_Phdr_of (kphdr_demo @ x) 0 = \<lparr>p_type = 1, p_offset = 84, p_vaddr = 0x90000, p_filesz = 4, p_memsz = 0x3000, p_flags = 7\<rparr>"
  by (simp add: Elf32_Phdr_of_def elf_phdr.defs phdr_of_def kphdr_demo_def le32_at_append2)

lemma kernel_demo:
  "elfhdr_of kernel_demo = \<lparr>e_ident = [0x7f, 0x45, 0x4c, 0x46, 1, 1, 1] @ replicate 9 0, e_type = 2, e_machine = 8, e_entry = 0x90000, e_phoff = 52, e_phnum = 1\<rparr>"
  "length kernel_demo = 88"
  "elf_phdrs kernel_demo = [\<lparr>p_type = 1, p_offset = 84, p_vaddr = 0x90000, p_filesz = 4, p_memsz = 0x3000, p_flags = 7\<rparr>]"
  by (simp_all add: kernel_demo_def kernel_demo_hdr elf_phdrs_def kernel_demo_phdr)

lemma kernel_demo_code: "take 4 (drop 84 kernel_demo) = [0x27, 0xbd, 0xff, 0xe8]"
  by (simp add: kernel_demo_def kernel_demo_hdr)

lemma kernel_demo_scan:
  "load_addr (elf_scan_of kernel_demo) = 0x90000" "end_addr (elf_scan_of kernel_demo) = 0x90004" "sector_up 4 = 0x800"
  by (simp_all add: kernel_demo scan_phdr_bounds scan_start_def sector_up_def)

lemma kernel_demo_elf: "kernel_elf kernel_demo 0x93000"
  unfolding kernel_elf_def kernel_demo_scan by (simp add: kernel_demo kernel_demo_scan(3))

lemma kernel_demo_exe: "\<exists>exe. elf2psexe (\<lambda>_. True) None kernel_demo = Inr exe"
  unfolding elf2psexe_def Let_def kernel_demo_scan by (simp add: kernel_demo kernel_demo_scan(3) kernel_demo_code copy_to_def)

lemma initrd_header_addr_demo: "initrd_header_addr 0x93000 = 0x93FF8"
  by (simp add: initrd_header_addr_def)

theorem packed_image_boots_witness:
  "\<exists>exe img u. elf2psexe (\<lambda>_. True) None kernel_demo = Inr exe \<and> addpsexe_initrd (\<lambda>_. True) exe [1, 2, 3] (Some 0x93000) = Inr img \<and>
     psexe_parse img = Some u \<and> up_pc0 u = 0x80090000 \<and>
     (\<exists>bd m'. setup_arch_mem (put_bytes (up_addr u) (up_payload u) (\<lambda>_. 0xAA)) 0x93000 [(0, 0x1D0000, 1)] = Some (bd, Some (0x94000, 0x94003), m') \<and>
        get_bytes m' 0x94000 3 = [1, 2, 3])"
proof -
  obtain exe where exe: "elf2psexe (\<lambda>_. True) None kernel_demo = Inr exe"
    using kernel_demo_exe by auto
  note sm = kernel_elf_small [OF kernel_demo_elf]
  have pk: "packs exe [1, 2, 3] (Some 0x93000)"
    by (rule packed_place(1) [OF exe kernel_demo_elf]) simp_all
  obtain img where img: "addpsexe_initrd (\<lambda>_. True) exe [1, 2, 3] (Some 0x93000) = Inr img"
    using addpsexe_succeeds [OF pk, of "\<lambda>_. True"] elf2psexe_parse(1,2) [OF exe sm] by auto
  note l = addpsexe_layout(1-2) [OF img pk]
  then obtain u where u: "psexe_parse img = Some u"
    by (auto simp: psexe_parse_def Let_def)
  let ?m = "put_bytes (up_addr u) (up_payload u) (\<lambda>_. 0xAA)"
  have "unat (le32_at img 0x1C) \<le> 2 ^ 29"
    using addpsexe_layout(11) [OF img pk] initrd_header_addr_demo packed_place(2,4) [OF exe kernel_demo_elf, of "[1, 2, 3]"] kernel_demo_scan by simp
  then have "get_bytes ?m (up_addr u) (length (up_payload u)) = up_payload u"
    using packed_parse(4) [OF img pk u] by (intro get_put_bytes) simp_all
  then show ?thesis
    using packed_image_boots [OF exe img u kernel_demo_elf, where sz = "0x1D0000" and m = ?m and mk = ?m] exe img u
    by (simp add: kernel_demo TO_KSEG0_def initrd_header_addr_demo numeral_3_eq_3)
qed

text \<open>
  When the rounding to whole sectors carries the image past \<^verbatim>\<open>_end\<close> the two
  calculations part: the tool starts from the end of the image, the kernel from
  \<^verbatim>\<open>_end\<close>, and the disk is a page further on than where the kernel looks.
\<close>

lemma initrd_missed_after_padding:
  "initrd_offset_of (kernel_end_of 0x80091000 (Some 0x90FF0)) = TO_KSEG0 (initrd_header_addr 0x90FF0) + 4096"
  by (simp add: initrd_offset_of_def kernel_end_of_def initrd_header_addr_def TO_KSEG0_def Let_def)

end
