(* ===== verification/Tty.thy ===== *)
theory Tty
  imports Prelude
begin

text \<open>
  The flip buffer between a serial driver and its line discipline
  (\<^verbatim>\<open>include/linux/tty_flip.h\<close>, \<^verbatim>\<open>drivers/char/tty_io.c\<close>): two halves of 512
  characters with their flags, filled by the interrupt handler and handed over as
  a whole. \<open>received\<close> is what \<^verbatim>\<open>receive_buf\<close> of the line discipline was given so far.
\<close>

section \<open>The two halves\<close>

abbreviation (input) TTY_FLIPBUF_SIZE :: nat where "TTY_FLIPBUF_SIZE \<equiv> 512"
abbreviation (input) TTY_FRAME :: u8 where "TTY_FRAME \<equiv> 2"
abbreviation (input) TTY_PARITY :: u8 where "TTY_PARITY \<equiv> 3"
abbreviation (input) TTY_OVERRUN :: u8 where "TTY_OVERRUN \<equiv> 4"

record tty =
  char_buf :: "u8 list"
  flag_buf :: "u8 list"
  char_ptr :: nat
  flag_ptr :: nat
  flip_count :: nat
  buf_num :: nat
  low_latency :: bool
  dont_flip :: bool
  flip_queued :: nat
  received :: "(u8 \<times> u8) list"

definition initialize_tty :: tty where
  "initialize_tty = \<lparr>char_buf = replicate (2 * TTY_FLIPBUF_SIZE) 0, flag_buf = replicate (2 * TTY_FLIPBUF_SIZE) 0, char_ptr = 0, flag_ptr = 0,
     flip_count = 0, buf_num = 0, low_latency = False, dont_flip = False, flip_queued = 0, received = []\<rparr>"

definition tty_insert_flip_char :: "u8 \<Rightarrow> u8 \<Rightarrow> tty \<Rightarrow> tty" where
  "tty_insert_flip_char ch flag t =
    (if flip_count t < TTY_FLIPBUF_SIZE
     then t\<lparr>flip_count := flip_count t + 1, flag_buf := (flag_buf t)[flag_ptr t := flag], flag_ptr := flag_ptr t + 1,
            char_buf := (char_buf t)[char_ptr t := ch], char_ptr := char_ptr t + 1\<rparr>
     else t)"

definition flush_to_ldisc :: "tty \<Rightarrow> tty" where
  "flush_to_ldisc t =
    (if dont_flip t then t\<lparr>flip_queued := flip_queued t + 1\<rparr>
     else let (cp, n) = (if buf_num t \<noteq> 0 then (TTY_FLIPBUF_SIZE, 0) else (0, 1));
              ptr = (if buf_num t \<noteq> 0 then 0 else TTY_FLIPBUF_SIZE);
              count = flip_count t
          in t\<lparr>buf_num := n, char_ptr := ptr, flag_ptr := ptr, flip_count := 0,
               received := received t @ zip (take count (drop cp (char_buf t))) (take count (drop cp (flag_buf t)))\<rparr>)"

definition tty_flip_buffer_push :: "tty \<Rightarrow> tty" where
  "tty_flip_buffer_push t = (if low_latency t then flush_to_ldisc t else t\<lparr>flip_queued := flip_queued t + 1\<rparr>)"

section \<open>A bounded queue\<close>

text \<open>
  What the halves amount to: a queue of at most 512 characters in front of the
  line discipline; a character that finds it full is dropped.
\<close>

definition tty_ok :: "tty \<Rightarrow> bool" where
  "tty_ok t \<longleftrightarrow> length (char_buf t) = 1024 \<and> length (flag_buf t) = 1024 \<and> flip_count t \<le> 512 \<and> buf_num t \<le> 1 \<and>
     char_ptr t = 512 * buf_num t + flip_count t \<and> flag_ptr t = char_ptr t"

definition tty_queue :: "tty \<Rightarrow> (u8 \<times> u8) list" where
  "tty_queue t = zip (take (flip_count t) (drop (512 * buf_num t) (char_buf t))) (take (flip_count t) (drop (512 * buf_num t) (flag_buf t)))"

datatype tty_op = Insert u8 u8 | Flush

definition tty_step :: "tty_op \<Rightarrow> tty \<Rightarrow> tty option" where
  "tty_step c t = Some (case c of Insert ch flag \<Rightarrow> tty_insert_flip_char ch flag t | Flush \<Rightarrow> flush_to_ldisc t)"

definition queue_spec :: "tty_op \<Rightarrow> (u8 \<times> u8) list \<times> (u8 \<times> u8) list \<Rightarrow> (u8 \<times> u8) list \<times> (u8 \<times> u8) list" where
  "queue_spec c q = (case (c, q) of
     (Insert ch flag, q, out) \<Rightarrow> (if length q < 512 then (q @ [(ch, flag)], out) else (q, out))
   | (Flush, q, out) \<Rightarrow> ([], out @ q))"

definition tty_view :: "tty \<Rightarrow> (u8 \<times> u8) list \<times> (u8 \<times> u8) list" where
  "tty_view t = (tty_queue t, received t)"

lemma length_tty_queue: "tty_ok t \<Longrightarrow> length (tty_queue t) = flip_count t"
  by (auto simp: tty_ok_def tty_queue_def le_Suc_eq)

lemma take_update_last:
  "k + n < length xs \<Longrightarrow> take (Suc n) (drop k (xs[k + n := v])) = take n (drop k xs) @ [v]"
  by (simp add: take_Suc_conv_app_nth drop_update_swap)

lemma insert_sim:
  assumes "tty_ok t"
  shows "tty_ok (tty_insert_flip_char ch flag t)" "tty_view (tty_insert_flip_char ch flag t) = queue_spec (Insert ch flag) (tty_view t)"
proof -
  show "tty_ok (tty_insert_flip_char ch flag t)"
    using assms by (auto simp: tty_ok_def tty_insert_flip_char_def)
  show "tty_view (tty_insert_flip_char ch flag t) = queue_spec (Insert ch flag) (tty_view t)"
  proof (cases "flip_count t < 512")
    case True
    have b: "512 * buf_num t + flip_count t < 1024"
      using assms True by (auto simp: tty_ok_def)
    then have "take (Suc (flip_count t)) (drop (512 * buf_num t) ((char_buf t)[512 * buf_num t + flip_count t := ch])) =
          take (flip_count t) (drop (512 * buf_num t) (char_buf t)) @ [ch]"
        "take (Suc (flip_count t)) (drop (512 * buf_num t) ((flag_buf t)[512 * buf_num t + flip_count t := flag])) =
          take (flip_count t) (drop (512 * buf_num t) (flag_buf t)) @ [flag]"
      using assms by (intro take_update_last; simp add: tty_ok_def)+
    then show ?thesis
      using assms True b length_tty_queue [OF assms]
      by (simp add: tty_view_def queue_spec_def tty_queue_def tty_insert_flip_char_def tty_ok_def)
  qed (use length_tty_queue [OF assms] in \<open>simp add: tty_view_def queue_spec_def tty_queue_def tty_insert_flip_char_def\<close>)
qed

lemma flush_sim:
  assumes "tty_ok t" "\<not> dont_flip t"
  shows "tty_ok (flush_to_ldisc t)" "tty_view (flush_to_ldisc t) = queue_spec Flush (tty_view t)"
  using assms by (auto simp: tty_ok_def flush_to_ldisc_def tty_view_def queue_spec_def tty_queue_def le_Suc_eq Let_def)

lemma dont_flip_same [simp]:
  "dont_flip (tty_insert_flip_char ch flag t) = dont_flip t" "dont_flip (flush_to_ldisc t) = dont_flip t"
  by (auto simp: tty_insert_flip_char_def flush_to_ldisc_def Let_def split: prod.splits)

interpretation flipq: forward_sim "\<lambda>t. tty_ok t \<and> \<not> dont_flip t" tty_view tty_step "\<lambda>_ _. True" queue_spec
proof
  show "\<exists>s'. tty_step c s = Some s' \<and> (tty_ok s' \<and> \<not> dont_flip s') \<and> tty_view s' = queue_spec c (tty_view s)"
    if "tty_ok s \<and> \<not> dont_flip s" for c s
    using that insert_sim [of s] flush_sim [of s] by (cases c) (auto simp: tty_step_def)
qed

text \<open>
  C18: The flip buffer is a queue. For any sequence of characters put in by an
  interrupt handler and hand-overs to the line discipline, the two halves, their
  pointers and counts behave as one queue of at most 512 characters: nothing is
  reordered, duplicated or lost but the characters that find it full.
\<close>

theorem flip_buffer_refines:
  "\<exists>t. flipq.run cs initialize_tty = Some t \<and> tty_ok t \<and> tty_view t = fold queue_spec cs ([], [])"
proof -
  have "tty_ok initialize_tty" "\<not> dont_flip initialize_tty" "tty_view initialize_tty = ([], [])"
    by (simp_all add: tty_ok_def tty_view_def tty_queue_def initialize_tty_def)
  moreover have "flipq.allowed_seq cs q" for q
    by (induction cs arbitrary: q) simp_all
  ultimately show ?thesis
    using flipq.run_sim [of initialize_tty cs] by auto
qed

end
