(* ===== verification/PsIrq.thy ===== *)
theory PsIrq
  imports Bus Settings
begin

text \<open>
  The interrupt layer of the console: the tables \<^verbatim>\<open>psx_init\<close> fills
  (\<^verbatim>\<open>arch/mipsnommu/ps/setup.c\<close>), the priority search of \<^verbatim>\<open>ps/int-handler.S\<close> and the
  registration and dispatch of \<^verbatim>\<open>ps/irq.c\<close>. Handlers are arbitrary functions on
  the state, named by a number as a C function pointer would be; 0 is the null
  pointer. The list of a line is read when its dispatch starts.
\<close>

section \<open>State\<close>

record irqaction =
  ia_handler :: nat
  ia_flags :: u32
  ia_mask :: u32
  ia_name :: cstr
  ia_dev_id :: u32

text \<open>
  \<open>after_tbl\<close> is whatever the linker put behind the two tables; \<open>rand_log\<close> records
  the calls into the random driver, newest first.
\<close>

datatype rand_call = Rand_initialize nat | Rand_interrupt nat

record irqs = hw +
  cpu_mask_tbl :: "u32 list"
  cpu_irq_nr :: "u32 list"
  after_tbl :: "nat \<Rightarrow> u32"
  irq_action :: "irqaction list list"
  kstat_irqs :: "u32 list"
  irq_count :: u32
  ie :: bool
  rand_log :: "rand_call list"
  cp0_irq_enable :: bool

abbreviation (input) INT_ACKN_PORT :: u32 where "INT_ACKN_PORT \<equiv> 0x1f801070"
abbreviation (input) INT_MASK_PORT :: u32 where "INT_MASK_PORT \<equiv> 0x1f801074"
abbreviation (input) SA_SAMPLE_RANDOM :: u32 where "SA_SAMPLE_RANDOM \<equiv> 0x10000000"
abbreviation (input) SA_INTERRUPT :: u32 where "SA_INTERRUPT \<equiv> 0x20000000"
abbreviation (input) SA_SHIRQ :: u32 where "SA_SHIRQ \<equiv> 0x02000000"
abbreviation (input) EBUSY :: int where "EBUSY \<equiv> 16"
abbreviation (input) EINVAL :: int where "EINVAL \<equiv> 22"

abbreviation (input) NR_INTS :: nat where "NR_INTS \<equiv> 11"

text \<open>The numbers of the interrupt sources and their bits, \<^verbatim>\<open>asm/ps/interrupts.h\<close>.\<close>

definition irq_sources :: "(nat \<times> u32) list" where
  "irq_sources = [(7, 0x001), (6, 0x002), (10, 0x004), (3, 0x008), (4, 0x010), (5, 0x020), (0, 0x040), (1, 0x080), (8, 0x100), (9, 0x200), (2, 0x400)]"

definition psx_init :: "'a irqs_scheme \<Rightarrow> 'a irqs_scheme" where
  "psx_init s = fold (\<lambda>(n, b) s. s\<lparr>cpu_mask_tbl := (cpu_mask_tbl s)[n := b], cpu_irq_nr := (cpu_irq_nr s)[n := of_nat n]\<rparr>) irq_sources s"

definition ps_irq_setup :: "'a irqs_scheme \<Rightarrow> 'a irqs_scheme" where
  "ps_irq_setup s = (out16 INT_MASK_PORT 0 (psx_init s))\<lparr>cp0_irq_enable := True\<rparr>"

text \<open>
  \<^verbatim>\<open>cpu_mask_tbl[n]\<close>: the assembly file lays out the masks, their end marker, the
  numbers and the number of interrupts one after the other.
\<close>

definition cpu_mask :: "'a irqs_scheme \<Rightarrow> nat \<Rightarrow> u32" where
  "cpu_mask s n =
    (let words = cpu_mask_tbl s @ [0x0000ffff] @ cpu_irq_nr s @ [of_nat NR_INTS] in
     if n < length words then words ! n else after_tbl s n)"

section \<open>Masking\<close>

definition mask_irq :: "nat \<Rightarrow> 'a irqs_scheme \<Rightarrow> 'a irqs_scheme" where
  "mask_irq irq_nr s = (let (mask, s) = in16 INT_MASK_PORT s in out16 INT_MASK_PORT (mask AND NOT (ucast (cpu_mask s irq_nr AND 0x7ff))) s)"

definition unmask_irq :: "nat \<Rightarrow> 'a irqs_scheme \<Rightarrow> 'a irqs_scheme" where
  "unmask_irq irq_nr s = (let (mask, s) = in16 INT_MASK_PORT s in out16 INT_MASK_PORT (mask OR ucast (cpu_mask s irq_nr AND 0x7ff)) s)"

text \<open>\<^verbatim>\<open>save_and_cli\<close> around an update, \<^verbatim>\<open>restore_flags\<close> behind it.\<close>

definition irq_off :: "('a irqs_scheme \<Rightarrow> 'a irqs_scheme) \<Rightarrow> 'a irqs_scheme \<Rightarrow> 'a irqs_scheme" where
  "irq_off f s = (let flags = ie s; s = f (s\<lparr>ie := False\<rparr>) in s\<lparr>ie := flags\<rparr>)"

definition disable_irq :: "nat \<Rightarrow> 'a irqs_scheme \<Rightarrow> 'a irqs_scheme" where
  "disable_irq irq_nr = irq_off (mask_irq irq_nr)"

definition enable_irq :: "nat \<Rightarrow> 'a irqs_scheme \<Rightarrow> 'a irqs_scheme" where
  "enable_irq irq_nr = irq_off (unmask_irq irq_nr)"

section \<open>Registration\<close>

definition setup_ps_irq :: "nat \<Rightarrow> irqaction \<Rightarrow> 'a irqs_scheme \<Rightarrow> int \<times> 'a irqs_scheme" where
  "setup_ps_irq irq new s =
    (let acts = irq_action s ! irq in
     if acts \<noteq> [] \<and> ia_flags (hd acts) AND ia_flags new AND SA_SHIRQ = 0 then (- EBUSY, s)
     else if acts \<noteq> [] \<and> (ia_flags (hd acts) XOR ia_flags new) AND SA_INTERRUPT \<noteq> 0 then (- EBUSY, s)
     else let s = (if ia_flags new AND SA_SAMPLE_RANDOM \<noteq> 0 then s\<lparr>rand_log := Rand_initialize irq # rand_log s\<rparr> else s);
              s = irq_off (\<lambda>s. let s = s\<lparr>irq_action := (irq_action s)[irq := acts @ [new]]\<rparr> in if acts = [] then unmask_irq irq s else s) s
          in (0, s))"

definition request_irq :: "bool \<Rightarrow> nat \<Rightarrow> nat \<Rightarrow> u32 \<Rightarrow> cstr \<Rightarrow> u32 \<Rightarrow> 'a irqs_scheme \<Rightarrow> int \<times> 'a irqs_scheme" where
  "request_irq kmalloc_ok irq hdl irqflags devname dev s =
    (if irq \<ge> 32 then (- EINVAL, s)
     else if hdl = 0 then (- EINVAL, s)
     else if \<not> kmalloc_ok then (- 12, s)
     else setup_ps_irq irq \<lparr>ia_handler = hdl, ia_flags = irqflags, ia_mask = 0, ia_name = devname, ia_dev_id = dev\<rparr> s)"

text \<open>
  The first action with the device's identity is unlinked. A number from 32 to 39
  passes the check but is outside \<open>irq_action\<close>: the result \<open>None\<close>.
\<close>

definition free_irq :: "nat \<Rightarrow> u32 \<Rightarrow> 'a irqs_scheme \<Rightarrow> 'a irqs_scheme option" where
  "free_irq irq dev s =
    (if irq > 39 then Some s
     else if irq \<ge> 32 then None
     else let acts = irq_action s ! irq in
          if \<exists>a\<in>set acts. ia_dev_id a = dev
          then Some (irq_off (\<lambda>s.
                 let s = s\<lparr>irq_action := (irq_action s)[irq := takeWhile (\<lambda>a. ia_dev_id a \<noteq> dev) acts @ tl (dropWhile (\<lambda>a. ia_dev_id a \<noteq> dev) acts)]\<rparr>
                 in if irq_action s ! irq = [] then mask_irq irq s else s) s)
          else Some s)"

section \<open>Dispatch\<close>

text \<open>How a dispatch ends: back to the interrupted code, or in \<^verbatim>\<open>panic\<close>.\<close>

datatype 's irq_end = Returned 's | Panicked 's

type_synonym 'a handlers = "nat \<Rightarrow> nat \<Rightarrow> u32 \<Rightarrow> 'a irqs_scheme \<Rightarrow> 'a irqs_scheme"

fun run_actions :: "'a handlers \<Rightarrow> nat \<Rightarrow> irqaction list \<Rightarrow> u32 \<Rightarrow> 'a irqs_scheme \<Rightarrow> u32 \<times> 'a irqs_scheme" where
  "run_actions hs irq [] do_random s = (do_random, s)"
| "run_actions hs irq (a # as) do_random s = run_actions hs irq as (do_random OR ia_flags a) (hs (ia_handler a) irq (ia_dev_id a) s)"

definition do_IRQ :: "'a handlers \<Rightarrow> nat \<Rightarrow> 'a irqs_scheme \<Rightarrow> 'a irqs_scheme irq_end" where
  "do_IRQ hs irq s =
    (let s = s\<lparr>irq_count := irq_count s + 1\<rparr>;
         s = s\<lparr>kstat_irqs := (kstat_irqs s)[irq := kstat_irqs s ! irq + 1]\<rparr>;
         s = out16 INT_ACKN_PORT (NOT (ucast (cpu_mask s irq))) s;
         s = mask_irq irq s;
         acts = irq_action s ! irq in
     if acts \<noteq> []
     then let s = (if ia_flags (hd acts) AND SA_INTERRUPT = 0 then s\<lparr>ie := True\<rparr> else s);
              (do_random, s) = run_actions hs irq (irq_action s ! irq) 0 s;
              s = (if do_random AND SA_SAMPLE_RANDOM \<noteq> 0 then s\<lparr>rand_log := Rand_interrupt irq # rand_log s\<rparr> else s);
              s = s\<lparr>ie := False\<rparr>;
              s = unmask_irq irq s
          in Returned (s\<lparr>irq_count := irq_count s - 1\<rparr>)
     else let (ackn, s) = in16 INT_ACKN_PORT s;
              (mask, s) = in16 INT_MASK_PORT s
          in Panicked s)"

text \<open>The search of \<^verbatim>\<open>playstation_handle_int\<close> through the two tables.\<close>

fun find_irq :: "u32 \<Rightarrow> u32 list \<Rightarrow> u32 list \<Rightarrow> u32 option" where
  "find_irq pend (m # ms) (n # ns) = (if pend AND m = 0 then find_irq pend ms ns else Some n)"
| "find_irq pend _ _ = None"

definition playstation_handle_int :: "'a handlers \<Rightarrow> 'a irqs_scheme \<Rightarrow> 'a irqs_scheme irq_end" where
  "playstation_handle_int hs s =
    (let s = s\<lparr>ie := False\<rparr>;
         (stat, s) = in32 INT_ACKN_PORT s;
         (mask, s) = in32 INT_MASK_PORT s in
     case find_irq (stat AND mask) (cpu_mask_tbl s) (cpu_irq_nr s) of
       None \<Rightarrow> let (a1, s) = in32 INT_ACKN_PORT s in Panicked s
     | Some n \<Rightarrow> do_IRQ hs (unat n) s)"

text \<open>\<^verbatim>\<open>/proc/interrupts\<close>.\<close>

definition pad_left :: "nat \<Rightarrow> cstr \<Rightarrow> cstr" where
  "pad_left n s = replicate (n - length s) 32 @ s"

definition dec_int :: "int \<Rightarrow> cstr" where
  "dec_int i = (if i < 0 then 45 # dec (nat (- i)) else dec (nat i))"

fun irq_names :: "irqaction list \<Rightarrow> cstr" where
  "irq_names [] = []"
| "irq_names (a # as) = s2b '','' @ (if ia_flags a AND SA_INTERRUPT \<noteq> 0 then s2b '' +'' else []) @ s2b '' '' @ ia_name a @ irq_names as"

definition irq_line :: "'a irqs_scheme \<Rightarrow> nat \<Rightarrow> cstr" where
  "irq_line s i =
    (case irq_action s ! i of
       [] \<Rightarrow> []
     | a # as \<Rightarrow> pad_left 2 (dec i) @ s2b '': '' @ pad_left 8 (dec_int (sint (kstat_irqs s ! i))) @ s2b '' '' @
         (if ia_flags a AND SA_INTERRUPT \<noteq> 0 then s2b ''+'' else s2b '' '') @ s2b '' '' @ ia_name a @ irq_names as @ [10])"

definition get_irq_list :: "'a irqs_scheme \<Rightarrow> cstr" where
  "get_irq_list s = concat (map (irq_line s) [0..<32])"

section \<open>The mask register\<close>

text \<open>
  What the hardware documentation says of I_MASK: it reads back the last value
  written, and \<open>m0\<close> before the first write.
\<close>

definition int_mask_register :: "(bus_trace \<Rightarrow> u32 \<Rightarrow> u32) \<Rightarrow> u32 \<Rightarrow> bool" where
  "int_mask_register env m0 \<longleftrightarrow> (\<forall>t. env t INT_MASK_PORT = last (m0 # writes INT_MASK_PORT t))"

abbreviation (input) int_mask :: "'a irqs_scheme \<Rightarrow> u16" where
  "int_mask s \<equiv> ucast (hw_env s (hw_trace s) INT_MASK_PORT)"

text \<open>The bit of a source, and whether it is enabled.\<close>

definition irq_bit :: "nat \<Rightarrow> nat" where
  "irq_bit i = [6, 7, 10, 3, 4, 5, 1, 0, 8, 9, 2] ! i"

definition psx_tables :: "'a irqs_scheme \<Rightarrow> bool" where
  "psx_tables s \<longleftrightarrow> cpu_mask_tbl s = map (\<lambda>i. 2 ^ irq_bit i) [0..<11] \<and> cpu_irq_nr s = map of_nat [0..<11]"

lemma psx_init_tables: "length (cpu_mask_tbl s) = 11 \<Longrightarrow> length (cpu_irq_nr s) = 11 \<Longrightarrow> psx_tables (psx_init s)"
proof -
  assume l: "length (cpu_mask_tbl s) = 11" "length (cpu_irq_nr s) = 11"
  have e: "\<exists>a b c d e f g h i j k. xs = [a, b, c, d, e, f, g, h, i, j, k]" if "length xs = 11" for xs :: "u32 list"
    using that by (simp add: numeral_eq_Suc length_Suc_conv) blast
  show ?thesis
    using e [OF l(1)] e [OF l(2)] by (auto simp: psx_init_def irq_sources_def psx_tables_def irq_bit_def upt_rec)
qed

lemma less_11: "i < (11 :: nat) \<Longrightarrow> i \<in> {0, 1, 2, 3, 4, 5, 6, 7, 8, 9, 10}"
  by (simp add: less_Suc_eq eval_nat_numeral)

lemma irq_bit_less: "i < 11 \<Longrightarrow> irq_bit i < 11"
  using less_11 [of i] by (auto simp: irq_bit_def)

lemma irq_bit_inj: "i < 11 \<Longrightarrow> j < 11 \<Longrightarrow> irq_bit i = irq_bit j \<longleftrightarrow> i = j"
  using less_11 [of i] less_11 [of j] by (auto simp: irq_bit_def)

lemma cpu_mask_source: "psx_tables s \<Longrightarrow> i < 11 \<Longrightarrow> cpu_mask s i = 2 ^ irq_bit i"
  by (simp add: cpu_mask_def psx_tables_def nth_append)

lemma cpu_mask_16: "psx_tables s \<Longrightarrow> i < 11 \<Longrightarrow> ucast (cpu_mask s i AND 0x7ff) = (2 ^ irq_bit i :: u16)"
proof -
  assume "psx_tables s" "i < 11"
  moreover have "ucast (2 ^ irq_bit i AND 0x7ff :: u32) = (2 ^ irq_bit i :: u16)"
    using less_11 [OF \<open>i < 11\<close>] by (auto simp: irq_bit_def)
  ultimately show ?thesis
    by (simp add: cpu_mask_source)
qed

lemma emit_irqs [simp]:
  "cpu_mask_tbl (emit e s) = cpu_mask_tbl s" "cpu_irq_nr (emit e s) = cpu_irq_nr s" "after_tbl (emit e s) = after_tbl s"
  "irq_action (emit e s) = irq_action s" "kstat_irqs (emit e s) = kstat_irqs s" "irq_count (emit e s) = irq_count s"
  "ie (emit e s) = ie s" "rand_log (emit e s) = rand_log s" "cpu_mask (emit e s) = cpu_mask s"
  by (auto simp: emit_def cpu_mask_def)

lemma mask_irq_mask:
  assumes "int_mask_register (hw_env s) m0" "psx_tables s" "i < 11" "k < 16"
  shows "bit (int_mask (mask_irq i s)) k \<longleftrightarrow> bit (int_mask s) k \<and> k \<noteq> irq_bit i"
    "bit (int_mask (unmask_irq i s)) k \<longleftrightarrow> bit (int_mask s) k \<or> k = irq_bit i"
  using assms(1,4) cpu_mask_16 [OF assms(2,3)]
  by (auto simp: mask_irq_def unmask_irq_def bus_defs int_mask_register_def bit_simps)

section \<open>Enabled means registered\<close>

text \<open>The actions of a line with more than one all agreed to share it and are of one kind.\<close>

definition shares :: "irqaction list \<Rightarrow> bool" where
  "shares acts \<longleftrightarrow> length acts \<le> 1 \<or>
     (\<forall>a\<in>set acts. ia_flags a AND SA_SHIRQ \<noteq> 0 \<and> ia_flags a AND SA_INTERRUPT = ia_flags (hd acts) AND SA_INTERRUPT)"

definition irq_inv :: "u32 \<Rightarrow> 'a irqs_scheme \<Rightarrow> bool" where
  "irq_inv m0 s \<longleftrightarrow> int_mask_register (hw_env s) m0 \<and> psx_tables s \<and> length (irq_action s) = 32 \<and> length (kstat_irqs s) = 32 \<and>
     (\<forall>i<11. bit (int_mask s) (irq_bit i) \<longleftrightarrow> irq_action s ! i \<noteq> []) \<and> (\<forall>i<32. shares (irq_action s ! i))"

lemma shares_Nil [simp]: "shares []"
  by (simp add: shares_def)

lemma and_xor_0: "(x XOR y) AND m = 0 \<longleftrightarrow> x AND m = y AND (m :: u32)"
proof -
  have "(x XOR y) AND m = (x AND m) XOR (y AND m)"
    by (simp add: bit.conj_xor_distrib2)
  moreover have "x AND m = ((x AND m) XOR (y AND m)) XOR (y AND m)"
    by (simp only: xor.assoc xor_self_eq xor.right_neutral)
  ultimately show ?thesis
    by auto
qed

lemma and_and_nonzero: "x AND y AND m \<noteq> 0 \<Longrightarrow> x AND m \<noteq> 0 \<and> y AND (m :: u32) \<noteq> 0"
  using and.left_commute [of x y m] by auto

lemma shares_snoc:
  assumes "shares acts" "acts \<noteq> [] \<Longrightarrow> ia_flags (hd acts) AND ia_flags new AND SA_SHIRQ \<noteq> 0"
    and "acts \<noteq> [] \<Longrightarrow> (ia_flags (hd acts) XOR ia_flags new) AND SA_INTERRUPT = 0"
  shows "shares (acts @ [new])"
proof (cases acts)
  case (Cons a as)
  then have "ia_flags a AND SA_SHIRQ \<noteq> 0" "ia_flags new AND SA_SHIRQ \<noteq> 0" "ia_flags a AND SA_INTERRUPT = ia_flags new AND SA_INTERRUPT"
    using and_and_nonzero [OF assms(2)] assms(3) unfolding and_xor_0 by simp_all
  then show ?thesis
    using assms(1) Cons by (cases as) (auto simp: shares_def)
qed (simp add: shares_def)

lemma set_tl_subset: "set (tl xs) \<subseteq> set xs"
  by (cases xs) auto

lemma shares_unlink: "shares acts \<Longrightarrow> shares (takeWhile P acts @ tl (dropWhile P acts))"
proof (cases "length acts \<le> 1")
  case True
  then show ?thesis
    by (cases acts) (auto simp: shares_def)
next
  case False
  let ?u = "takeWhile P acts @ tl (dropWhile P acts)"
  assume "shares acts"
  then have all: "ia_flags a AND SA_SHIRQ \<noteq> 0" "ia_flags a AND SA_INTERRUPT = ia_flags (hd acts) AND SA_INTERRUPT" if "a \<in> set acts" for a
    using that False by (auto simp: shares_def)
  have sub: "set ?u \<subseteq> set acts"
    using set_tl_subset [of "dropWhile P acts"] by (auto dest: set_takeWhileD set_dropWhileD)
  show ?thesis
  proof (cases "?u = []")
    case False
    then have "hd ?u \<in> set acts"
      using sub hd_in_set by blast
    then show ?thesis
      using sub all by (auto simp: shares_def simp del: set_append)
  qed (simp add: shares_def)
qed

lemma mask_irq_fields [simp]:
  "hw_env (mask_irq i s) = hw_env s" "hw_env (unmask_irq i s) = hw_env s"
  "cpu_mask_tbl (mask_irq i s) = cpu_mask_tbl s" "cpu_mask_tbl (unmask_irq i s) = cpu_mask_tbl s"
  "cpu_irq_nr (mask_irq i s) = cpu_irq_nr s" "cpu_irq_nr (unmask_irq i s) = cpu_irq_nr s"
  "irq_action (mask_irq i s) = irq_action s" "irq_action (unmask_irq i s) = irq_action s"
  "kstat_irqs (mask_irq i s) = kstat_irqs s" "kstat_irqs (unmask_irq i s) = kstat_irqs s"
  "irq_count (mask_irq i s) = irq_count s" "irq_count (unmask_irq i s) = irq_count s"
  "ie (mask_irq i s) = ie s" "ie (unmask_irq i s) = ie s"
  "psx_tables (mask_irq i s) = psx_tables s" "psx_tables (unmask_irq i s) = psx_tables s"
  by (simp_all add: mask_irq_def unmask_irq_def bus_defs psx_tables_def)

lemma psx_tables_upd [simp]:
  "psx_tables (s\<lparr>ie := b\<rparr>) = psx_tables s" "psx_tables (s\<lparr>irq_action := a\<rparr>) = psx_tables s" "psx_tables (s\<lparr>rand_log := r\<rparr>) = psx_tables s"
  "psx_tables (s\<lparr>irq_count := c\<rparr>) = psx_tables s" "psx_tables (s\<lparr>kstat_irqs := k\<rparr>) = psx_tables s" "psx_tables (emit e s) = psx_tables s"
  by (simp_all add: psx_tables_def)

lemma irq_bit_16: "i < 11 \<Longrightarrow> irq_bit i < 16"
  using irq_bit_less [of i] by simp

lemma setup_ps_irq_inv:
  assumes "irq_inv m0 s" "irq < 11"
  shows "irq_inv m0 (snd (setup_ps_irq irq new s))"
proof -
  let ?a = "irq_action s ! irq"
  have i: "int_mask_register (hw_env s) m0" "psx_tables s" "length (irq_action s) = 32" "length (kstat_irqs s) = 32" "shares ?a"
      "\<forall>i<11. bit (int_mask s) (irq_bit i) \<longleftrightarrow> irq_action s ! i \<noteq> []" "\<forall>i<32. shares (irq_action s ! i)"
    using assms by (auto simp: irq_inv_def)
  have m: "bit (ucast (hw_env s (hw_trace (unmask_irq irq t)) INT_MASK_PORT) :: u16) (irq_bit k) \<longleftrightarrow> bit (int_mask t) (irq_bit k) \<or> k = irq"
    if "hw_env t = hw_env s" "psx_tables t" "k < 11" for t k
    using mask_irq_mask(2) [of t m0 irq "irq_bit k"] i(1) that assms(2) irq_bit_16 [of k] irq_bit_inj [of k irq] by simp
  show ?thesis
    using i shares_snoc [OF i(5), of new] assms(2)
    by (auto simp: setup_ps_irq_def irq_off_def Let_def irq_inv_def nth_list_update m)
qed

lemma free_irq_inv:
  assumes "irq_inv m0 s" "irq < 11" "free_irq irq dev s = Some s'"
  shows "irq_inv m0 s'"
proof -
  let ?a = "irq_action s ! irq"
  have i: "int_mask_register (hw_env s) m0" "psx_tables s" "length (irq_action s) = 32" "length (kstat_irqs s) = 32" "shares ?a"
      "\<forall>i<11. bit (int_mask s) (irq_bit i) \<longleftrightarrow> irq_action s ! i \<noteq> []" "\<forall>i<32. shares (irq_action s ! i)"
    using assms by (auto simp: irq_inv_def)
  have m: "bit (ucast (hw_env s (hw_trace (mask_irq irq t)) INT_MASK_PORT) :: u16) (irq_bit k) \<longleftrightarrow> bit (int_mask t) (irq_bit k) \<and> k \<noteq> irq"
    if "hw_env t = hw_env s" "psx_tables t" "k < 11" for t k
    using mask_irq_mask(1) [of t m0 irq "irq_bit k"] i(1) that assms(2) irq_bit_16 [of k] irq_bit_inj [of k irq] by simp
  show ?thesis
    using i shares_unlink [OF i(5)] assms(2,3)
    by (auto simp: free_irq_def irq_off_def Let_def irq_inv_def nth_list_update m split: if_splits)
qed

section \<open>Dispatch\<close>

text \<open>
  What is asked of a handler: it talks to its own device, not to I_MASK, and leaves
  the tables of this layer alone.
\<close>

definition keeps_irqs :: "'a irqs_scheme \<Rightarrow> 'a irqs_scheme \<Rightarrow> bool" where
  "keeps_irqs s s' \<longleftrightarrow> (\<exists>es. hw_trace s' = es @ hw_trace s \<and> (\<forall>e\<in>set es. \<not> wr_in {INT_MASK_PORT} e)) \<and> hw_env s' = hw_env s \<and>
     cpu_mask_tbl s' = cpu_mask_tbl s \<and> cpu_irq_nr s' = cpu_irq_nr s \<and> irq_action s' = irq_action s \<and> kstat_irqs s' = kstat_irqs s \<and>
     irq_count s' = irq_count s"

definition tame :: "'a handlers \<Rightarrow> bool" where
  "tame hs \<longleftrightarrow> (\<forall>h i d s. keeps_irqs s (hs h i d s))"

lemma keeps_irqs_refl [simp]: "keeps_irqs s s"
  by (simp add: keeps_irqs_def)

lemma keeps_irqs_trans:
  assumes "keeps_irqs s s'" "keeps_irqs s' s''"
  shows "keeps_irqs s s''"
proof -
  obtain es where es: "hw_trace s' = es @ hw_trace s" "\<forall>e\<in>set es. \<not> wr_in {INT_MASK_PORT} e"
    using assms(1) by (auto simp: keeps_irqs_def)
  obtain es' where es': "hw_trace s'' = es' @ hw_trace s'" "\<forall>e\<in>set es'. \<not> wr_in {INT_MASK_PORT} e"
    using assms(2) by (auto simp: keeps_irqs_def)
  have "\<exists>es. hw_trace s'' = es @ hw_trace s \<and> (\<forall>e\<in>set es. \<not> wr_in {INT_MASK_PORT} e)"
    using es es' by (intro exI [of _ "es' @ es"]) auto
  then show ?thesis
    using assms by (simp add: keeps_irqs_def)
qed

lemma keeps_irqs_emit: "keeps_irqs s s' \<Longrightarrow> \<not> wr_in {INT_MASK_PORT} e \<Longrightarrow> keeps_irqs s (emit e s')"
  by (rule keeps_irqs_trans) (auto simp: keeps_irqs_def intro: exI [of _ "[e]"])

definition same_irqs :: "'a irqs_scheme \<Rightarrow> 'a irqs_scheme \<Rightarrow> bool" where
  "same_irqs s s' \<longleftrightarrow> writes INT_MASK_PORT (hw_trace s') = writes INT_MASK_PORT (hw_trace s) \<and> hw_env s' = hw_env s \<and>
     cpu_mask_tbl s' = cpu_mask_tbl s \<and> cpu_irq_nr s' = cpu_irq_nr s \<and> irq_action s' = irq_action s \<and> kstat_irqs s' = kstat_irqs s \<and>
     irq_count s' = irq_count s"

lemma same_irqs_trans: "same_irqs s s' \<Longrightarrow> same_irqs s' s'' \<Longrightarrow> same_irqs s s''"
  by (simp add: same_irqs_def)

lemma keeps_same: "keeps_irqs s s' \<Longrightarrow> same_irqs s s'"
  unfolding keeps_irqs_def same_irqs_def by (metis writes_none writes_append append_Nil2)

lemma tame_same: "tame hs \<Longrightarrow> same_irqs s (hs h i d s)"
  by (rule keeps_same) (simp add: tame_def)

lemma run_actions_same: "tame hs \<Longrightarrow> same_irqs s (snd (run_actions hs irq as r s))"
proof (induction as arbitrary: r s)
  case (Cons a as)
  then show ?case
    using same_irqs_trans tame_same by fastforce
qed (simp add: same_irqs_def)

lemma same_irqs_mask: "same_irqs s s' \<Longrightarrow> int_mask_register (hw_env s) m0 \<Longrightarrow> int_mask s' = int_mask s"
  by (simp add: same_irqs_def int_mask_register_def)

lemma irq_inv_keeps: "irq_inv m0 s \<Longrightarrow> keeps_irqs s s' \<Longrightarrow> irq_inv m0 s'"
  using same_irqs_mask [OF keeps_same, of s s' m0] by (auto simp: irq_inv_def keeps_irqs_def psx_tables_def)

lemma find_irq_first:
  assumes "\<exists>i<length ms. pend AND ms ! i \<noteq> 0" "length ns = length ms"
  shows "\<exists>i<length ms. find_irq pend ms ns = Some (ns ! i) \<and> pend AND ms ! i \<noteq> 0 \<and> (\<forall>j<i. pend AND ms ! j = 0)"
  using assms
proof (induction ms arbitrary: ns)
  case (Cons m ms)
  obtain n ns' where ns: "ns = n # ns'"
    using Cons.prems(2) by (cases ns) auto
  show ?case
  proof (cases "pend AND m = 0")
    case True
    then have "\<exists>i<length ms. pend AND ms ! i \<noteq> 0"
      using Cons.prems(1) by (metis length_Cons less_Suc_eq_0_disj nth_Cons_0 nth_Cons_Suc)
    then obtain i where i: "i < length ms" "find_irq pend ms ns' = Some (ns' ! i)" "pend AND ms ! i \<noteq> 0" "\<forall>j<i. pend AND ms ! j = 0"
      using Cons.IH [of ns'] Cons.prems(2) ns by auto
    then show ?thesis
      using True ns by (intro exI [of _ "Suc i"]) (auto simp: nth_Cons split: nat.splits)
  qed (use ns in auto)
qed simp

text \<open>A source is pending when both registers have its bit.\<close>

definition pending :: "'a irqs_scheme \<Rightarrow> nat \<Rightarrow> bool" where
  "pending s i \<longleftrightarrow> bit (hw_env s (hw_trace s) INT_ACKN_PORT) (irq_bit i) \<and> bit (int_mask s) (irq_bit i)"

lemma and_exp_nonzero: "(x :: u32) AND 2 ^ n \<noteq> 0 \<longleftrightarrow> bit x n"
  by (simp add: bit_iff_and_push_bit_not_eq_0 push_bit_eq_mult)

text \<open>The state in which the handlers of a line start.\<close>

definition irq_entered :: "nat \<Rightarrow> 'a irqs_scheme \<Rightarrow> 'a irqs_scheme" where
  "irq_entered irq s =
    (let s = s\<lparr>irq_count := irq_count s + 1, kstat_irqs := (kstat_irqs s)[irq := kstat_irqs s ! irq + 1]\<rparr>;
         s = mask_irq irq (out16 INT_ACKN_PORT (NOT (ucast (cpu_mask s irq))) s)
     in if ia_flags (hd (irq_action s ! irq)) AND SA_INTERRUPT = 0 then s\<lparr>ie := True\<rparr> else s)"

lemma do_IRQ_eq:
  assumes "irq_action s ! irq \<noteq> []"
  shows "do_IRQ hs irq s =
    (let (r, s') = run_actions hs irq (irq_action s ! irq) 0 (irq_entered irq s);
         s' = (if r AND SA_SAMPLE_RANDOM \<noteq> 0 then s'\<lparr>rand_log := Rand_interrupt irq # rand_log s'\<rparr> else s');
         s' = unmask_irq irq (s'\<lparr>ie := False\<rparr>)
     in Returned (s'\<lparr>irq_count := irq_count s' - 1\<rparr>))"
  using assms by (simp add: do_IRQ_def irq_entered_def Let_def out16_def split: prod.splits)

lemma ucast_irq_bit: "i < 11 \<Longrightarrow> ucast (2 ^ irq_bit i :: u32) = (2 ^ irq_bit i :: u16)"
  using less_11 [of i] by (auto simp: irq_bit_def)

lemma irq_entered_fields:
  assumes "int_mask_register (hw_env s) m0" "psx_tables s" "irq < 11"
  shows "hw_env (irq_entered irq s) = hw_env s" "psx_tables (irq_entered irq s)" "irq_action (irq_entered irq s) = irq_action s"
    "kstat_irqs (irq_entered irq s) = (kstat_irqs s)[irq := kstat_irqs s ! irq + 1]" "irq_count (irq_entered irq s) = irq_count s + 1"
    "k < 16 \<Longrightarrow> bit (int_mask (irq_entered irq s)) k \<longleftrightarrow> bit (int_mask s) k \<and> k \<noteq> irq_bit irq"
    "writes INT_ACKN_PORT (hw_trace (irq_entered irq s)) = writes INT_ACKN_PORT (hw_trace s) @ [ucast (NOT (2 ^ irq_bit irq) :: u16)]"
proof -
  let ?s = "s\<lparr>irq_count := irq_count s + 1, kstat_irqs := (kstat_irqs s)[irq := kstat_irqs s ! irq + 1]\<rparr>"
  let ?t = "out16 INT_ACKN_PORT (NOT (ucast (cpu_mask ?s irq))) ?s"
  show "hw_env (irq_entered irq s) = hw_env s" "psx_tables (irq_entered irq s)" "irq_action (irq_entered irq s) = irq_action s"
      "kstat_irqs (irq_entered irq s) = (kstat_irqs s)[irq := kstat_irqs s ! irq + 1]" "irq_count (irq_entered irq s) = irq_count s + 1"
    using assms(2) by (simp_all add: irq_entered_def Let_def out16_def)
  have t: "hw_env ?t = hw_env s" "psx_tables ?t" "int_mask ?t = int_mask s"
    using assms by (simp_all add: out16_def int_mask_register_def)
  show "bit (int_mask (irq_entered irq s)) k \<longleftrightarrow> bit (int_mask s) k \<and> k \<noteq> irq_bit irq" if "k < 16"
    using mask_irq_mask(1) [of ?t m0 irq k] t assms that by (simp add: irq_entered_def Let_def)
  have "cpu_mask ?s irq = 2 ^ irq_bit irq"
    using assms by (intro cpu_mask_source) simp_all
  then show "writes INT_ACKN_PORT (hw_trace (irq_entered irq s)) = writes INT_ACKN_PORT (hw_trace s) @ [ucast (NOT (2 ^ irq_bit irq) :: u16)]"
    by (simp add: irq_entered_def Let_def out16_def mask_irq_def in16_def ucast_irq_bit [OF assms(3)])
qed

lemma do_IRQ_returns:
  assumes "irq_inv m0 s" "tame hs" "irq < 11" "irq_action s ! irq \<noteq> []"
  shows "\<exists>s'. do_IRQ hs irq s = Returned s' \<and> irq_inv m0 s' \<and> int_mask s' = int_mask s \<and> irq_action s' = irq_action s \<and>
    kstat_irqs s' ! irq = kstat_irqs s ! irq + 1 \<and> irq_count s' = irq_count s \<and> \<not> ie s' \<and>
    (\<exists>es. hw_trace s' = es @ hw_trace (snd (run_actions hs irq (irq_action s ! irq) 0 (irq_entered irq s))))"
proof -
  have i: "int_mask_register (hw_env s) m0" "psx_tables s" "length (irq_action s) = 32" "length (kstat_irqs s) = 32"
      "bit (int_mask s) (irq_bit irq)" "\<forall>i<11. bit (int_mask s) (irq_bit i) \<longleftrightarrow> irq_action s ! i \<noteq> []" "\<forall>i<32. shares (irq_action s ! i)"
    using assms by (auto simp: irq_inv_def)
  note e = irq_entered_fields [OF i(1,2) assms(3)]
  obtain r s1 where r: "run_actions hs irq (irq_action s ! irq) 0 (irq_entered irq s) = (r, s1)"
    by fastforce
  then have same: "same_irqs (irq_entered irq s) s1"
    using run_actions_same [OF assms(2), of "irq_entered irq s" irq "irq_action s ! irq" 0] by simp
  let ?s2 = "if r AND SA_SAMPLE_RANDOM \<noteq> 0 then s1\<lparr>rand_log := Rand_interrupt irq # rand_log s1\<rparr> else s1"
  let ?s3 = "unmask_irq irq (?s2\<lparr>ie := False\<rparr>)"
  let ?s' = "?s3\<lparr>irq_count := irq_count ?s3 - 1\<rparr>"
  have f: "hw_env s1 = hw_env s" "psx_tables s1" "irq_action s1 = irq_action s" "kstat_irqs s1 = (kstat_irqs s)[irq := kstat_irqs s ! irq + 1]"
      "irq_count s1 = irq_count s + 1" "int_mask s1 = int_mask (irq_entered irq s)"
    using same e same_irqs_mask [OF same, of m0] i(1) by (simp_all add: same_irqs_def psx_tables_def)
  have "bit (int_mask ?s3) k \<longleftrightarrow> bit (int_mask s) k" if "k < 16" for k
    using mask_irq_mask(2) [of "?s2\<lparr>ie := False\<rparr>" m0 irq k] e(6) [OF that] f i that assms(3) by auto
  then have m: "int_mask ?s3 = int_mask s"
    by (intro bit_word_eqI) simp
  have "do_IRQ hs irq s = Returned ?s'"
    using do_IRQ_eq [OF assms(4), of hs] r by (simp add: Let_def)
  moreover have "irq_inv m0 ?s'"
    using i f m by (simp add: irq_inv_def nth_list_update)
  moreover have "\<exists>es. hw_trace ?s' = es @ hw_trace s1"
    by (auto simp: unmask_irq_def bus_defs)
  ultimately show ?thesis
    using f m i r assms(3) by (intro exI [of _ ?s']) simp
qed

text \<open>The state after the two registers were read.\<close>

definition int_seen :: "'a irqs_scheme \<Rightarrow> 'a irqs_scheme" where
  "int_seen s = s\<lparr>ie := False, hw_trace := Rd INT_MASK_PORT (hw_env s (hw_trace s) INT_MASK_PORT) #
     Rd INT_ACKN_PORT (hw_env s (hw_trace s) INT_ACKN_PORT) # hw_trace s\<rparr>"

lemma int_seen_inv:
  assumes "irq_inv m0 s"
  shows "irq_inv m0 (int_seen s)" "int_mask (int_seen s) = int_mask s" "irq_action (int_seen s) = irq_action s"
    "kstat_irqs (int_seen s) = kstat_irqs s" "writes INT_ACKN_PORT (hw_trace (int_seen s)) = writes INT_ACKN_PORT (hw_trace s)"
  using assms by (auto simp: irq_inv_def int_seen_def psx_tables_def int_mask_register_def)

lemma handle_int_choice:
  assumes "irq_inv m0 s" "\<exists>i<11. pending s i"
  shows "\<exists>n<11. pending s n \<and> (\<forall>j<n. \<not> pending s j) \<and> playstation_handle_int hs s = do_IRQ hs n (int_seen s)"
proof -
  let ?stat = "hw_env s (hw_trace s) INT_ACKN_PORT" and ?mask = "hw_env s (hw_trace s) INT_MASK_PORT"
  have i: "int_mask_register (hw_env s) m0" "psx_tables s"
    using assms(1) by (auto simp: irq_inv_def)
  have len: "length (cpu_mask_tbl s) = 11" "length (cpu_irq_nr s) = 11"
    using i(2) by (simp_all add: psx_tables_def)
  have tb: "cpu_mask_tbl s ! i = 2 ^ irq_bit i" "cpu_irq_nr s ! i = of_nat i" if "i < 11" for i
    using i(2) that by (simp_all add: psx_tables_def)
  have pb: "(?stat AND ?mask) AND cpu_mask_tbl s ! i \<noteq> 0 \<longleftrightarrow> pending s i" if "i < 11" for i
    using and_exp_nonzero [of "?stat AND ?mask" "irq_bit i"] tb(1) [OF that] irq_bit_16 [OF that] by (simp add: pending_def bit_simps)
  have "\<exists>i<length (cpu_mask_tbl s). (?stat AND ?mask) AND cpu_mask_tbl s ! i \<noteq> 0"
    using assms(2) pb unfolding len by blast
  then obtain n where n: "n < 11" "find_irq (?stat AND ?mask) (cpu_mask_tbl s) (cpu_irq_nr s) = Some (cpu_irq_nr s ! n)"
      "(?stat AND ?mask) AND cpu_mask_tbl s ! n \<noteq> 0" "\<forall>j<n. (?stat AND ?mask) AND cpu_mask_tbl s ! j = 0"
    using find_irq_first [of "cpu_mask_tbl s" "?stat AND ?mask" "cpu_irq_nr s"] unfolding len by blast
  have "\<not> pending s j" if "j < n" for j
    using n(1,4) that pb [of j] by auto
  moreover have "hw_env s (Rd INT_ACKN_PORT ?stat # hw_trace s) INT_MASK_PORT = ?mask"
    using i(1) by (simp add: int_mask_register_def)
  then have "playstation_handle_int hs s = do_IRQ hs n (int_seen s)"
    using n(1,2) tb(2) [OF n(1)]
    by (simp add: playstation_handle_int_def in32_def Let_def emit_def unat_of_nat take_bit_nat_eq_self int_seen_def)
  ultimately show ?thesis
    using n(1,3) pb [OF n(1)] by blast
qed

lemma handle_int_returns:
  assumes "irq_inv m0 s" "tame hs" "\<exists>i<11. pending s i"
  shows "\<exists>i t s'. i < 11 \<and> pending s i \<and> (\<forall>j<i. \<not> pending s j) \<and> irq_action s ! i \<noteq> [] \<and>
    playstation_handle_int hs s = Returned s' \<and> irq_inv m0 s' \<and> int_mask s' = int_mask s \<and>
    irq_action s' = irq_action s \<and> kstat_irqs s' ! i = kstat_irqs s ! i + 1 \<and>
    \<not> bit (int_mask t) (irq_bit i) \<and> writes INT_ACKN_PORT (hw_trace t) = writes INT_ACKN_PORT (hw_trace s) @ [ucast (NOT (2 ^ irq_bit i) :: u16)] \<and>
    (\<exists>es. hw_trace s' = es @ hw_trace (snd (run_actions hs i (irq_action s ! i) 0 t)))"
proof -
  obtain n where n: "n < 11" "pending s n" "\<forall>j<n. \<not> pending s j" "playstation_handle_int hs s = do_IRQ hs n (int_seen s)"
    using handle_int_choice [OF assms(1,3), of hs] by blast
  note v = int_seen_inv [OF assms(1)]
  have act: "irq_action (int_seen s) ! n \<noteq> []"
    using assms(1) n(1,2) v(3) by (simp add: irq_inv_def pending_def)
  obtain s' where s': "do_IRQ hs n (int_seen s) = Returned s'" "irq_inv m0 s'" "int_mask s' = int_mask (int_seen s)"
      "irq_action s' = irq_action (int_seen s)" "kstat_irqs s' ! n = kstat_irqs (int_seen s) ! n + 1"
      "\<exists>es. hw_trace s' = es @ hw_trace (snd (run_actions hs n (irq_action (int_seen s) ! n) 0 (irq_entered n (int_seen s))))"
    using do_IRQ_returns [OF v(1) assms(2) n(1) act] by blast
  have t: "int_mask_register (hw_env (int_seen s)) m0" "psx_tables (int_seen s)"
    using v(1) by (simp_all add: irq_inv_def)
  note e = irq_entered_fields [OF t n(1)]
  show ?thesis
    using n s' v(2-5) act e(6) [OF irq_bit_16 [OF n(1)]] e(7)
    by (intro exI [of _ n] exI [of _ "irq_entered n (int_seen s)"] exI [of _ s']) simp
qed


section \<open>Histories\<close>

datatype 'a irq_op =
    Request bool nat nat u32 cstr u32
  | Release nat u32
  | Interrupt "'a handlers"

text \<open>
  One thing that happens to this layer. Drivers name their line by a number of
  \<^verbatim>\<open>interrupts.h\<close>; a dispatch that panics is the end, so the state stays.
\<close>

definition irq_step :: "'a irq_op \<Rightarrow> 'a irqs_scheme \<Rightarrow> 'a irqs_scheme" where
  "irq_step op s =
    (case op of
       Request ok irq hdl flags name dev \<Rightarrow> if irq < NR_INTS then snd (request_irq ok irq hdl flags name dev s) else s
     | Release irq dev \<Rightarrow> if irq < NR_INTS then (case free_irq irq dev s of Some s' \<Rightarrow> s' | None \<Rightarrow> s) else s
     | Interrupt hs \<Rightarrow>
         if tame hs \<and> (\<exists>i<NR_INTS. pending s i) then (case playstation_handle_int hs s of Returned s' \<Rightarrow> s' | Panicked _ \<Rightarrow> s) else s)"

definition irq_boot :: "u32 \<Rightarrow> 'a irqs_scheme \<Rightarrow> bool" where
  "irq_boot m0 s \<longleftrightarrow> int_mask_register (hw_env s) m0 \<and> length (cpu_mask_tbl s) = 11 \<and> length (cpu_irq_nr s) = 11 \<and>
     irq_action s = replicate 32 [] \<and> length (kstat_irqs s) = 32"

lemma psx_init_fields [simp]:
  "hw_env (psx_init s) = hw_env s" "hw_trace (psx_init s) = hw_trace s" "irq_action (psx_init s) = irq_action s" "kstat_irqs (psx_init s) = kstat_irqs s"
  by (simp_all add: psx_init_def irq_sources_def)

lemma ps_irq_setup_inv: "irq_boot m0 s \<Longrightarrow> irq_inv m0 (ps_irq_setup s)"
  using psx_init_tables [of s] by (auto simp: irq_boot_def irq_inv_def ps_irq_setup_def out16_def psx_tables_def int_mask_register_def)

interpretation irqsys: step_system "\<lambda>s. \<exists>s0. irq_boot m0 s0 \<and> s = ps_irq_setup s0" irq_step "irq_inv m0"
  for m0
proof
  show "irq_inv m0 s" if "\<exists>s0. irq_boot m0 s0 \<and> s = ps_irq_setup s0" for s :: "'a irqs_scheme"
    using that ps_irq_setup_inv by blast
  show "irq_inv m0 (irq_step e s)" if inv: "irq_inv m0 s" for e and s :: "'a irqs_scheme"
  proof (cases e)
    case (Request ok irq hdl flags name dev)
    then show ?thesis
      using inv setup_ps_irq_inv by (auto simp: irq_step_def request_irq_def)
  next
    case (Release irq dev)
    then show ?thesis
      using inv free_irq_inv [OF inv] by (auto simp: irq_step_def split: option.splits)
  next
    case (Interrupt hs)
    show ?thesis
    proof (cases "tame hs \<and> (\<exists>i<11. pending s i)")
      case True
      then obtain s' where "playstation_handle_int hs s = Returned s'" "irq_inv m0 s'"
        using handle_int_returns [OF inv, of hs] by blast
      then show ?thesis
        using True Interrupt by (simp add: irq_step_def)
    qed (use inv Interrupt in \<open>auto simp: irq_step_def\<close>)
  qed
qed


section \<open>Two ways out of the invariant\<close>

lemma do_IRQ_unregistered:
  assumes "irq_action s ! irq = []"
  shows "\<exists>s'. do_IRQ hs irq s = Panicked s'"
  using assms by (simp add: do_IRQ_def Let_def out16_def split: prod.splits)

text \<open>
  \<^verbatim>\<open>request_irq\<close> accepts numbers up to 31, but the tables hold eleven: number 11 reads
  the end marker and enables every source, so the first interrupt of a source
  without a handler ends in a panic.
\<close>

theorem request_irq_past_table:
  assumes "irq_inv m0 s" "irq_action s ! 11 = []" "h \<noteq> 0"
  shows "\<exists>s'. request_irq True 11 h fl nm dev s = (0, s') \<and> (\<forall>i<11. bit (int_mask s') (irq_bit i)) \<and>
    (\<forall>i<11. irq_action s ! i = [] \<longrightarrow> (\<exists>s''. do_IRQ hs i s' = Panicked s''))"
proof -
  let ?a = "\<lparr>ia_handler = h, ia_flags = fl, ia_mask = 0, ia_name = nm, ia_dev_id = dev\<rparr>"
  let ?s = "if fl AND SA_SAMPLE_RANDOM \<noteq> 0 then s\<lparr>rand_log := Rand_initialize 11 # rand_log s\<rparr> else s"
  let ?t = "unmask_irq 11 (?s\<lparr>ie := False, irq_action := (irq_action s)[11 := [?a]]\<rparr>)"
  let ?s' = "?t\<lparr>ie := ie s\<rparr>"
  have i: "int_mask_register (hw_env s) m0" "psx_tables s"
    using assms(1) by (simp_all add: irq_inv_def)
  have "request_irq True 11 h fl nm dev s = (0, ?s')"
    using assms(2,3) by (simp add: request_irq_def setup_ps_irq_def irq_off_def Let_def)
  moreover have "bit (int_mask ?s') (irq_bit k)" if "k < 11" for k
  proof -
    have "cpu_mask u 11 = 0xffff" if "psx_tables u" for u :: "'a irqs_scheme"
      using that by (simp add: cpu_mask_def psx_tables_def nth_append)
    then have "cpu_mask (?s\<lparr>ie := False, irq_action := (irq_action s)[11 := [?a]]\<rparr>) 11 = 0xffff"
      using i(2) by simp
    moreover have "bit (0x7ff :: u16) (irq_bit k)"
      using less_11 [OF that] by (auto simp: irq_bit_def)
    ultimately show ?thesis
      using i(1) irq_bit_16 [OF that] by (simp add: unmask_irq_def bus_defs int_mask_register_def bit_simps)
  qed
  moreover have "\<exists>s''. do_IRQ hs k ?s' = Panicked s''" if "k < 11" "irq_action s ! k = []" for k
    using that by (intro do_IRQ_unregistered) simp
  ultimately show ?thesis
    by blast
qed

text \<open>
  \<^verbatim>\<open>do_IRQ\<close> ends with an unconditional \<^verbatim>\<open>unmask_irq\<close>: a handler that disables its own
  line has no effect.
\<close>

theorem disable_in_handler_undone:
  assumes "irq_inv m0 s" "irq < 11" "irq_action s ! irq = [a]" "hs (ia_handler a) = (\<lambda>i d. disable_irq i)"
  shows "\<exists>s'. do_IRQ hs irq s = Returned s' \<and> bit (int_mask s') (irq_bit irq)"
proof -
  have i: "int_mask_register (hw_env s) m0" "psx_tables s"
    using assms(1) by (simp_all add: irq_inv_def)
  note e = irq_entered_fields [OF i assms(2)]
  let ?t = "disable_irq irq (irq_entered irq s)"
  have t: "hw_env ?t = hw_env s" "psx_tables ?t"
    using e(1,2) by (simp_all add: disable_irq_def irq_off_def Let_def)
  let ?u = "(if ia_flags a AND SA_SAMPLE_RANDOM \<noteq> 0 then ?t\<lparr>rand_log := Rand_interrupt irq # rand_log ?t\<rparr> else ?t)\<lparr>ie := False\<rparr>"
  have "bit (int_mask (unmask_irq irq ?u)) (irq_bit irq)"
    using mask_irq_mask(2) [of ?u m0 irq "irq_bit irq"] t i(1) assms(2) irq_bit_16 [OF assms(2)] by simp
  then show ?thesis
    using do_IRQ_eq [of s irq hs] assms(3,4) by (simp add: Let_def)
qed

section \<open>A console with one source\<close>

definition irq_demo0 :: irqs where
  "irq_demo0 = \<lparr>hw_env = (\<lambda>t a. if a = INT_MASK_PORT then last (0 # writes INT_MASK_PORT t) else 1), hw_trace = [],
     cpu_mask_tbl = replicate 11 0, cpu_irq_nr = replicate 11 0, after_tbl = (\<lambda>_. 0), irq_action = replicate 32 [],
     kstat_irqs = replicate 32 0, irq_count = 0, ie = True, rand_log = [], cp0_irq_enable = False\<rparr>"

definition irq_demo :: irqs where
  "irq_demo = snd (request_irq True 7 1 SA_INTERRUPT (s2b ''vbl'') 0 (ps_irq_setup irq_demo0))"

lemma irq_demo0_boot: "irq_boot 0 irq_demo0"
  by (simp add: irq_boot_def irq_demo0_def int_mask_register_def)

lemma ps_irq_setup_fields [simp]: "hw_env (ps_irq_setup s) = hw_env s" "irq_action (ps_irq_setup s) = irq_action s"
  by (simp_all add: ps_irq_setup_def out16_def)

lemma irq_demo:
  "irq_inv 0 irq_demo" "irq_action irq_demo ! 7 = [\<lparr>ia_handler = 1, ia_flags = SA_INTERRUPT, ia_mask = 0, ia_name = s2b ''vbl'', ia_dev_id = 0\<rparr>]"
  "pending irq_demo 7"
proof -
  let ?s = "ps_irq_setup irq_demo0"
  have "irq_inv 0 ?s"
    by (rule ps_irq_setup_inv [OF irq_demo0_boot])
  then show inv: "irq_inv 0 irq_demo"
    using setup_ps_irq_inv [of 0 ?s 7] by (simp add: irq_demo_def request_irq_def)
  have a: "irq_action ?s = replicate 32 []" "hw_env ?s = hw_env irq_demo0"
    by (simp_all add: irq_demo0_def)
  then show act: "irq_action irq_demo ! 7 = [\<lparr>ia_handler = 1, ia_flags = SA_INTERRUPT, ia_mask = 0, ia_name = s2b ''vbl'', ia_dev_id = 0\<rparr>]"
    by (simp add: irq_demo_def request_irq_def setup_ps_irq_def irq_off_def Let_def)
  have "hw_env irq_demo = hw_env irq_demo0"
    using a by (simp add: irq_demo_def request_irq_def setup_ps_irq_def irq_off_def Let_def)
  then have "hw_env irq_demo t INT_ACKN_PORT = 1" for t
    by (simp add: irq_demo0_def)
  moreover have "bit (int_mask irq_demo) (irq_bit 7)"
    using inv act by (simp add: irq_inv_def)
  ultimately show "pending irq_demo 7"
    by (simp add: pending_def irq_bit_def)
qed

lemma tame_id: "tame (\<lambda>h i d s. s)"
  by (simp add: tame_def)



theorem request_irq_past_table_witness:
  "\<exists>s'. request_irq True 11 1 0 [] 0 irq_demo = (0, s') \<and> (\<forall>i<11. bit (int_mask s') (irq_bit i))"
proof -
  have "irq_action irq_demo ! 11 = []"
    by (simp add: irq_demo_def request_irq_def setup_ps_irq_def irq_off_def Let_def irq_demo0_def)
  then show ?thesis
    using request_irq_past_table [OF irq_demo(1), of 1 0 "[]" 0 "\<lambda>h i d s. s"] by auto
qed

end
