(* ===== verification/PsxSerial.thy ===== *)
theory PsxSerial
  imports Tty PsIrq
begin

text \<open>
  The kernel's use of the serial port: the early console
  (\<^verbatim>\<open>arch/mipsnommu/ps/siocon.c\<close>) and the tty driver
  (\<^verbatim>\<open>drivers/char/serial_psx.c\<close>). The UART is an arbitrary function of the bus
  history. The driver's state extends the interrupt layer's, so that its receive
  handler can be registered there. Counted delay loops are recorded as delays.
\<close>

section \<open>Registers\<close>

abbreviation (input) SIO_DATA_REG :: u32 where "SIO_DATA_REG \<equiv> 0x1f801050"
abbreviation (input) SIO_STAT_REG :: u32 where "SIO_STAT_REG \<equiv> 0x1f801054"
abbreviation (input) SIO_MODE_REG :: u32 where "SIO_MODE_REG \<equiv> 0x1f801058"
abbreviation (input) SIO_CTRL_REG :: u32 where "SIO_CTRL_REG \<equiv> 0x1f80105a"
abbreviation (input) SIO_RATE_REG :: u32 where "SIO_RATE_REG \<equiv> 0x1f80105e"
abbreviation (input) SIO_RFW :: u16 where "SIO_RFW \<equiv> 0x0001"
abbreviation (input) SIO_RFR :: u16 where "SIO_RFR \<equiv> 0x0002"
abbreviation (input) SIO_PERR :: u16 where "SIO_PERR \<equiv> 0x0008"
abbreviation (input) SIO_OERR :: u16 where "SIO_OERR \<equiv> 0x0010"
abbreviation (input) SIO_FERR :: u16 where "SIO_FERR \<equiv> 0x0020"
abbreviation (input) SIO_TX :: u16 where "SIO_TX \<equiv> 0x0001"
abbreviation (input) SIO_RX :: u16 where "SIO_RX \<equiv> 0x0004"
abbreviation (input) SIO_ACKIRQ :: u16 where "SIO_ACKIRQ \<equiv> 0x0010"
abbreviation (input) SIO_RTS :: u16 where "SIO_RTS \<equiv> 0x0020"
abbreviation (input) SIO_RXIRQ :: u16 where "SIO_RXIRQ \<equiv> 0x0800"
abbreviation (input) SIO_B11520 :: u16 where "SIO_B11520 \<equiv> 0x12"
abbreviation (input) SIO_BRS16_CHR8_SB1 :: u16 where "SIO_BRS16_CHR8_SB1 \<equiv> 0x4e"

record sio_regs =
  sio_mode :: u16
  sio_ctrl :: u16
  sio_rate :: u16

section \<open>siocon.c\<close>

definition sio_save :: "'a hw_scheme \<Rightarrow> sio_regs \<times> 'a hw_scheme" where
  "sio_save s =
    (let (r, s) = in16 SIO_RATE_REG s;
         (m, s) = in16 SIO_MODE_REG s;
         (c, s) = in16 SIO_CTRL_REG s
     in (\<lparr>sio_mode = m, sio_ctrl = c, sio_rate = r\<rparr>, s))"

definition sio_restore :: "sio_regs \<Rightarrow> 'a hw_scheme \<Rightarrow> 'a hw_scheme" where
  "sio_restore r s = out16 SIO_CTRL_REG (sio_ctrl r) (out16 SIO_MODE_REG (sio_mode r) (out16 SIO_RATE_REG (sio_rate r) s))"

function sio_ready_from :: "nat \<Rightarrow> u16 \<Rightarrow> 'a hw_scheme \<Rightarrow> bool \<times> 'a hw_scheme" where
  "sio_ready_from cnt bits s =
    (let (stat, s) = in16 SIO_STAT_REG s in
     if stat AND bits = bits then (True, s)
     else if cnt > 9000 then (False, s)
     else sio_ready_from (cnt + 1) bits s)"
  by pat_completeness auto

termination
  by (relation "measure (\<lambda>(cnt, _). 9001 - cnt)") auto

declare sio_ready_from.simps [simp del]

text \<open>Whether \<^verbatim>\<open>sio_ready\<close> returned 0.\<close>

definition sio_ready :: "u16 \<Rightarrow> 'a hw_scheme \<Rightarrow> bool \<times> 'a hw_scheme" where
  "sio_ready = sio_ready_from 0"

definition sio_getkey :: "'a hw_scheme \<Rightarrow> u8 option \<times> 'a hw_scheme" where
  "sio_getkey s =
    (let (r, s) = sio_save s;
         (ok, s) = sio_ready SIO_RFR s in
     if \<not> ok then (None, s)
     else let (b, s) = in8 SIO_DATA_REG s in (Some b, s))"

record scon = hw +
  sio_timeout :: bool

definition sio_rtscts_get_8 :: "'a scon_scheme \<Rightarrow> u8 option \<times> 'a scon_scheme" where
  "sio_rtscts_get_8 s =
    (let s = s\<lparr>sio_timeout := False\<rparr>;
         (c, s) = in16 SIO_CTRL_REG s;
         s = out16 SIO_CTRL_REG (c OR SIO_RTS) s;
         (ok, s) = sio_ready SIO_RFR s in
     if \<not> ok then (None, s\<lparr>sio_timeout := True\<rparr>)
     else let (c, s) = in16 SIO_CTRL_REG s;
              s = out16 SIO_CTRL_REG (c AND NOT SIO_RTS) s;
              (b, s) = in8 SIO_DATA_REG s
          in (Some b, s))"

text \<open>The bytes stored, \<open>n\<close> of \<^verbatim>\<open>length\<close> still to come.\<close>

fun sio_fill :: "nat \<Rightarrow> 'a scon_scheme \<Rightarrow> u8 list \<times> 'a scon_scheme" where
  "sio_fill 0 s = ([], s)"
| "sio_fill (Suc n) s =
    (let (ok, s) = sio_ready SIO_RFR s in
     if \<not> ok then ([], s\<lparr>sio_timeout := True\<rparr>)
     else let s = (if n = 0 then let (c, s) = in16 SIO_CTRL_REG s in out16 SIO_CTRL_REG (c AND NOT SIO_RTS) s else s);
              (b, s) = in8 SIO_DATA_REG s;
              (bs, s) = sio_fill n s
          in (b # bs, s))"

definition sio_rtscts_get_buf :: "bool \<Rightarrow> nat \<Rightarrow> 'a scon_scheme \<Rightarrow> u8 list \<times> 'a scon_scheme" where
  "sio_rtscts_get_buf buf_null len s =
    (let s = s\<lparr>sio_timeout := False\<rparr> in
     if len = 0 \<or> buf_null then ([], s)
     else let (c, s) = in16 SIO_CTRL_REG s in sio_fill len (out16 SIO_CTRL_REG (c OR SIO_RTS) s))"

fun sio_console_chars :: "u8 list \<Rightarrow> 'a hw_scheme \<Rightarrow> 'a hw_scheme" where
  "sio_console_chars [] s = s"
| "sio_console_chars (b # msg) s =
    (let (ok, s) = sio_ready SIO_RFW s in
     if \<not> ok then s
     else let s = (if b = 0x0a
                   then let s = out8 SIO_DATA_REG 0x0d s;
                            (ok, s) = sio_ready SIO_RFW s
                        in out8 SIO_DATA_REG b s
                   else out8 SIO_DATA_REG b s)
          in sio_console_chars msg s)"

definition sio_console_write :: "u8 list \<Rightarrow> 'a hw_scheme \<Rightarrow> 'a hw_scheme" where
  "sio_console_write msgbuf s = (let (r, s) = sio_save s in sio_console_chars msgbuf s)"

definition ps_sio_console_init :: "'a hw_scheme \<Rightarrow> 'a hw_scheme" where
  "ps_sio_console_init s =
    (let s = delay 1500 (out16 SIO_CTRL_REG 0x50 s);
         s = delay 1500 (out16 SIO_RATE_REG SIO_B11520 s);
         s = delay 1500 (out16 SIO_MODE_REG SIO_BRS16_CHR8_SB1 s);
         s = delay 1500 (out16 SIO_CTRL_REG 0x5 s);
         (c, s) = in16 SIO_CTRL_REG s
     in delay 1500 (out16 SIO_CTRL_REG (c OR SIO_RXIRQ OR SIO_RX OR SIO_TX) s))"

section \<open>serial_psx.c\<close>

text \<open>\<open>termios\<close> is the pair of software flow control and its characters; only what the driver reads of it.\<close>

record sers = irqs +
  putp :: nat
  getp :: nat
  x_char :: u8
  psxs_tty :: "tty option"
  psxs_use_count :: int
  mod_use_count :: int

definition psxs_write_room :: "'a sers_scheme \<Rightarrow> int" where
  "psxs_write_room s = (if putp s \<ge> getp s then 1000 - int (putp s) + int (getp s) else int (getp s) - int (putp s) - 1)"

definition psxs_chars_in_buffer :: "'a sers_scheme \<Rightarrow> int" where
  "psxs_chars_in_buffer s = 1000 - psxs_write_room s"

definition psxs_flush_buffer :: "'a sers_scheme \<Rightarrow> 'a sers_scheme" where
  "psxs_flush_buffer s = s\<lparr>putp := 0, getp := 0\<rparr>"

definition on_tty :: "(tty \<Rightarrow> tty) \<Rightarrow> 'a sers_scheme \<Rightarrow> 'a sers_scheme" where
  "on_tty f s = s\<lparr>psxs_tty := map_option f (psxs_tty s)\<rparr>"

definition psxs_rx_int :: "'a sers_scheme \<Rightarrow> 'a sers_scheme" where
  "psxs_rx_int s =
    (if psxs_tty s = None then s
     else let (b, s) = in8 SIO_DATA_REG s;
              (st, s) = in16 SIO_STAT_REG s;
              s = (if st AND SIO_OERR \<noteq> 0 then on_tty (tty_insert_flip_char 0 TTY_OVERRUN) s else s);
              (st, s) = in16 SIO_STAT_REG s;
              (flag, s) = (if st AND SIO_PERR \<noteq> 0 then (TTY_PARITY, s)
                           else let (st, s) = in16 SIO_STAT_REG s in if st AND SIO_FERR \<noteq> 0 then (TTY_FRAME, s) else (0, s));
              s = on_tty (tty_insert_flip_char b flag) s;
              s = on_tty tty_flip_buffer_push s;
              (c, s) = in16 SIO_CTRL_REG s
          in out16 SIO_CTRL_REG (c OR SIO_ACKIRQ OR SIO_RXIRQ) s)"

definition psxs_send_xchar :: "u8 \<Rightarrow> 'a sers_scheme \<Rightarrow> 'a sers_scheme" where
  "psxs_send_xchar c s = s\<lparr>x_char := c\<rparr>"

definition psxs_throttle :: "bool \<Rightarrow> u8 \<Rightarrow> 'a sers_scheme \<Rightarrow> 'a sers_scheme" where
  "psxs_throttle ixoff stop s = (if ixoff then psxs_send_xchar stop s else s)"

definition psxs_unthrottle :: "bool \<Rightarrow> u8 \<Rightarrow> 'a sers_scheme \<Rightarrow> 'a sers_scheme" where
  "psxs_unthrottle ixoff start s = (if ixoff then if x_char s \<noteq> 0 then s\<lparr>x_char := 0\<rparr> else psxs_send_xchar start s else s)"

text \<open>Always returns 1.\<close>

definition psxs_xmit :: "u8 \<Rightarrow> 'a hw_scheme \<Rightarrow> 'a hw_scheme" where
  "psxs_xmit b s =
    (let (ok, s) = sio_ready SIO_RFW s in
     if \<not> ok then s
     else let s = out8 SIO_DATA_REG b s in
          if b = 0x0a then let (ok, s) = sio_ready SIO_RFW s in out8 SIO_DATA_REG 0x0d s else s)"

text \<open>\<open>access_ok\<close> is the outcome of \<^verbatim>\<open>verify_area\<close>.\<close>

definition psxs_write :: "bool \<Rightarrow> bool \<Rightarrow> u8 list \<Rightarrow> 'a hw_scheme \<Rightarrow> int \<times> 'a hw_scheme" where
  "psxs_write from_user access_ok buf s =
    (if from_user \<and> \<not> access_ok then (- EINVAL, s) else (int (length buf), fold psxs_xmit buf s))"

definition psxs_put_char :: "u8 \<Rightarrow> 'a hw_scheme \<Rightarrow> 'a hw_scheme" where
  "psxs_put_char = psxs_xmit"

definition psxs_open :: "int \<Rightarrow> tty \<Rightarrow> 'a sers_scheme \<Rightarrow> int \<times> 'a sers_scheme" where
  "psxs_open line t s =
    (let s = s\<lparr>mod_use_count := mod_use_count s + 1\<rparr> in
     if line \<noteq> 0 then (- 19, s\<lparr>mod_use_count := mod_use_count s - 1\<rparr>)
     else let s = (if psxs_tty s = None then s\<lparr>psxs_tty := Some t\<rparr> else s)
          in (0, s\<lparr>psxs_use_count := psxs_use_count s + 1\<rparr>))"

definition psxs_close :: "'a sers_scheme \<Rightarrow> 'a sers_scheme" where
  "psxs_close s =
    (let s = s\<lparr>psxs_use_count := psxs_use_count s - 1\<rparr>;
         s = (if psxs_use_count s = 0 then s\<lparr>psxs_tty := None\<rparr> else s)
     in s\<lparr>mod_use_count := mod_use_count s - 1\<rparr>)"

text \<open>
  The number of the receive handler. \<open>kmalloc_ok\<close> is the outcome of the allocation in
  \<^verbatim>\<open>request_irq\<close>; registering the tty drivers only prints on failure.
\<close>

abbreviation (input) PSXS_RX_INT :: nat where "PSXS_RX_INT \<equiv> 1"
abbreviation (input) IRQ_SIO :: nat where "IRQ_SIO \<equiv> 8"

definition psxs_init :: "bool \<Rightarrow> 'a sers_scheme \<Rightarrow> 'a sers_scheme irq_end" where
  "psxs_init kmalloc_ok s =
    (let s = delay 1500 (out16 SIO_CTRL_REG 0x50 s);
         s = delay 1500 (out16 SIO_RATE_REG SIO_B11520 s);
         s = delay 1500 (out16 SIO_MODE_REG SIO_BRS16_CHR8_SB1 s);
         s = delay 15000 (out16 SIO_CTRL_REG (SIO_RX OR SIO_TX) s);
         (ret, s) = request_irq kmalloc_ok IRQ_SIO PSXS_RX_INT 0 (s2b ''serial'') 0 s in
     if ret \<noteq> 0 then Panicked s
     else let s = delay 15000 s;
              (c, s) = in16 SIO_CTRL_REG s
          in Returned (delay 15000 (out16 SIO_CTRL_REG (c OR SIO_RXIRQ OR SIO_RX OR SIO_TX OR SIO_ACKIRQ OR SIO_RTS) s)))"

section \<open>Waiting for the port\<close>

lemma sio_ready_from_frame: "sio_ready_from cnt bits s = (ok, s') \<Longrightarrow> emits (\<lambda>e. rd_in {SIO_STAT_REG} e) s s'"
proof (induction cnt bits s rule: sio_ready_from.induct)
  case (1 cnt bits s)
  obtain st s1 where r: "in16 SIO_STAT_REG s = (st, s1)"
    by fastforce
  then have e: "emits (\<lambda>e. rd_in {SIO_STAT_REG} e) s s1"
    by (auto simp: in16_def Let_def)
  show ?case
    using 1 r e emits_trans by (auto simp: sio_ready_from.simps [of cnt] split: if_splits) blast
qed

lemma sio_ready_frame: "sio_ready bits s = (ok, s') \<Longrightarrow> emits (\<lambda>e. rd_in {SIO_STAT_REG} e) s s'"
  unfolding sio_ready_def by (rule sio_ready_from_frame)

lemma rd_in_not_wr: "rd_in A e \<Longrightarrow> \<not> wr_in B e"
  by (cases e) auto

lemma sio_ready_writes: "sio_ready bits s = (ok, s') \<Longrightarrow> writes a (hw_trace s') = writes a (hw_trace s) \<and> hw_env s' = hw_env s"
  by (drule sio_ready_frame) (auto simp: emits_writes [OF _ rd_in_not_wr] emits_env)

lemma sio_ready_now:
  assumes "\<forall>t. ucast (hw_env s t SIO_STAT_REG) AND bits = (bits :: u16)"
  shows "fst (sio_ready bits s)"
  using assms by (simp add: sio_ready_def sio_ready_from.simps in16_def Let_def)

lemma sio_ready_from_never:
  "\<forall>t. ucast (hw_env s t SIO_STAT_REG) AND bits \<noteq> (bits :: u16) \<Longrightarrow> \<not> fst (sio_ready_from cnt bits s)"
proof (induction cnt bits s rule: sio_ready_from.induct)
  case (1 cnt bits s)
  obtain st s1 where r: "in16 SIO_STAT_REG s = (st, s1)"
    by fastforce
  then have "hw_env s1 = hw_env s" "st AND bits \<noteq> bits"
    using 1(2) by (auto simp: in16_def Let_def)
  then show ?case
    using 1 r by (simp add: sio_ready_from.simps [of cnt])
qed

lemma sio_ready_never: "\<forall>t. ucast (hw_env s t SIO_STAT_REG) AND bits \<noteq> (bits :: u16) \<Longrightarrow> \<not> fst (sio_ready bits s)"
  unfolding sio_ready_def by (rule sio_ready_from_never)

section \<open>What is sent\<close>

definition crlf :: "u8 list \<Rightarrow> u8 list" where
  "crlf msg = concat (map (\<lambda>b. if b = 0x0a then [0x0d, 0x0a] else [b]) msg)"

definition lfcr :: "u8 list \<Rightarrow> u8 list" where
  "lfcr msg = concat (map (\<lambda>b. if b = 0x0a then [0x0a, 0x0d] else [b]) msg)"

abbreviation (input) sent :: "'a hw_scheme \<Rightarrow> u32 list" where
  "sent s \<equiv> writes SIO_DATA_REG (hw_trace s)"

lemma console_chars_sent:
  "\<exists>bs. sent (sio_console_chars msg s) = sent s @ map ucast bs \<and> (\<exists>rest. crlf msg = bs @ rest) \<and> hw_env (sio_console_chars msg s) = hw_env s \<and>
    ((\<forall>t. ucast (hw_env s t SIO_STAT_REG) AND SIO_RFW = SIO_RFW) \<longrightarrow> bs = crlf msg)"
proof (induction msg arbitrary: s)
  case (Cons b msg)
  obtain ok s1 where r1: "sio_ready SIO_RFW s = (ok, s1)"
    by fastforce
  note w1 = sio_ready_writes [OF r1]
  show ?case
  proof (cases ok)
    case False
    then show ?thesis
      using r1 w1 sio_ready_now [of s SIO_RFW] by (intro exI [of _ "[]"]) auto
  next
    case True
    obtain ok2 s2 where r2: "sio_ready SIO_RFW (out8 SIO_DATA_REG 0x0d s1) = (ok2, s2)"
      by fastforce
    note w2 = sio_ready_writes [OF r2]
    let ?n = "if b = 0x0a then out8 SIO_DATA_REG b s2 else out8 SIO_DATA_REG b s1"
    let ?e = "if b = 0x0a then [0x0d, 0x0a] else [b]"
    have n: "sent ?n = sent s @ map ucast ?e" "hw_env ?n = hw_env s" "sio_console_chars (b # msg) s = sio_console_chars msg ?n"
      using w1 w2 True r1 r2 by (auto simp: out8_def)
    obtain bs where bs: "sent (sio_console_chars msg ?n) = sent ?n @ map ucast bs" "\<exists>rest. crlf msg = bs @ rest"
        "hw_env (sio_console_chars msg ?n) = hw_env ?n"
        "(\<forall>t. ucast (hw_env ?n t SIO_STAT_REG) AND SIO_RFW = SIO_RFW) \<longrightarrow> bs = crlf msg"
      using Cons.IH [of ?n] by blast
    have "crlf (b # msg) = ?e @ crlf msg"
      by (simp add: crlf_def)
    then show ?thesis
      using n bs by (intro exI [of _ "?e @ bs"]) (auto simp del: sio_console_chars.simps)
  qed
qed (simp add: crlf_def)

lemma sio_save_frame: "sio_save s = (r, s') \<Longrightarrow> sent s' = sent s \<and> hw_env s' = hw_env s"
  by (auto simp: sio_save_def in16_def Let_def)

text \<open>
  C31: The early console sends what it is given, newlines as CR LF. On a port that is
  always ready every byte arrives; on any hardware what was sent is a beginning of
  that text, and the call returns.
\<close>

theorem sio_console_write_sends:
  "\<exists>bs. sent (sio_console_write msg s) = sent s @ map ucast bs \<and> (\<exists>rest. crlf msg = bs @ rest) \<and>
    ((\<forall>t. ucast (hw_env s t SIO_STAT_REG) AND SIO_RFW = SIO_RFW) \<longrightarrow> bs = crlf msg)"
proof -
  obtain r s1 where r: "sio_save s = (r, s1)"
    by fastforce
  show ?thesis
    using console_chars_sent [of msg s1] sio_save_frame [OF r] r by (auto simp: sio_console_write_def)
qed

lemma psxs_xmit_sent:
  "hw_env (psxs_xmit b s) = hw_env s"
  "\<forall>t. ucast (hw_env s t SIO_STAT_REG) AND SIO_RFW = SIO_RFW \<Longrightarrow> sent (psxs_xmit b s) = sent s @ map ucast (lfcr [b])"
  "\<forall>t. ucast (hw_env s t SIO_STAT_REG) AND SIO_RFW \<noteq> SIO_RFW \<Longrightarrow> sent (psxs_xmit b s) = sent s"
proof -
  obtain ok s1 where r1: "sio_ready SIO_RFW s = (ok, s1)"
    by fastforce
  obtain ok2 s2 where r2: "sio_ready SIO_RFW (out8 SIO_DATA_REG b s1) = (ok2, s2)"
    by fastforce
  note w = sio_ready_writes [OF r1] sio_ready_writes [OF r2]
  show "hw_env (psxs_xmit b s) = hw_env s"
    using w r1 r2 by (auto simp: psxs_xmit_def out8_def Let_def)
  show "sent (psxs_xmit b s) = sent s @ map ucast (lfcr [b])" if "\<forall>t. ucast (hw_env s t SIO_STAT_REG) AND SIO_RFW = SIO_RFW"
    using w r1 r2 sio_ready_now [OF that] by (auto simp: psxs_xmit_def out8_def lfcr_def Let_def)
  show "sent (psxs_xmit b s) = sent s" if "\<forall>t. ucast (hw_env s t SIO_STAT_REG) AND SIO_RFW \<noteq> SIO_RFW"
    using w r1 sio_ready_never [OF that] by (auto simp: psxs_xmit_def)
qed

lemma psxs_write_sent:
  "(\<forall>t. ucast (hw_env s t SIO_STAT_REG) AND SIO_RFW = SIO_RFW) \<Longrightarrow> sent (fold psxs_xmit buf s) = sent s @ map ucast (lfcr buf)"
  "(\<forall>t. ucast (hw_env s t SIO_STAT_REG) AND SIO_RFW \<noteq> SIO_RFW) \<Longrightarrow> sent (fold psxs_xmit buf s) = sent s"
  by (induction buf arbitrary: s) (simp_all add: psxs_xmit_sent lfcr_def)


section \<open>Reception\<close>

lemma emit_sers [simp]:
  "putp (emit e s) = putp s" "getp (emit e s) = getp s" "x_char (emit e s) = x_char s" "psxs_tty (emit e s) = psxs_tty s"
  by (simp_all add: emit_def)

lemma on_tty_fields [simp]:
  "hw_env (on_tty f s) = hw_env s" "hw_trace (on_tty f s) = hw_trace s" "cpu_mask_tbl (on_tty f s) = cpu_mask_tbl s"
  "cpu_irq_nr (on_tty f s) = cpu_irq_nr s" "irq_action (on_tty f s) = irq_action s" "kstat_irqs (on_tty f s) = kstat_irqs s"
  "irq_count (on_tty f s) = irq_count s" "psxs_tty (on_tty f s) = map_option f (psxs_tty s)"
  by (simp_all add: on_tty_def)

definition serial_handlers :: "'a sers_ext handlers" where
  "serial_handlers h i d s = (if h = PSXS_RX_INT then psxs_rx_int s else s)"

lemma keeps_on_tty: "keeps_irqs s s' \<Longrightarrow> keeps_irqs s (on_tty f s')"
  by (simp add: keeps_irqs_def)

lemma psxs_rx_int_keeps: "keeps_irqs s (psxs_rx_int s)"
  by (simp add: psxs_rx_int_def bus_defs keeps_irqs_emit keeps_on_tty)

lemma serial_handlers_tame: "tame serial_handlers"
  by (simp add: tame_def serial_handlers_def psxs_rx_int_keeps)

lemma push_view: "tty_ok t \<Longrightarrow> received (tty_flip_buffer_push t) @ tty_queue (tty_flip_buffer_push t) = received t @ tty_queue t"
proof (cases "low_latency t \<and> \<not> dont_flip t")
  case True
  assume "tty_ok t"
  then have "tty_view (flush_to_ldisc t) = ([], received t @ tty_queue t)"
    using flush_sim(2) True by (simp add: queue_spec_def tty_view_def)
  then show ?thesis
    using True by (simp add: tty_flip_buffer_push_def tty_view_def)
next
  case False
  then have "tty_flip_buffer_push t = t\<lparr>flip_queued := flip_queued t + 1\<rparr>"
    by (auto simp: tty_flip_buffer_push_def flush_to_ldisc_def)
  then show ?thesis
    by (simp add: tty_queue_def)
qed

text \<open>The line as it should be: no overrun, parity or frame error.\<close>

definition no_line_error :: "(bus_trace \<Rightarrow> u32 \<Rightarrow> u32) \<Rightarrow> bool" where
  "no_line_error env \<longleftrightarrow> (\<forall>t. ucast (env t SIO_STAT_REG) AND SIO_OERR = (0 :: u16) \<and> ucast (env t SIO_STAT_REG) AND SIO_PERR = (0 :: u16) \<and>
     ucast (env t SIO_STAT_REG) AND SIO_FERR = (0 :: u16))"

lemma psxs_rx_int_byte:
  assumes "psxs_tty s = Some t" "tty_ok t" "length (tty_queue t) < 512"
    and "no_line_error (hw_env s)"
    and "ucast (hw_env s (hw_trace s) SIO_DATA_REG) = b"
  shows "\<exists>t'. psxs_tty (psxs_rx_int s) = Some t' \<and> received t' @ tty_queue t' = received t @ tty_queue t @ [(b, 0)] \<and>
    (\<exists>c. last (writes SIO_CTRL_REG (hw_trace (psxs_rx_int s))) = ucast (c OR SIO_ACKIRQ OR SIO_RXIRQ :: u16))"
proof -
  let ?t = "tty_flip_buffer_push (tty_insert_flip_char b 0 t)"
  have "psxs_tty (psxs_rx_int s) = Some ?t"
    using assms(1,4,5) by (simp add: psxs_rx_int_def bus_defs no_line_error_def)
  moreover have "\<exists>c. last (writes SIO_CTRL_REG (hw_trace (psxs_rx_int s))) = ucast (c OR SIO_ACKIRQ OR SIO_RXIRQ :: u16)"
    using assms(1) by (auto simp: psxs_rx_int_def bus_defs)
  moreover have "received ?t @ tty_queue ?t = received t @ tty_queue t @ [(b, 0)]"
    using push_view [OF insert_sim(1) [OF assms(2)]] insert_sim(2) [OF assms(2), of b 0] assms(3) by (simp add: tty_view_def queue_spec_def)
  ultimately show ?thesis
    by blast
qed

lemma psxs_init_registers:
  assumes "irq_inv m0 s" "irq_action s ! 8 = []"
  shows "\<exists>s'. psxs_init True s = Returned s' \<and> irq_inv m0 s' \<and> hw_env s' = hw_env s \<and> psxs_tty s' = psxs_tty s \<and>
    irq_action s' ! 8 = [\<lparr>ia_handler = PSXS_RX_INT, ia_flags = 0, ia_mask = 0, ia_name = s2b ''serial'', ia_dev_id = 0\<rparr>]"
proof -
  let ?a = "\<lparr>ia_handler = PSXS_RX_INT, ia_flags = 0, ia_mask = 0, ia_name = s2b ''serial'', ia_dev_id = 0\<rparr>"
  define s1 where "s1 = delay 15000 (out16 SIO_CTRL_REG (SIO_RX OR SIO_TX) (delay 1500 (out16 SIO_MODE_REG SIO_BRS16_CHR8_SB1
    (delay 1500 (out16 SIO_RATE_REG SIO_B11520 (delay 1500 (out16 SIO_CTRL_REG 0x50 s)))))))"
  have k1: "keeps_irqs s s1" "psxs_tty s1 = psxs_tty s" "hw_env s1 = hw_env s" "irq_action s1 = irq_action s"
    by (simp_all add: s1_def bus_defs keeps_irqs_emit)
  obtain s2 where s2: "request_irq True IRQ_SIO PSXS_RX_INT 0 (s2b ''serial'') 0 s1 = (0, s2)"
      "irq_action s2 = (irq_action s)[8 := [?a]]" "hw_env s2 = hw_env s" "psxs_tty s2 = psxs_tty s"
    using k1 assms(2) by (simp add: request_irq_def setup_ps_irq_def irq_off_def Let_def unmask_irq_def bus_defs)
  have inv: "irq_inv m0 s2"
    using setup_ps_irq_inv [OF irq_inv_keeps [OF assms(1) k1(1)], of 8 ?a] s2(1) by (simp add: request_irq_def)
  define s3 where "s3 = delay 15000 (out16 SIO_CTRL_REG (ucast (hw_env s2 (hw_trace (delay 15000 s2)) SIO_CTRL_REG) OR
    SIO_RXIRQ OR SIO_RX OR SIO_TX OR SIO_ACKIRQ OR SIO_RTS) (snd (in16 SIO_CTRL_REG (delay 15000 s2))))"
  have "psxs_init True s = Returned s3"
    unfolding psxs_init_def Let_def s1_def [symmetric] s2(1) by (simp add: s3_def in16_def Let_def delay_def)
  moreover have "keeps_irqs s2 s3" "psxs_tty s3 = psxs_tty s2" "hw_env s3 = hw_env s2" "irq_action s3 = irq_action s2"
    by (simp_all add: s3_def bus_defs keeps_irqs_emit)
  moreover have "length (irq_action s) = 32"
    using assms(1) by (simp add: irq_inv_def)
  ultimately show ?thesis
    using irq_inv_keeps [OF inv] s2 by simp
qed

lemma psxs_tty_entered: "psxs_tty (irq_entered n (int_seen s)) = psxs_tty s"
  by (simp add: irq_entered_def int_seen_def mask_irq_def bus_defs)

lemma serial_interrupt:
  assumes inv: "irq_inv m0 s" and a: "irq_action s ! 8 = [a]" "ia_handler a = PSXS_RX_INT" and t: "psxs_tty s = Some t"
    and "tty_ok t" "length (tty_queue t) < 512" "no_line_error (hw_env s)" "\<forall>tr. ucast (hw_env s tr SIO_DATA_REG) = b"
    and "pending s 8" "\<forall>j<8. \<not> pending s j"
  shows "\<exists>s' t'. playstation_handle_int serial_handlers s = Returned s' \<and> irq_inv m0 s' \<and> psxs_tty s' = Some t' \<and>
    received t' @ tty_queue t' = received t @ tty_queue t @ [(b, 0)] \<and>
    (\<exists>c. last (writes SIO_CTRL_REG (hw_trace s')) = ucast (c OR SIO_ACKIRQ OR SIO_RXIRQ :: u16))"
proof -
  have ex: "\<exists>i<11. pending s i"
    using assms(9) by (intro exI [of _ 8]) simp
  obtain n where n: "n < 11" "pending s n" "\<forall>j<n. \<not> pending s j" "playstation_handle_int serial_handlers s = do_IRQ serial_handlers n (int_seen s)"
    using handle_int_choice [OF inv ex, of serial_handlers] by auto
  have n8: "n = 8"
    using n(2,3) assms(9,10) by (metis linorder_neqE_nat)
  note v = int_seen_inv [OF inv]
  let ?e = "irq_entered 8 (int_seen s)"
  have ent: "psxs_tty ?e = Some t" "hw_env ?e = hw_env s"
    using t by (simp_all add: psxs_tty_entered) (simp add: irq_entered_def int_seen_def Let_def out16_def)
  obtain t' where t': "psxs_tty (psxs_rx_int ?e) = Some t'" "received t' @ tty_queue t' = received t @ tty_queue t @ [(b, 0)]"
      "\<exists>c. last (writes SIO_CTRL_REG (hw_trace (psxs_rx_int ?e))) = ucast (c OR SIO_ACKIRQ OR SIO_RXIRQ :: u16)"
    using psxs_rx_int_byte [OF ent(1) assms(5,6), of b] assms(7,8) ent(2) by auto
  have d: "do_IRQ serial_handlers 8 (int_seen s) =
      Returned (let s' = unmask_irq 8 ((if ia_flags a AND SA_SAMPLE_RANDOM \<noteq> 0
          then (psxs_rx_int ?e)\<lparr>rand_log := Rand_interrupt 8 # rand_log (psxs_rx_int ?e)\<rparr> else psxs_rx_int ?e)\<lparr>ie := False\<rparr>)
        in s'\<lparr>irq_count := irq_count s' - 1\<rparr>)"
    using do_IRQ_eq [of "int_seen s" 8 serial_handlers] a v(3) by (simp add: Let_def serial_handlers_def)
  obtain s' where s': "do_IRQ serial_handlers 8 (int_seen s) = Returned s'" "irq_inv m0 s'"
    using do_IRQ_returns [OF v(1) serial_handlers_tame, of 8] v(3) a(1) by auto
  have "psxs_tty s' = Some t'" "writes SIO_CTRL_REG (hw_trace s') = writes SIO_CTRL_REG (hw_trace (psxs_rx_int ?e))"
    using d s'(1) t'(1) by (auto simp: Let_def unmask_irq_def in16_def out16_def)
  then show ?thesis
    using n(4) n8 s' t' by auto
qed


text \<open>A byte that arrives while no process has the port open stays in the receiver, and its interrupt is never acknowledged there.\<close>

lemma psxs_rx_int_closed: "psxs_tty s = None \<Longrightarrow> psxs_rx_int s = s"
  by (simp add: psxs_rx_int_def)

lemma psxs_open_keeps: "psxs_open line t s = (r, s') \<Longrightarrow> keeps_irqs s s'"
  by (auto simp: psxs_open_def keeps_irqs_def Let_def split: if_splits)

section \<open>A port with one byte waiting\<close>

theorem sio_console_write_sends_witness:
  "sent (sio_console_write [0x68, 0x0a] \<lparr>hw_env = (\<lambda>_ _. 1), hw_trace = []\<rparr>) = [0x68, 0x0d, 0x0a]"
  using sio_console_write_sends [of "[0x68, 0x0a]" "\<lparr>hw_env = (\<lambda>_ _. 1), hw_trace = []\<rparr>"] by (auto simp: crlf_def)


definition sio_demo_env :: "bus_trace \<Rightarrow> u32 \<Rightarrow> u32" where
  "sio_demo_env t a = (if a = INT_MASK_PORT then last (0 # writes INT_MASK_PORT t) else if a = INT_ACKN_PORT then 0x100
     else if a = SIO_DATA_REG then 0x41 else if a = SIO_STAT_REG then 7 else 0)"

definition sio_demo0 :: sers where
  "sio_demo0 = \<lparr>hw_env = sio_demo_env, hw_trace = [], cpu_mask_tbl = replicate 11 0, cpu_irq_nr = replicate 11 0, after_tbl = (\<lambda>_. 0),
     irq_action = replicate 32 [], kstat_irqs = replicate 32 0, irq_count = 0, ie = True, rand_log = [], cp0_irq_enable = False,
     putp = 0, getp = 0, x_char = 0, psxs_tty = None, psxs_use_count = 0, mod_use_count = 0\<rparr>"


end
