(* ===== verification/PioFlash.thy ===== *)
theory PioFlash
  imports Serial Klib
begin

text \<open>
  The flash manager of the boot loader, \<^verbatim>\<open>bootloader/src/pioflash.c\<close>: detecting,
  reading, erasing and programming the flash of a cartridge on the expansion port,
  and its transfers over the serial line with the two host scripts
  \<^verbatim>\<open>tools/host/pioflash_recv.py\<close> and \<^verbatim>\<open>pioflash_send.py\<close>. The chip is a function of the
  bus history; what its data sheet promises is stated below as a hypothesis.
\<close>

section \<open>Operations\<close>

abbreviation (input) PIO_FLASH_BASE :: u32 where "PIO_FLASH_BASE \<equiv> 0x1F000000"
abbreviation (input) FLASH_CMD_ADDR1 :: u32 where "FLASH_CMD_ADDR1 \<equiv> 0x5555"
abbreviation (input) FLASH_CMD_ADDR2 :: u32 where "FLASH_CMD_ADDR2 \<equiv> 0x2AAA"
abbreviation (input) FLASH_CMD_UNLOCK1 :: u8 where "FLASH_CMD_UNLOCK1 \<equiv> 0xAA"
abbreviation (input) FLASH_CMD_UNLOCK2 :: u8 where "FLASH_CMD_UNLOCK2 \<equiv> 0x55"
abbreviation (input) FLASH_CMD_AUTOSEL :: u8 where "FLASH_CMD_AUTOSEL \<equiv> 0x90"
abbreviation (input) FLASH_CMD_RESET :: u8 where "FLASH_CMD_RESET \<equiv> 0xF0"
abbreviation (input) FLASH_CMD_PROGRAM :: u8 where "FLASH_CMD_PROGRAM \<equiv> 0xA0"
abbreviation (input) FLASH_CMD_ERASE_PRE :: u8 where "FLASH_CMD_ERASE_PRE \<equiv> 0x80"
abbreviation (input) FLASH_CMD_ERASE_CHIP :: u8 where "FLASH_CMD_ERASE_CHIP \<equiv> 0x10"
abbreviation (input) FLASH_CMD_ERASE_SECT :: u8 where "FLASH_CMD_ERASE_SECT \<equiv> 0x30"
abbreviation (input) PIOFLASH_MAGIC :: u32 where "PIOFLASH_MAGIC \<equiv> 0x4C464B42"

record flash_chip_info =
  fc_mfr_id :: u8
  fc_dev_id :: u8
  fc_mfr_name :: string
  fc_dev_name :: string
  fc_size :: u32
  fc_sector_size :: u32

definition flash_chip :: "u8 \<Rightarrow> u8 \<Rightarrow> string \<Rightarrow> string \<Rightarrow> u32 \<Rightarrow> u32 \<Rightarrow> flash_chip_info" where
  "flash_chip m d mn dn sz ss = \<lparr>fc_mfr_id = m, fc_dev_id = d, fc_mfr_name = mn, fc_dev_name = dn, fc_size = sz, fc_sector_size = ss\<rparr>"

definition known_chips :: "flash_chip_info list" where
  "known_chips =
   [flash_chip 0xBF 0xB5 ''SST'' ''SST39SF010'' (128 * 1024) 4096,
    flash_chip 0xBF 0xB6 ''SST'' ''SST39SF020'' (256 * 1024) 4096,
    flash_chip 0xBF 0xB7 ''SST'' ''SST39SF040'' (512 * 1024) 4096,
    flash_chip 0xBF 0x10 ''SST'' ''SST29EE020'' (256 * 1024) 128,
    flash_chip 0xBF 0x04 ''SST'' ''SST28SF040'' (512 * 1024) 256,
    flash_chip 0x01 0x20 ''AMD'' ''AM29F010'' (128 * 1024) 16384,
    flash_chip 0x01 0xB0 ''AMD'' ''AM29F020'' (256 * 1024) 16384,
    flash_chip 0x01 0xA4 ''AMD'' ''AM29F040'' (512 * 1024) 65536,
    flash_chip 0x01 0xD5 ''AMD'' ''AM29F080'' (1024 * 1024) 65536,
    flash_chip 0xDA 0x45 ''Winbond'' ''W29C020'' (256 * 1024) 128,
    flash_chip 0xDA 0x46 ''Winbond'' ''W29C040'' (512 * 1024) 256,
    flash_chip 0x1F 0xDA ''Atmel'' ''AT29C020'' (256 * 1024) 256,
    flash_chip 0x1F 0x5D ''Atmel'' ''AT29C040'' (512 * 1024) 512,
    flash_chip 0xC2 0xB0 ''Macronix'' ''MX29F020'' (256 * 1024) 16384,
    flash_chip 0xC2 0xA4 ''Macronix'' ''MX29F040'' (512 * 1024) 65536]"

record pioflash_info =
  fi_present :: bool
  fi_mfr_id :: u8
  fi_dev_id :: u8
  fi_chip :: "flash_chip_info option"
  fi_size :: u32
  fi_sector_size :: u32

definition flash_write :: "u32 \<Rightarrow> u8 \<Rightarrow> 'a hw_scheme \<Rightarrow> 'a hw_scheme" where
  "flash_write addr val = out8 (PIO_FLASH_BASE + addr) val"

definition flash_read :: "u32 \<Rightarrow> 'a hw_scheme \<Rightarrow> u8 \<times> 'a hw_scheme" where
  "flash_read addr = in8 (PIO_FLASH_BASE + addr)"

definition flash_unlock :: "'a hw_scheme \<Rightarrow> 'a hw_scheme" where
  "flash_unlock s = flash_write FLASH_CMD_ADDR2 FLASH_CMD_UNLOCK2 (flash_write FLASH_CMD_ADDR1 FLASH_CMD_UNLOCK1 s)"

definition flash_reset :: "'a hw_scheme \<Rightarrow> 'a hw_scheme" where
  "flash_reset = flash_write 0 FLASH_CMD_RESET"

fun flash_poll :: "u32 \<Rightarrow> nat \<Rightarrow> u8 \<Rightarrow> 'a hw_scheme \<Rightarrow> bool \<times> 'a hw_scheme" where
  "flash_poll addr 0 prev s = (False, flash_reset s)"
| "flash_poll addr (Suc n) prev s =
    (let (v, s) = flash_read addr s;
         curr = v AND 0x40
     in if curr = prev then (True, s) else flash_poll addr n curr s)"

definition flash_poll_toggle :: "u32 \<Rightarrow> nat \<Rightarrow> 'a hw_scheme \<Rightarrow> bool \<times> 'a hw_scheme" where
  "flash_poll_toggle addr timeout_loops s = (let (v, s) = flash_read addr s in flash_poll addr timeout_loops (v AND 0x40) s)"

definition lookup_chip :: "u8 \<Rightarrow> u8 \<Rightarrow> flash_chip_info option" where
  "lookup_chip mfr dev = find (\<lambda>c. fc_mfr_id c = mfr \<and> fc_dev_id c = dev) known_chips"

definition pioflash_detect :: "'a hw_scheme \<Rightarrow> (bool \<times> pioflash_info) \<times> 'a hw_scheme" where
  "pioflash_detect s =
    (let info = \<lparr>fi_present = False, fi_mfr_id = 0, fi_dev_id = 0, fi_chip = None, fi_size = 0, fi_sector_size = 0\<rparr>;
         (byte0, s) = flash_read 0 s in
     if byte0 = 0xFF then ((False, info), s)
     else let s = flash_write FLASH_CMD_ADDR1 FLASH_CMD_AUTOSEL (flash_unlock s);
              s = delay 100 s;
              (mfr, s) = flash_read 0 s;
              (dev, s) = flash_read 1 s;
              s = flash_reset s;
              (same, s) = (if mfr = 0xFF \<and> dev = 0xFF then (True, s)
                           else if mfr = byte0 then (let (b1, s) = flash_read 1 s in (dev = b1, s)) else (False, s)) in
          if same
          then ((True, info\<lparr>fi_present := True, fi_size := 256 * 1024, fi_sector_size := 4096\<rparr>), s)
          else let chip = lookup_chip mfr dev;
                   info = info\<lparr>fi_present := True, fi_mfr_id := mfr, fi_dev_id := dev, fi_chip := chip\<rparr>
               in ((True, case chip of
                      Some c \<Rightarrow> info\<lparr>fi_size := fc_size c, fi_sector_size := fc_sector_size c\<rparr>
                    | None \<Rightarrow> info\<lparr>fi_size := 256 * 1024, fi_sector_size := 4096\<rparr>), s))"

fun pioflash_read :: "u32 \<Rightarrow> nat \<Rightarrow> 'a hw_scheme \<Rightarrow> u8 list \<times> 'a hw_scheme" where
  "pioflash_read offset 0 s = ([], s)"
| "pioflash_read offset (Suc n) s = (let (b, s) = flash_read offset s; (bs, s) = pioflash_read (offset + 1) n s in (b # bs, s))"

fun pioflash_verify :: "u32 \<Rightarrow> u8 list \<Rightarrow> 'a hw_scheme \<Rightarrow> u32 \<times> 'a hw_scheme" where
  "pioflash_verify offset [] s = (0, s)"
| "pioflash_verify offset (b # bs) s =
    (let (v, s) = flash_read offset s;
         (n, s) = pioflash_verify (offset + 1) bs s
     in (if v \<noteq> b then n + 1 else n, s))"

definition flash_erase_pre :: "'a hw_scheme \<Rightarrow> 'a hw_scheme" where
  "flash_erase_pre s = flash_unlock (flash_write FLASH_CMD_ADDR1 FLASH_CMD_ERASE_PRE (flash_unlock s))"

definition pioflash_erase_chip :: "'a hw_scheme \<Rightarrow> bool \<times> 'a hw_scheme" where
  "pioflash_erase_chip s = flash_poll_toggle 0 100000000 (flash_write FLASH_CMD_ADDR1 FLASH_CMD_ERASE_CHIP (flash_erase_pre s))"

definition pioflash_erase_sector :: "u32 \<Rightarrow> 'a hw_scheme \<Rightarrow> bool \<times> 'a hw_scheme" where
  "pioflash_erase_sector sector_addr s = flash_poll_toggle sector_addr 5000000 (flash_write sector_addr FLASH_CMD_ERASE_SECT (flash_erase_pre s))"

definition pioflash_program_byte :: "u32 \<Rightarrow> u8 \<Rightarrow> 'a hw_scheme \<Rightarrow> bool \<times> 'a hw_scheme" where
  "pioflash_program_byte offset data s =
    (if data = 0xFF then (True, s)
     else flash_poll_toggle offset 500000 (flash_write offset data (flash_write FLASH_CMD_ADDR1 FLASH_CMD_PROGRAM (flash_unlock s))))"

text \<open>The loop over sectors; \<open>None\<close> when it does not end.\<close>

partial_function (option) erase_sectors :: "u32 \<Rightarrow> u32 \<Rightarrow> u32 \<Rightarrow> 'a hw_scheme \<Rightarrow> (bool \<times> 'a hw_scheme) option" where
  "erase_sectors sect_size sect_addr sect_end s =
    (if sect_addr < sect_end
     then case pioflash_erase_sector sect_addr s of
            (ok, s) \<Rightarrow> if \<not> ok then Some (False, s) else erase_sectors sect_size (sect_addr + sect_size) sect_end s
     else Some (True, s))"

fun program_bytes :: "u32 \<Rightarrow> u8 list \<Rightarrow> 'a hw_scheme \<Rightarrow> bool \<times> 'a hw_scheme" where
  "program_bytes offset [] s = (True, s)"
| "program_bytes offset (b # bs) s =
    (case pioflash_program_byte offset b s of (False, s) \<Rightarrow> (False, s) | (True, s) \<Rightarrow> program_bytes (offset + 1) bs s)"

text \<open>Without the calls of the progress display. A sector size of zero divides by zero.\<close>

definition pioflash_program :: "pioflash_info \<Rightarrow> u32 \<Rightarrow> u8 list \<Rightarrow> 'a hw_scheme \<Rightarrow> (bool \<times> 'a hw_scheme) option" where
  "pioflash_program info offset buf s =
    (if fi_sector_size info = 0 then None
     else case erase_sectors (fi_sector_size info) (offset div fi_sector_size info * fi_sector_size info) (offset + of_nat (length buf)) s of
            None \<Rightarrow> None
          | Some (False, s) \<Rightarrow> Some (False, s)
          | Some (True, s) \<Rightarrow> Some (program_bytes offset buf s))"

section \<open>Transfers\<close>

definition pioflash_xfer_hdr :: "u32 \<Rightarrow> u8 \<Rightarrow> u8 \<Rightarrow> u8 list" where
  "pioflash_xfer_hdr sz mfr dev = le32_encode PIOFLASH_MAGIC @ le32_encode sz @ [mfr, dev] @ replicate 6 0"

fun dump_bytes :: "u32 \<Rightarrow> nat \<Rightarrow> 'a hw_scheme \<Rightarrow> 'a hw_scheme option" where
  "dump_bytes i 0 s = Some s"
| "dump_bytes i (Suc n) s = (let (b, s) = flash_read i s in Option.bind (serial_putchar b s) (dump_bytes (i + 1) n))"

definition pioflash_dump_serial :: "pioflash_info \<Rightarrow> 'a hw_scheme \<Rightarrow> 'a hw_scheme option" where
  "pioflash_dump_serial info s =
    Option.bind (serial_puts (pioflash_xfer_hdr (fi_size info) (fi_mfr_id info) (fi_dev_id info)) s) (dump_bytes 0 (unat (fi_size info)))"

fun recv_hdr :: "nat \<Rightarrow> u8 list \<Rightarrow> 'a hw_scheme \<Rightarrow> u8 list option \<times> 'a hw_scheme" where
  "recv_hdr 0 acc s = (Some acc, s)"
| "recv_hdr (Suc n) acc s = (case serial_getchar s of (None, s) \<Rightarrow> (None, s) | (Some b, s) \<Rightarrow> recv_hdr n (acc @ [b]) s)"

fun load_bytes :: "u32 \<Rightarrow> nat \<Rightarrow> 'a hw_scheme \<Rightarrow> bool \<times> 'a hw_scheme" where
  "load_bytes i 0 s = (True, s)"
| "load_bytes i (Suc n) s =
    (case serial_getchar s of
       (None, s) \<Rightarrow> (False, s)
     | (Some b, s) \<Rightarrow> (case pioflash_program_byte i b s of (False, s) \<Rightarrow> (False, s) | (True, s) \<Rightarrow> load_bytes (i + 1) n s))"

definition pioflash_load_serial :: "pioflash_info \<Rightarrow> 'a hw_scheme \<Rightarrow> (bool \<times> 'a hw_scheme) option" where
  "pioflash_load_serial info s =
    (case recv_hdr 16 [] s of
       (None, s) \<Rightarrow> Some (False, s)
     | (Some hdr, s) \<Rightarrow>
        let hsize = le32_at hdr 4 in
        if le32_at hdr 0 \<noteq> PIOFLASH_MAGIC then Some (False, s)
        else if hsize > fi_size info then Some (False, s)
        else if hsize = 0 then Some (False, s)
        else case erase_sectors (fi_sector_size info) 0 hsize s of
               None \<Rightarrow> None
             | Some (False, s) \<Rightarrow> Some (False, s)
             | Some (True, s) \<Rightarrow>
                 (case load_bytes 0 (unat hsize) s of
                    (False, s) \<Rightarrow> Some (False, s)
                  | (True, s) \<Rightarrow> map_option (Pair True) (serial_putchar 86 s)))"

text \<open>\<^verbatim>\<open>main\<close> of the two host scripts: what one saves of the bytes that arrive, and what the other sends.\<close>

definition pioflash_recv :: "u8 list \<Rightarrow> u8 list option" where
  "pioflash_recv rx =
    (if length rx < 16 then None
     else if le32_at rx 0 \<noteq> PIOFLASH_MAGIC then None
     else let sz = unat (le32_at rx 4) in
          if length rx < 16 + sz then None else Some (take sz (drop 16 rx)))"

definition pioflash_send :: "u8 list \<Rightarrow> u8 list option" where
  "pioflash_send data = (if length data > 1024 * 1024 then None else Some (pioflash_xfer_hdr (of_nat (length data)) 0 0 @ data))"

section \<open>The chip\<close>

text \<open>
  What the data sheets of these chips describe: a command is a sequence of writes;
  an operation takes a while, during which bit 6 toggles from one read to the
  next; programming only clears bits; an erase sets the bytes of a sector. The
  latencies, in reads of the status, may depend on everything that happened before.
\<close>

datatype jedec_mode = Reading | Unlocked1 | Unlocked2 | Autosel | Programming | Erase0 | Erase1 | Erase2 | Busy nat

record nor =
  cells :: "u32 \<Rightarrow> u8"
  nmode :: jedec_mode

record chip =
  c_size :: nat
  c_sect :: nat
  c_mfr :: u8
  c_dev :: u8
  lat_prog :: "bus_trace \<Rightarrow> nat"
  lat_sect :: "bus_trace \<Rightarrow> nat"
  lat_chip :: "bus_trace \<Rightarrow> nat"

definition busy :: "nat \<Rightarrow> jedec_mode" where
  "busy n = (if n = 0 then Reading else Busy n)"

definition same_sector :: "chip \<Rightarrow> u32 \<Rightarrow> u32 \<Rightarrow> bool" where
  "same_sector k a b \<longleftrightarrow> unat a div c_sect k = unat b div c_sect k"

definition jedec_write :: "chip \<Rightarrow> bus_trace \<Rightarrow> u32 \<Rightarrow> u8 \<Rightarrow> nor \<Rightarrow> nor" where
  "jedec_write k t a v c =
    (let at1 = (\<lambda>x. a = FLASH_CMD_ADDR1 \<and> v = x); at2 = (a = FLASH_CMD_ADDR2 \<and> v = FLASH_CMD_UNLOCK2) in
     case nmode c of
       Busy n \<Rightarrow> c
     | Programming \<Rightarrow> c\<lparr>cells := (cells c)(a := cells c a AND v), nmode := busy (lat_prog k t)\<rparr>
     | Unlocked1 \<Rightarrow> c\<lparr>nmode := if at2 then Unlocked2 else Reading\<rparr>
     | Unlocked2 \<Rightarrow> c\<lparr>nmode := if at1 FLASH_CMD_AUTOSEL then Autosel else if at1 FLASH_CMD_PROGRAM then Programming
                       else if at1 FLASH_CMD_ERASE_PRE then Erase0 else Reading\<rparr>
     | Erase0 \<Rightarrow> c\<lparr>nmode := if at1 FLASH_CMD_UNLOCK1 then Erase1 else Reading\<rparr>
     | Erase1 \<Rightarrow> c\<lparr>nmode := if at2 then Erase2 else Reading\<rparr>
     | Erase2 \<Rightarrow> if v = FLASH_CMD_ERASE_SECT
                 then c\<lparr>cells := (\<lambda>x. if same_sector k a x then 0xFF else cells c x), nmode := busy (lat_sect k t)\<rparr>
                 else if at1 FLASH_CMD_ERASE_CHIP then c\<lparr>cells := (\<lambda>x. 0xFF), nmode := busy (lat_chip k t)\<rparr>
                 else c\<lparr>nmode := Reading\<rparr>
     | _ \<Rightarrow> c\<lparr>nmode := if at1 FLASH_CMD_UNLOCK1 then Unlocked1 else if v = FLASH_CMD_RESET then Reading else nmode c\<rparr>)"

definition jedec_read :: "nor \<Rightarrow> nor" where
  "jedec_read c = (case nmode c of Busy n \<Rightarrow> c\<lparr>nmode := busy (n - 1)\<rparr> | _ \<Rightarrow> c)"

abbreviation (input) on_chip :: "chip \<Rightarrow> u32 \<Rightarrow> bool" where
  "on_chip k a \<equiv> unat (a - PIO_FLASH_BASE) < c_size k"

fun nor_after :: "chip \<Rightarrow> nor \<Rightarrow> bus_trace \<Rightarrow> nor" where
  "nor_after k c0 [] = c0"
| "nor_after k c0 (Rd a v # t) = (if on_chip k a then jedec_read (nor_after k c0 t) else nor_after k c0 t)"
| "nor_after k c0 (Wr a v # t) = (if on_chip k a then jedec_write k t (a - PIO_FLASH_BASE) (ucast v) (nor_after k c0 t) else nor_after k c0 t)"
| "nor_after k c0 (Delay n # t) = nor_after k c0 t"

text \<open>The hypothesis: reads answer as the data sheet says.\<close>

definition nor_chip :: "(bus_trace \<Rightarrow> u32 \<Rightarrow> u32) \<Rightarrow> chip \<Rightarrow> nor \<Rightarrow> bool" where
  "nor_chip env k c0 \<longleftrightarrow> (\<forall>t a. unat a < c_size k \<longrightarrow>
     (let c = nor_after k c0 t; v = ucast (env t (PIO_FLASH_BASE + a)) :: u8 in
      case nmode c of
        Busy n \<Rightarrow> bit v 6 \<longleftrightarrow> odd n
      | Autosel \<Rightarrow> v = (if a = 0 then c_mfr k else if a = 1 then c_dev k else cells c a)
      | _ \<Rightarrow> v = cells c a))"

text \<open>The chip is large enough for the command addresses, and fast enough for the limits of the code.\<close>

definition chip_ok :: "chip \<Rightarrow> bool" where
  "chip_ok k \<longleftrightarrow> 0x5555 < c_size k \<and> c_size k \<le> 0x800000 \<and> 0 < c_sect k \<and> c_sect k \<le> 2 ^ 24 \<and>
     (\<forall>t. lat_prog k t + 2 \<le> 500000 \<and> lat_sect k t + 2 \<le> 5000000 \<and> lat_chip k t + 2 \<le> 100000000)"

definition flash_rel :: "chip \<Rightarrow> nor \<Rightarrow> 'a hw_scheme \<Rightarrow> nor \<Rightarrow> bool" where
  "flash_rel k c0 s c \<longleftrightarrow> nor_chip (hw_env s) k c0 \<and> nor_after k c0 (hw_trace s) = c"

lemma flash_read_rel:
  assumes "flash_rel k c0 s c" "unat a < c_size k" "flash_read a s = (v, s')"
  shows "flash_rel k c0 s' (jedec_read c)" "nmode c = Busy n \<Longrightarrow> bit v 6 \<longleftrightarrow> odd n" "nmode c = Reading \<Longrightarrow> v = cells c a"
    "nmode c = Autosel \<Longrightarrow> v = (if a = 0 then c_mfr k else if a = 1 then c_dev k else cells c a)"
proof -
  have c: "nor_after k c0 (hw_trace s) = c" and env: "nor_chip (hw_env s) k c0" and v: "v = ucast (hw_env s (hw_trace s) (PIO_FLASH_BASE + a))"
    using assms(1,3) by (auto simp: flash_rel_def flash_read_def in8_def Let_def)
  show "flash_rel k c0 s' (jedec_read c)"
    using assms c env by (auto simp: flash_rel_def flash_read_def in8_def Let_def)
  have r: "case nmode c of Busy n \<Rightarrow> bit v 6 \<longleftrightarrow> odd n
      | Autosel \<Rightarrow> v = (if a = 0 then c_mfr k else if a = 1 then c_dev k else cells c a) | _ \<Rightarrow> v = cells c a"
    using env assms(2) c v unfolding nor_chip_def Let_def by metis
  show "nmode c = Busy n \<Longrightarrow> bit v 6 \<longleftrightarrow> odd n" "nmode c = Reading \<Longrightarrow> v = cells c a"
      "nmode c = Autosel \<Longrightarrow> v = (if a = 0 then c_mfr k else if a = 1 then c_dev k else cells c a)"
    using r by auto
qed

lemma flash_write_rel:
  assumes "flash_rel k c0 s c" "unat a < c_size k"
  shows "flash_rel k c0 (flash_write a v s) (jedec_write k (hw_trace s) a v c)"
  using assms by (auto simp: flash_rel_def flash_write_def out8_def)

lemma and_exp: "(v :: u8) AND 2 ^ n = (if bit v n then 2 ^ n else 0)"
  by (rule bit_word_eqI) (auto simp: bit_simps)

lemma and_40: "v AND 0x40 = (if bit (v :: u8) 6 then 0x40 else 0)"
  using and_exp [of v 6] by simp

lemma flash_poll_done:
  assumes "flash_rel k c0 s c" "nmode c = busy r" "unat a < c_size k" "r + 2 \<le> N" "prev = (if odd (Suc r) then 0x40 else 0)"
  shows "\<exists>s'. flash_poll a N prev s = (True, s') \<and> flash_rel k c0 s' (c\<lparr>nmode := Reading\<rparr>)"
  using assms
proof (induction r arbitrary: s c N prev)
  case 0
  then obtain N' where N: "N = Suc (Suc N')"
    by (metis add_2_eq_Suc' le_Suc_ex plus_nat.add_0 add.commute)
  obtain v1 s1 where r1: "flash_read a s = (v1, s1)"
    by fastforce
  obtain v2 s2 where r2: "flash_read a s1 = (v2, s2)"
    by fastforce
  have m: "nmode c = Reading" "c\<lparr>nmode := Reading\<rparr> = c"
    using 0(2) by (simp_all add: busy_def)
  note a1 = flash_read_rel [OF 0(1,3) r1]
  have c1: "flash_rel k c0 s1 c"
    using a1(1) m by (simp add: jedec_read_def)
  note a2 = flash_read_rel [OF c1 0(3) r2]
  have "v1 = v2" "flash_rel k c0 s2 c"
    using a1(3) a2(1,3) m by (simp_all add: jedec_read_def)
  then show ?case
    using N r1 r2 c1 unfolding m(2) by (simp add: Let_def)
next
  case (Suc r)
  then obtain N' where N: "N = Suc N'" "r + 2 \<le> N'"
    by (cases N) auto
  obtain v1 s1 where r1: "flash_read a s = (v1, s1)"
    by fastforce
  note a1 = flash_read_rel [OF Suc.prems(1,3) r1]
  have m: "nmode c = Busy (Suc r)"
    using Suc.prems(2) by (simp add: busy_def)
  have v: "v1 AND 0x40 = (if odd (Suc r) then 0x40 else 0)"
    using a1(2) [OF m] by (simp add: and_40)
  have "flash_rel k c0 s1 (c\<lparr>nmode := busy r\<rparr>)"
    using a1(1) m by (simp add: jedec_read_def)
  from Suc.IH [OF this _ Suc.prems(3) N(2) refl] obtain s' where "flash_poll a N' (if odd (Suc r) then 0x40 else 0) s1 = (True, s')"
      "flash_rel k c0 s' (c\<lparr>nmode := Reading\<rparr>)"
    by auto
  then show ?case
    using N(1) r1 v Suc.prems(5) by (simp add: Let_def)
qed

lemma flash_poll_toggle_done:
  assumes "flash_rel k c0 s c" "nmode c = busy n" "unat a < c_size k" "n + 2 \<le> N"
  shows "\<exists>s'. flash_poll_toggle a N s = (True, s') \<and> flash_rel k c0 s' (c\<lparr>nmode := Reading\<rparr>)"
proof -
  obtain v s1 where r: "flash_read a s = (v, s1)"
    by fastforce
  note a1 = flash_read_rel [OF assms(1,3) r]
  show ?thesis
  proof (cases n)
    case 0
    obtain v2 s2 where r2: "flash_read a s1 = (v2, s2)"
      by fastforce
    have m: "nmode c = Reading" "c\<lparr>nmode := Reading\<rparr> = c"
      using assms(2) 0 by (simp_all add: busy_def)
    then have c1: "flash_rel k c0 s1 c"
      using a1(1) by (simp add: jedec_read_def)
    obtain N' where "N = Suc N'"
      using assms(4) by (cases N) auto
    then show ?thesis
      using flash_read_rel [OF c1 assms(3) r2] a1(3) m(1) r r2 unfolding m(2) by (simp add: flash_poll_toggle_def jedec_read_def)
  next
    case (Suc j)
    then have m: "nmode c = Busy (Suc j)"
      using assms(2) by (simp add: busy_def)
    then have "v AND 0x40 = (if odd (Suc j) then 0x40 else 0)" "flash_rel k c0 s1 (c\<lparr>nmode := busy j\<rparr>)"
      using a1(1,2) by (simp_all add: and_40 jedec_read_def)
    then show ?thesis
      using flash_poll_done [of k c0 s1 "c\<lparr>nmode := busy j\<rparr>" j a N] assms(3,4) Suc r by (simp add: flash_poll_toggle_def)
  qed
qed

section \<open>Commands\<close>

lemma chip_addrs:
  assumes "chip_ok k"
  shows "unat FLASH_CMD_ADDR1 < c_size k" "unat FLASH_CMD_ADDR2 < c_size k" "unat (0 :: u32) < c_size k" "unat (1 :: u32) < c_size k"
  using assms by (simp_all add: chip_ok_def)

lemma flash_unlock_rel:
  assumes "chip_ok k" "flash_rel k c0 s c"
  shows "nmode c = Reading \<Longrightarrow> flash_rel k c0 (flash_unlock s) (c\<lparr>nmode := Unlocked2\<rparr>)"
    "nmode c = Erase0 \<Longrightarrow> flash_rel k c0 (flash_unlock s) (c\<lparr>nmode := Erase2\<rparr>)"
proof -
  note w1 = flash_write_rel [OF assms(2) chip_addrs(1) [OF assms(1)], of FLASH_CMD_UNLOCK1]
  note w2 = flash_write_rel [OF w1 chip_addrs(2) [OF assms(1)], of FLASH_CMD_UNLOCK2]
  show "flash_rel k c0 (flash_unlock s) (c\<lparr>nmode := Unlocked2\<rparr>)" if "nmode c = Reading"
    using w2 that by (simp add: flash_unlock_def jedec_write_def)
  show "flash_rel k c0 (flash_unlock s) (c\<lparr>nmode := Erase2\<rparr>)" if "nmode c = Erase0"
    using w2 that by (simp add: flash_unlock_def jedec_write_def)
qed

lemma flash_erase_pre_rel:
  assumes "chip_ok k" "flash_rel k c0 s c" "nmode c = Reading"
  shows "flash_rel k c0 (flash_erase_pre s) (c\<lparr>nmode := Erase2\<rparr>)"
proof -
  have "flash_rel k c0 (flash_write FLASH_CMD_ADDR1 FLASH_CMD_ERASE_PRE (flash_unlock s)) (c\<lparr>nmode := Erase0\<rparr>)"
    using flash_write_rel [OF flash_unlock_rel(1) [OF assms] chip_addrs(1) [OF assms(1)], of FLASH_CMD_ERASE_PRE]
    by (simp add: jedec_write_def)
  from flash_unlock_rel(2) [OF assms(1) this] show ?thesis
    by (simp add: flash_erase_pre_def)
qed

lemma erase_sector_done:
  assumes "chip_ok k" "flash_rel k c0 s c" "nmode c = Reading" "unat a < c_size k"
  shows "\<exists>s'. pioflash_erase_sector a s = (True, s') \<and>
    flash_rel k c0 s' (c\<lparr>cells := (\<lambda>x. if same_sector k a x then 0xFF else cells c x), nmode := Reading\<rparr>)"
proof -
  let ?t = "hw_trace (flash_erase_pre s)"
  have "flash_rel k c0 (flash_write a FLASH_CMD_ERASE_SECT (flash_erase_pre s))
      (c\<lparr>cells := (\<lambda>x. if same_sector k a x then 0xFF else cells c x), nmode := busy (lat_sect k ?t)\<rparr>)"
    using flash_write_rel [OF flash_erase_pre_rel [OF assms(1-3)] assms(4), of FLASH_CMD_ERASE_SECT] by (simp add: jedec_write_def Let_def cong: if_cong)
  moreover have "lat_sect k ?t + 2 \<le> 5000000"
    using assms(1) by (simp add: chip_ok_def)
  ultimately show ?thesis
    using flash_poll_toggle_done [OF _ _ assms(4), of c0 _ _ "lat_sect k ?t" 5000000] by (fastforce simp: pioflash_erase_sector_def)
qed

lemma erase_chip_done:
  assumes "chip_ok k" "flash_rel k c0 s c" "nmode c = Reading"
  shows "\<exists>s'. pioflash_erase_chip s = (True, s') \<and> flash_rel k c0 s' (c\<lparr>cells := (\<lambda>x. 0xFF), nmode := Reading\<rparr>)"
proof -
  let ?t = "hw_trace (flash_erase_pre s)"
  have "flash_rel k c0 (flash_write FLASH_CMD_ADDR1 FLASH_CMD_ERASE_CHIP (flash_erase_pre s))
      (c\<lparr>cells := (\<lambda>x. 0xFF), nmode := busy (lat_chip k ?t)\<rparr>)"
    using flash_write_rel [OF flash_erase_pre_rel [OF assms] chip_addrs(1) [OF assms(1)], of FLASH_CMD_ERASE_CHIP] by (simp add: jedec_write_def Let_def)
  moreover have "lat_chip k ?t + 2 \<le> 100000000"
    using assms(1) by (simp add: chip_ok_def)
  ultimately show ?thesis
    using flash_poll_toggle_done [OF _ _ chip_addrs(3) [OF assms(1)], of c0 _ _ "lat_chip k ?t" 100000000] by (fastforce simp: pioflash_erase_chip_def)
qed

lemma and_FF: "(x :: u8) AND 0xFF = x" "0xFF AND x = x"
proof -
  have "(0xFF :: u8) = - 1"
    by simp
  then show "x AND 0xFF = x" "0xFF AND x = x"
    by (simp_all only: and.right_neutral and.left_neutral)
qed

lemma program_byte_done:
  assumes "chip_ok k" "flash_rel k c0 s c" "nmode c = Reading" "unat a < c_size k"
  shows "\<exists>s'. pioflash_program_byte a d s = (True, s') \<and> flash_rel k c0 s' (c\<lparr>cells := (cells c)(a := cells c a AND d)\<rparr>)"
proof (cases "d = 0xFF")
  case True
  then have "cells c a AND d = cells c a"
    by (simp add: and_FF)
  then show ?thesis
    using assms True by (simp add: pioflash_program_byte_def)
next
  case False
  let ?s = "flash_write FLASH_CMD_ADDR1 FLASH_CMD_PROGRAM (flash_unlock s)"
  have p: "flash_rel k c0 ?s (c\<lparr>nmode := Programming\<rparr>)"
    using flash_write_rel [OF flash_unlock_rel(1) [OF assms(1-3)] chip_addrs(1) [OF assms(1)], of FLASH_CMD_PROGRAM] by (simp add: jedec_write_def)
  have "flash_rel k c0 (flash_write a d ?s) (c\<lparr>cells := (cells c)(a := cells c a AND d), nmode := busy (lat_prog k (hw_trace ?s))\<rparr>)"
    using flash_write_rel [OF p assms(4), of d] by (simp add: jedec_write_def Let_def)
  moreover have "lat_prog k (hw_trace ?s) + 2 \<le> 500000"
    using assms(1) by (simp add: chip_ok_def)
  ultimately have "\<exists>s'. pioflash_program_byte a d s = (True, s') \<and> flash_rel k c0 s' (c\<lparr>cells := (cells c)(a := cells c a AND d), nmode := Reading\<rparr>)"
    using flash_poll_toggle_done [OF _ _ assms(4), of c0 _ _ "lat_prog k (hw_trace ?s)" 500000] False by (fastforce simp: pioflash_program_byte_def)
  moreover have "c\<lparr>cells := (cells c)(a := cells c a AND d), nmode := Reading\<rparr> = c\<lparr>cells := (cells c)(a := cells c a AND d)\<rparr>"
    using assms(3) by (cases c) simp
  ultimately show ?thesis
    by metis
qed

section \<open>Programming a buffer\<close>

lemma unat_small: "n < 2 ^ 32 \<Longrightarrow> unat (of_nat n :: u32) = n"
  by (simp add: unat_of_nat take_bit_nat_eq_self)

text \<open>The sectors from number \<open>i\<close> that start below \<open>n\<close>, erased.\<close>

definition erased_from :: "chip \<Rightarrow> nat \<Rightarrow> nat \<Rightarrow> nor \<Rightarrow> nor" where
  "erased_from k i n c = c\<lparr>cells := (\<lambda>x. if i \<le> unat x div c_sect k \<and> unat x div c_sect k * c_sect k < n then 0xFF else cells c x)\<rparr>"

lemma erase_sectors_done:
  assumes "chip_ok k" "flash_rel k c0 s c" "nmode c = Reading" "n \<le> c_size k" "i * c_sect k \<le> 2 ^ 25"
  shows "\<exists>s'. erase_sectors (of_nat (c_sect k)) (of_nat (i * c_sect k)) (of_nat n) s = Some (True, s') \<and> flash_rel k c0 s' (erased_from k i n c)"
  using assms(2-5)
proof (induction "n - i * c_sect k" arbitrary: i s c rule: less_induct)
  case less
  let ?S = "c_sect k"
  have k: "0 < ?S" "?S \<le> 2 ^ 24" "c_size k \<le> 0x800000"
    using assms(1) by (simp_all add: chip_ok_def)
  have u: "unat (of_nat (i * ?S) :: u32) = i * ?S" "unat (of_nat n :: u32) = n"
    using less.prems(3,4) k by (intro unat_small; simp)+
  show ?case
  proof (cases "i * ?S < n")
    case True
    have "unat (of_nat (i * ?S) :: u32) < c_size k"
      using True less.prems(3) u by simp
    from erase_sector_done [OF assms(1) less.prems(1,2) this] obtain s1 where
      s1: "pioflash_erase_sector (of_nat (i * ?S)) s = (True, s1)"
        "flash_rel k c0 s1 (c\<lparr>cells := (\<lambda>x. if same_sector k (of_nat (i * ?S)) x then 0xFF else cells c x), nmode := Reading\<rparr>)"
      by blast
    let ?c = "c\<lparr>cells := (\<lambda>x. if same_sector k (of_nat (i * ?S)) x then 0xFF else cells c x), nmode := Reading\<rparr>"
    have ss: "same_sector k (of_nat (i * ?S)) x \<longleftrightarrow> unat x div ?S = i" for x
      using u(1) k(1) by (auto simp: same_sector_def)
    have e: "erased_from k (Suc i) n ?c = erased_from k i n c"
      using True less.prems(2) unfolding erased_from_def ss by (cases c) (auto simp: fun_eq_iff le_Suc_eq)
    have "n - Suc i * ?S < n - i * ?S" "Suc i * ?S \<le> 2 ^ 25"
      using True k less.prems(3) by (auto simp: diff_less_mono2)
    from less.hyps [OF this(1) s1(2) _ less.prems(3) this(2)] obtain s' where
      "erase_sectors (of_nat ?S) (of_nat (Suc i * ?S)) (of_nat n) s1 = Some (True, s')" "flash_rel k c0 s' (erased_from k i n c)"
      unfolding e by auto
    moreover have "(of_nat (i * ?S) + of_nat ?S :: u32) = of_nat (Suc i * ?S)"
      by simp
    ultimately show ?thesis
      using s1(1) True u by (simp add: erase_sectors.simps [of _ "of_nat (i * ?S)"] word_less_nat_alt del: of_nat_mult mult_Suc)
  next
    case False
    have "unat x div ?S * ?S < n \<longrightarrow> \<not> i \<le> unat x div ?S" for x :: u32
      using False by (meson leI le_trans mult_le_mono1 not_le)
    then have "erased_from k i n c = c"
      by (cases c) (auto simp: erased_from_def fun_eq_iff)
    then show ?thesis
      using False u less.prems(1) by (simp add: erase_sectors.simps [of _ "of_nat (i * ?S)"] word_less_nat_alt del: of_nat_mult)
  qed
qed

definition programmed :: "nat \<Rightarrow> u8 list \<Rightarrow> nor \<Rightarrow> nor" where
  "programmed off bs c = c\<lparr>cells := (\<lambda>x. if off \<le> unat x \<and> unat x < off + length bs then cells c x AND bs ! (unat x - off) else cells c x)\<rparr>"

lemma program_bytes_done:
  assumes "chip_ok k" "flash_rel k c0 s c" "nmode c = Reading" "off + length bs \<le> c_size k"
  shows "\<exists>s'. program_bytes (of_nat off) bs s = (True, s') \<and> flash_rel k c0 s' (programmed off bs c)"
  using assms(2-4)
proof (induction bs arbitrary: off s c)
  case Nil
  have "programmed off [] c = c"
    by (cases c) (auto simp: programmed_def fun_eq_iff)
  then show ?case
    using Nil by simp
next
  case (Cons b bs)
  have k: "c_size k \<le> 0x800000"
    using assms(1) by (simp add: chip_ok_def)
  then have u: "unat (of_nat off :: u32) = off"
    using Cons.prems(3) by (intro unat_small) simp
  let ?c = "c\<lparr>cells := (cells c)(of_nat off := cells c (of_nat off) AND b)\<rparr>"
  have "unat (of_nat off :: u32) < c_size k"
    using u Cons.prems(3) by simp
  from program_byte_done [OF assms(1) Cons.prems(1,2) this] obtain s1 where
    s1: "pioflash_program_byte (of_nat off) b s = (True, s1)" "flash_rel k c0 s1 ?c"
    by blast
  have x: "x = of_nat off \<longleftrightarrow> unat x = off" for x :: u32
    using u by (simp add: word_unat_eq_iff)
  have "programmed (Suc off) bs ?c = programmed off (b # bs) c"
    unfolding programmed_def by (cases c) (auto simp: fun_eq_iff x nth_Cons' u Suc_le_eq)
  moreover obtain s' where "program_bytes (of_nat (Suc off)) bs s1 = (True, s')" "flash_rel k c0 s' (programmed (Suc off) bs ?c)"
    using Cons.IH [OF s1(2), of "Suc off"] Cons.prems(2,3) by auto
  ultimately show ?case
    using s1(1) by (simp add: add.commute)
qed

lemma verify_done:
  assumes "flash_rel k c0 s c" "nmode c = Reading" "off + length bs \<le> c_size k" "c_size k \<le> 0x800000"
    and "\<forall>i<length bs. cells c (of_nat (off + i)) = bs ! i"
  shows "fst (pioflash_verify (of_nat off) bs s) = 0"
  using assms
proof (induction bs arbitrary: off s)
  case (Cons b bs)
  obtain v s1 where r: "flash_read (of_nat off) s = (v, s1)"
    by fastforce
  have "unat (of_nat off :: u32) < c_size k"
    using Cons.prems(3,4) by (subst unat_small) simp_all
  note a = flash_read_rel [OF Cons.prems(1) this r]
  have "flash_rel k c0 s1 c" "v = b"
    using a(1,3) Cons.prems(2) Cons.prems(5) [rule_format, of 0] by (simp_all add: jedec_read_def)
  moreover have "\<forall>i<length bs. cells c (of_nat (Suc off + i)) = bs ! i"
  proof (intro allI impI)
    fix i assume "i < length bs"
    then show "cells c (of_nat (Suc off + i)) = bs ! i"
      using Cons.prems(5) [rule_format, of "Suc i"] by (simp add: ac_simps)
  qed
  ultimately have "fst (pioflash_verify (of_nat (Suc off)) bs s1) = 0"
    using Cons.IH [of s1 "Suc off"] Cons.prems(2-4) by auto
  then show ?case
    using r \<open>v = b\<close> by (simp add: Let_def add.commute split: prod.splits)
qed simp

text \<open>
  C11: Programming a cartridge. On a chip that keeps its data sheet, \<^verbatim>\<open>pioflash_program\<close>
  succeeds: every byte of the buffer is then in its cell and \<^verbatim>\<open>pioflash_verify\<close> finds no
  difference. The rest of the sectors it touched reads erased, whatever was there;
  every other sector is unchanged.
\<close>

theorem pioflash_program_correct:
  assumes "chip_ok k" "flash_rel k c0 s c" "nmode c = Reading" "fi_sector_size info = of_nat (c_sect k)" "unat offset + length buf \<le> c_size k"
  shows "\<exists>s' c'. pioflash_program info offset buf s = Some (True, s') \<and> flash_rel k c0 s' c' \<and> nmode c' = Reading \<and>
    (\<forall>x. cells c' x =
      (if unat offset \<le> unat x \<and> unat x < unat offset + length buf then buf ! (unat x - unat offset)
       else if unat offset div c_sect k \<le> unat x div c_sect k \<and> unat x div c_sect k * c_sect k < unat offset + length buf then 0xFF
       else cells c x)) \<and>
    fst (pioflash_verify offset buf s') = 0"
proof -
  let ?S = "c_sect k" and ?i = "unat offset div c_sect k" and ?n = "unat offset + length buf"
  have k: "0 < ?S" "?S \<le> 2 ^ 24" "c_size k \<le> 0x800000"
    using assms(1) by (simp_all add: chip_ok_def)
  have S: "unat (of_nat ?S :: u32) = ?S"
    using k by (intro unat_small) simp
  then have ne: "(of_nat ?S :: u32) \<noteq> 0"
    using k(1) by (metis unat_0 less_irrefl)
  have iS: "?i * ?S \<le> unat offset"
    by simp
  have "unat (offset div of_nat ?S) = ?i"
    by (simp add: unat_div S)
  then have a: "offset div of_nat ?S * of_nat ?S = (of_nat (?i * ?S) :: u32)"
    by (metis of_nat_mult of_nat_unat ucast_id)
  have b: "offset + of_nat (length buf) = (of_nat ?n :: u32)"
    by simp
  have "?i * ?S \<le> 2 ^ 25"
    using assms(5) k(3) by (intro order_trans [OF iS]) simp
  from erase_sectors_done [OF assms(1-3) assms(5) this] obtain s1 where
    s1: "erase_sectors (of_nat ?S) (of_nat (?i * ?S)) (of_nat ?n) s = Some (True, s1)" "flash_rel k c0 s1 (erased_from k ?i ?n c)"
    by blast
  let ?c = "programmed (unat offset) buf (erased_from k ?i ?n c)"
  have m: "nmode (erased_from k ?i ?n c) = Reading" "nmode ?c = Reading"
    using assms(3) by (simp_all add: erased_from_def programmed_def)
  from program_bytes_done [OF assms(1) s1(2) m(1) assms(5)] obtain s' where
    s': "program_bytes offset buf s1 = (True, s')" "flash_rel k c0 s' ?c"
    by auto
  have cells: "cells ?c x = (if unat offset \<le> unat x \<and> unat x < ?n then buf ! (unat x - unat offset)
      else if ?i \<le> unat x div ?S \<and> unat x div ?S * ?S < ?n then 0xFF else cells c x)" for x
  proof -
    have "?i \<le> unat x div ?S \<and> unat x div ?S * ?S < ?n" if "unat offset \<le> unat x" "unat x < ?n"
      using that div_le_mono le_less_trans [OF div_times_less_eq_dividend] by blast
    then show ?thesis
      by (simp add: programmed_def erased_from_def and_FF)
  qed
  have "fst (pioflash_verify (of_nat (unat offset)) buf s') = 0"
  proof (rule verify_done [OF s'(2) m(2) assms(5) k(3)], intro allI impI)
    fix i assume i: "i < length buf"
    have "unat (of_nat (unat offset + i) :: u32) = unat offset + i"
      using i assms(5) k(3) by (intro unat_small) simp
    then show "cells ?c (of_nat (unat offset + i)) = buf ! i"
      using i unfolding cells by simp
  qed
  moreover have "pioflash_program info offset buf s = Some (True, s')"
    using s1(1) s'(1) ne assms(4) unfolding pioflash_program_def assms(4) a b by simp
  ultimately show ?thesis
    using s'(2) m(2) cells by (intro exI [of _ s'] exI [of _ ?c]) simp
qed

text \<open>A chip that keeps its data sheet.\<close>

definition nor_env :: "chip \<Rightarrow> nor \<Rightarrow> bus_trace \<Rightarrow> u32 \<Rightarrow> u32" where
  "nor_env k c0 t x =
    (let c = nor_after k c0 t; a = x - PIO_FLASH_BASE in
     case nmode c of
       Busy n \<Rightarrow> if odd n then 0x40 else 0
     | Autosel \<Rightarrow> ucast (if a = 0 then c_mfr k else if a = 1 then c_dev k else cells c a)
     | _ \<Rightarrow> ucast (cells c a))"

lemma bit_40: "bit (0x40 :: u8) 6"
proof -
  have "bit (2 ^ 6 :: u8) 6"
    by (simp only: bit_exp_iff) simp
  then show ?thesis by simp
qed

lemma ucast_ucast_u8: "ucast (ucast (v :: u8) :: u32) = v"
  by (rule bit_word_eqI) (auto simp: bit_simps)

lemma nor_env_chip: "nor_chip (nor_env k c0) k c0"
  unfolding nor_chip_def
proof (intro allI impI)
  fix t a
  show "let c = nor_after k c0 t; v = ucast (nor_env k c0 t (PIO_FLASH_BASE + a)) :: u8 in
      case nmode c of Busy n \<Rightarrow> bit v 6 \<longleftrightarrow> odd n
      | Autosel \<Rightarrow> v = (if a = 0 then c_mfr k else if a = 1 then c_dev k else cells c a)
      | _ \<Rightarrow> v = cells c a"
    by (cases "nmode (nor_after k c0 t)") (simp_all add: nor_env_def Let_def ucast_ucast_u8 bit_40)
qed

definition chip_demo :: chip where
  "chip_demo = \<lparr>c_size = 0x20000, c_sect = 0x1000, c_mfr = 0xBF, c_dev = 0xB5, lat_prog = (\<lambda>t. 3), lat_sect = (\<lambda>t. 40), lat_chip = (\<lambda>t. 200)\<rparr>"

definition nor_demo :: nor where
  "nor_demo = \<lparr>cells = (\<lambda>x. ucast x), nmode = Reading\<rparr>"

definition info_demo :: pioflash_info where
  "info_demo = \<lparr>fi_present = True, fi_mfr_id = 0xBF, fi_dev_id = 0xB5, fi_chip = lookup_chip 0xBF 0xB5, fi_size = 0x20000, fi_sector_size = 0x1000\<rparr>"

definition hw_flash_demo :: hw where
  "hw_flash_demo = \<lparr>hw_env = nor_env chip_demo nor_demo, hw_trace = []\<rparr>"

lemma flash_demo:
  "chip_ok chip_demo" "flash_rel chip_demo nor_demo hw_flash_demo nor_demo" "nmode nor_demo = Reading"
  "fi_sector_size info_demo = of_nat (c_sect chip_demo)"
  by (simp_all add: chip_ok_def chip_demo_def flash_rel_def hw_flash_demo_def nor_env_chip nor_demo_def info_demo_def)

theorem pioflash_program_correct_witness:
  "\<exists>s' c'. pioflash_program info_demo 0x1FFF [0x12, 0x34] hw_flash_demo = Some (True, s') \<and>
     flash_rel chip_demo nor_demo s' c' \<and> cells c' 0x1FFF = 0x12 \<and> cells c' 0x2000 = 0x34 \<and>
     cells c' 0x1000 = 0xFF \<and> cells c' 0x2FFF = 0xFF \<and> cells c' 0x3007 = 7"
proof -
  have "unat (0x1FFF :: u32) + length [0x12, 0x34 :: u8] \<le> c_size chip_demo"
    by (simp add: chip_demo_def)
  from pioflash_program_correct [OF flash_demo this] obtain s' c' where
    p: "pioflash_program info_demo 0x1FFF [0x12, 0x34] hw_flash_demo = Some (True, s')" "flash_rel chip_demo nor_demo s' c'" and
    c: "cells c' x = (if unat (0x1FFF :: u32) \<le> unat x \<and> unat x < unat (0x1FFF :: u32) + length [0x12, 0x34 :: u8] then [0x12, 0x34] ! (unat x - unat (0x1FFF :: u32))
       else if unat (0x1FFF :: u32) div c_sect chip_demo \<le> unat x div c_sect chip_demo \<and> unat x div c_sect chip_demo * c_sect chip_demo < unat (0x1FFF :: u32) + length [0x12, 0x34 :: u8] then 0xFF
       else cells nor_demo x)" for x
    by blast
  have "cells c' 0x1FFF = 0x12" "cells c' 0x2000 = 0x34" "cells c' 0x1000 = 0xFF" "cells c' 0x2FFF = 0xFF" "cells c' 0x3007 = 7"
    by (simp_all add: c chip_demo_def nor_demo_def)
  then show ?thesis
    using p by blast
qed

text \<open>
  An erased cartridge is taken for an empty slot. After \<^verbatim>\<open>pioflash_erase_chip\<close> has
  succeeded on a chip that keeps its data sheet, \<^verbatim>\<open>pioflash_detect\<close> reports no device,
  whatever the chip is.
\<close>

theorem erased_chip_not_detected:
  assumes "chip_ok k" "flash_rel k c0 s c" "nmode c = Reading"
  shows "\<exists>s'. pioflash_erase_chip s = (True, s') \<and> \<not> fst (fst (pioflash_detect s'))"
proof -
  obtain s' where s': "pioflash_erase_chip s = (True, s')" "flash_rel k c0 s' (c\<lparr>cells := (\<lambda>x. 0xFF), nmode := Reading\<rparr>)"
    using erase_chip_done [OF assms] by blast
  obtain v s'' where r: "flash_read 0 s' = (v, s'')"
    by fastforce
  have "unat (0 :: u32) < c_size k"
    using assms(1) by (simp add: chip_ok_def)
  then have "v = 0xFF"
    using flash_read_rel(3) [OF s'(2) _ r] by simp
  then show ?thesis
    using s'(1) r by (simp add: pioflash_detect_def Let_def)
qed

theorem erased_chip_not_detected_witness:
  "\<exists>s'. pioflash_erase_chip hw_flash_demo = (True, s') \<and> \<not> fst (fst (pioflash_detect s'))"
  by (rule erased_chip_not_detected [OF flash_demo(1-3)])

lemma reading_id: "nmode c = Reading \<Longrightarrow> c\<lparr>nmode := Reading\<rparr> = c"
  by (cases c) simp

text \<open>A chip whose first byte is not erased is found, with its entry of the table.\<close>

lemma detect_chip:
  assumes "chip_ok k" "flash_rel k c0 s c" "nmode c = Reading" "cells c 0 \<noteq> 0xFF" "lookup_chip (c_mfr k) (c_dev k) = Some e" "c_mfr k \<noteq> cells c 0"
  shows "\<exists>s'. pioflash_detect s = ((True, \<lparr>fi_present = True, fi_mfr_id = c_mfr k, fi_dev_id = c_dev k, fi_chip = Some e,
     fi_size = fc_size e, fi_sector_size = fc_sector_size e\<rparr>), s') \<and> flash_rel k c0 s' c"
proof -
  have len: "unat (0 :: u32) < c_size k" "unat (1 :: u32) < c_size k"
    using assms(1) by (simp_all add: chip_ok_def)
  obtain b0 s1 where r0: "flash_read 0 s = (b0, s1)"
    by fastforce
  have b0: "b0 = cells c 0" "flash_rel k c0 s1 c"
    using flash_read_rel(1,3) [OF assms(2) len(1) r0] assms(3) by (simp_all add: jedec_read_def)
  let ?s2 = "delay 100 (flash_write FLASH_CMD_ADDR1 FLASH_CMD_AUTOSEL (flash_unlock s1))" and ?a = "c\<lparr>nmode := Autosel\<rparr>"
  have "flash_rel k c0 (flash_write FLASH_CMD_ADDR1 FLASH_CMD_AUTOSEL (flash_unlock s1)) ?a"
    using flash_write_rel [OF flash_unlock_rel(1) [OF assms(1) b0(2) assms(3)] chip_addrs(1) [OF assms(1)], of FLASH_CMD_AUTOSEL]
    by (simp add: jedec_write_def)
  then have s2: "flash_rel k c0 ?s2 ?a"
    by (simp add: flash_rel_def delay_def)
  obtain m s3 where r1: "flash_read 0 ?s2 = (m, s3)"
    by fastforce
  have m: "m = c_mfr k" "flash_rel k c0 s3 ?a"
    using flash_read_rel(1,4) [OF s2 len(1) r1] by (simp_all add: jedec_read_def)
  obtain d s4 where r2: "flash_read 1 s3 = (d, s4)"
    by fastforce
  have d: "d = c_dev k" "flash_rel k c0 s4 ?a"
    using flash_read_rel(1,4) [OF m(2) len(2) r2] by (simp_all add: jedec_read_def)
  have "flash_rel k c0 (flash_reset s4) (c\<lparr>nmode := Reading\<rparr>)"
    using flash_write_rel [OF d(2) len(1), of FLASH_CMD_RESET] by (simp add: flash_reset_def jedec_write_def)
  then have "flash_rel k c0 (flash_reset s4) c"
    by (simp add: reading_id [OF assms(3)])
  moreover have "\<not> (c_mfr k = 0xFF \<and> c_dev k = 0xFF)"
    using assms(5) by (auto simp: lookup_chip_def known_chips_def flash_chip_def)
  ultimately show ?thesis
    using r0 r1 r2 b0(1) m(1) d(1) assms(4-6) by (simp add: pioflash_detect_def Let_def)
qed

section \<open>The cartridge and the line together\<close>

fun sio_ev :: "bus_event \<Rightarrow> bool" where
  "sio_ev (Rd a v) = (a = SIO1_STAT \<or> a = SIO1_DATA)"
| "sio_ev (Wr a v) = (a = SIO1_DATA)"
| "sio_ev (Delay n) = True"

fun pio_ev :: "bus_event \<Rightarrow> bool" where
  "pio_ev (Rd a v) = (unat (a - PIO_FLASH_BASE) < 0x800000)"
| "pio_ev (Wr a v) = (unat (a - PIO_FLASH_BASE) < 0x800000)"
| "pio_ev (Delay n) = True"

lemma nor_after_sio: "\<forall>e\<in>set es. sio_ev e \<Longrightarrow> c_size k \<le> 0x800000 \<Longrightarrow> nor_after k c0 (es @ t) = nor_after k c0 t"
proof (induction es)
  case (Cons e es)
  then show ?case by (cases e) auto
qed simp

lemma flash_rel_sio:
  assumes "emits sio_ev s s'" "chip_ok k" "flash_rel k c0 s c"
  shows "flash_rel k c0 s' c"
proof -
  obtain es where "hw_trace s' = es @ hw_trace s" "\<forall>e\<in>set es. sio_ev e"
    using assms(1) by (rule emits_traceE)
  then show ?thesis
    using assms by (simp add: flash_rel_def chip_ok_def nor_after_sio emits_env)
qed

lemma on_line_pio:
  assumes "emits pio_ev s s'" "on_line peer r w got sent s"
  shows "on_line peer r w got sent s'"
proof -
  have "\<not> rd_in {SIO1_DATA} e \<and> \<not> wr_in {SIO1_DATA} e" if "pio_ev e" for e
    using that by (cases e) auto
  then show ?thesis
    using assms emits_reads [OF assms(1), of SIO1_DATA] emits_writes [OF assms(1), of SIO1_DATA]
    by (simp add: on_line_def line_out_def emits_env)
qed

lemma wait_rx_sio: "emits sio_ev s (snd (serial_wait_rx n s))"
proof (induction n arbitrary: s)
  case (Suc n)
  show ?case
    by (subst serial_wait_rx.simps) (auto simp: in16_def Let_def intro: emits_trans [OF emits_emit Suc.IH])
qed (subst serial_wait_rx.simps, auto simp: in16_def Let_def)

lemma emits_after: "emits P (emit e s) s' \<Longrightarrow> P e \<Longrightarrow> emits P s s'"
  by (rule emits_trans [OF emits_emit])

lemma wait_tx_sio: "serial_wait_tx s = Some s' \<Longrightarrow> emits sio_ev s s'"
proof (erule serial_wait_tx.raw_induct [rotated])
  fix rec and s y :: "'a hw_scheme"
  assume ih: "\<And>s y. rec s = Some y \<Longrightarrow> emits sio_ev s y"
    and y: "(case in16 SIO1_STAT s of (st, s) \<Rightarrow> if st AND SIO_STAT_TXRDY = 0 then rec s else Some s) = Some y"
  then show "emits sio_ev s y"
    by (auto simp: in16_def Let_def split: if_splits dest!: ih emits_after)
qed

lemma getchar_sio: "serial_getchar s = (b, s') \<Longrightarrow> emits sio_ev s s'"
  using wait_rx_sio [of s 10000000]
  by (auto simp: serial_getchar_def serial_getchar_timeout_def in8_def Let_def split: prod.splits bool.splits if_splits intro: emits_trans [OF _ emits_emit])

lemma putchar_sio: "serial_putchar b s = Some s' \<Longrightarrow> emits sio_ev s s'"
  by (auto simp: serial_putchar_def out8_def intro!: emits_trans [OF wait_tx_sio emits_emit])

lemma flash_read_pio: "unat a < 0x800000 \<Longrightarrow> emits pio_ev s (snd (flash_read a s))"
  by (simp add: flash_read_def in8_def Let_def)

lemma flash_write_pio: "unat a < 0x800000 \<Longrightarrow> emits pio_ev s (flash_write a v s)"
  by (simp add: flash_write_def out8_def)

lemma flash_poll_pio: "unat a < 0x800000 \<Longrightarrow> emits pio_ev s (snd (flash_poll a n prev s))"
proof (induction n arbitrary: prev s)
  case (Suc n)
  then show ?case
    using flash_read_pio [of a s] by (auto simp: Let_def split: prod.splits intro: emits_trans)
qed (simp add: flash_reset_def flash_write_pio)

lemma poll_toggle_pio: "unat a < 0x800000 \<Longrightarrow> emits pio_ev s (snd (flash_poll_toggle a n s))"
  using flash_read_pio [of a s] by (auto simp: flash_poll_toggle_def Let_def split: prod.splits intro: emits_trans flash_poll_pio)

lemma unlock_pio: "emits pio_ev s (flash_unlock s)"
  by (simp add: flash_unlock_def emits_trans [OF flash_write_pio flash_write_pio])

lemma erase_pre_pio: "emits pio_ev s (flash_erase_pre s)"
  unfolding flash_erase_pre_def by (intro emits_trans [OF emits_trans [OF unlock_pio flash_write_pio] unlock_pio]) simp

lemma erase_sector_pio: "unat a < 0x800000 \<Longrightarrow> emits pio_ev s (snd (pioflash_erase_sector a s))"
  unfolding pioflash_erase_sector_def by (intro emits_trans [OF emits_trans [OF erase_pre_pio flash_write_pio] poll_toggle_pio])

lemma program_byte_pio: "unat a < 0x800000 \<Longrightarrow> emits pio_ev s (snd (pioflash_program_byte a b s))"
  by (auto simp: pioflash_program_byte_def intro: emits_trans [OF emits_trans [OF emits_trans [OF unlock_pio flash_write_pio] flash_write_pio] poll_toggle_pio])

lemma erase_sectors_pio:
  assumes "erase_sectors S a e s = Some (b, s')" "unat e \<le> 0x800000"
  shows "emits pio_ev s s'"
proof -
  have "unat e \<le> 0x800000 \<longrightarrow> emits pio_ev s (snd (b, s'))"
    using assms(1)
  proof (rule erase_sectors.raw_induct [rotated])
    fix rec S a e s and y :: "bool \<times> 'a hw_scheme"
    assume ih: "\<And>S a e s y. rec S a e s = Some y \<Longrightarrow> unat e \<le> 0x800000 \<longrightarrow> emits pio_ev s (snd y)"
      and y: "(if a < e then case pioflash_erase_sector a s of (ok, s) \<Rightarrow> if \<not> ok then Some (False, s) else rec S (a + S) e s
        else Some (True, s)) = Some y"
    have "unat a < 0x800000" if "a < e" "unat e \<le> 0x800000"
      using that by (simp add: word_less_nat_alt)
    then show "unat e \<le> 0x800000 \<longrightarrow> emits pio_ev s (snd y)"
      using y erase_sector_pio [of a s] by (auto split: if_splits prod.splits dest: ih intro: emits_trans erase_sector_pio)
  qed
  then show ?thesis
    using assms(2) by simp
qed

text \<open>Serial transfers as seen from one end, with the cartridge in the state \<open>c\<close> throughout.\<close>

definition cart_line :: "chip \<Rightarrow> nor \<Rightarrow> nor \<Rightarrow> (u8 list \<Rightarrow> u8 list) \<Rightarrow> nat \<Rightarrow> nat \<Rightarrow> u8 list \<Rightarrow> u8 list \<Rightarrow> 'a hw_scheme \<Rightarrow> bool" where
  "cart_line k c0 c peer r w got sent s \<longleftrightarrow> chip_ok k \<and> flash_rel k c0 s c \<and> nmode c = Reading \<and> on_line peer r w got sent s"

lemma cart_getchar:
  assumes "cart_line k c0 c peer r w got sent s" "peer sent = got @ b # rest"
  shows "\<exists>s'. serial_getchar s = (Some b, s') \<and> cart_line k c0 c peer r w (got @ [b]) sent s' \<and> quiet s s'"
proof -
  obtain s' where s': "serial_getchar s = (Some b, s')" "on_line peer r w (got @ [b]) sent s'" "quiet s s'"
    using getchar_next assms unfolding cart_line_def by blast
  then show ?thesis
    using assms(1) flash_rel_sio [OF getchar_sio [OF s'(1)]] by (auto simp: cart_line_def)
qed

lemma cart_putchar:
  assumes "cart_line k c0 c peer r w got sent s"
  shows "\<exists>s'. serial_putchar b s = Some s' \<and> cart_line k c0 c peer r w got (sent @ [b]) s' \<and> quiet s s'"
proof -
  obtain s' where s': "serial_putchar b s = Some s'" "on_line peer r w got (sent @ [b]) s'" "quiet s s'"
    using putchar_line assms unfolding cart_line_def by blast
  then show ?thesis
    using assms(1) flash_rel_sio [OF putchar_sio [OF s'(1)]] by (auto simp: cart_line_def)
qed

interpretation cline: line_end "cart_line k c0 c peer r w" peer serial_getchar serial_putchar quiet for k c0 c peer r w
  by unfold_locales (rule cart_getchar cart_putchar quiet_refl quiet_trans; assumption)+

lemma recv_hdr_all: "recv_hdr n acc s = line_end.recv_all serial_getchar n acc s"
  by (induction n arbitrary: acc s) (simp_all add: sline.recv_all.simps split: prod.splits option.splits)

lemma dump_bytes_done:
  assumes "cart_line k c0 c peer r w got sent s" "i + n \<le> c_size k"
  shows "\<exists>s'. dump_bytes (of_nat i) n s = Some s' \<and> cart_line k c0 c peer r w got (sent @ map (\<lambda>j. cells c (of_nat j)) [i..<i + n]) s'"
  using assms
proof (induction n arbitrary: i sent s)
  case (Suc n)
  obtain b s1 where r: "flash_read (of_nat i) s = (b, s1)"
    by fastforce
  have c: "chip_ok k" "flash_rel k c0 s c" "nmode c = Reading" "on_line peer r w got sent s"
    using Suc.prems(1) by (simp_all add: cart_line_def)
  have i: "unat (of_nat i :: u32) < c_size k" "unat (of_nat i :: u32) < 0x800000"
    using Suc.prems(2) c(1) by (simp_all add: chip_ok_def unat_small)
  have b: "b = cells c (of_nat i)" "flash_rel k c0 s1 c"
    using flash_read_rel(1,3) [OF c(2) i(1) r] c(3) by (simp_all add: jedec_read_def)
  have "cart_line k c0 c peer r w got sent s1"
    using c b(2) on_line_pio [OF flash_read_pio [OF i(2), of s] c(4)] r by (simp add: cart_line_def)
  then obtain s2 where s2: "serial_putchar b s1 = Some s2" "cart_line k c0 c peer r w got (sent @ [b]) s2"
    using cart_putchar by blast
  obtain s3 where "dump_bytes (of_nat (Suc i)) n s2 = Some s3"
      "cart_line k c0 c peer r w got ((sent @ [b]) @ map (\<lambda>j. cells c (of_nat j)) [Suc i..<Suc i + n]) s3"
    using Suc.IH [OF s2(2), of "Suc i"] Suc.prems(2) by auto
  moreover have "[i..<i + Suc n] = i # [Suc i..<Suc i + n]"
    by (subst upt_conv_Cons) simp_all
  ultimately show ?case
    using r s2(1) b(1) by (simp add: add.commute del: upt_Suc)
qed simp

lemma programmed_Nil [simp]: "programmed off [] c = c"
  by (cases c) (auto simp: programmed_def fun_eq_iff)

lemma programmed_Cons: "programmed (Suc off) bs (programmed off [b] c) = programmed off (b # bs) c"
  by (cases c) (auto simp: programmed_def fun_eq_iff nth_Cons' Suc_le_eq)

lemma load_bytes_done:
  assumes "cart_line k c0 c peer r w got sent s" "peer sent = got @ bs @ rest" "off + length bs \<le> c_size k"
  shows "\<exists>s'. load_bytes (of_nat off) (length bs) s = (True, s') \<and> cart_line k c0 (programmed off bs c) peer r w (got @ bs) sent s'"
  using assms
proof (induction bs arbitrary: off got s c)
  case Nil
  then show ?case
    by simp
next
  case (Cons b bs)
  obtain s1 where s1: "serial_getchar s = (Some b, s1)" "cart_line k c0 c peer r w (got @ [b]) sent s1"
    using cart_getchar [OF Cons.prems(1)] Cons.prems(2) by auto
  then have c: "chip_ok k" "flash_rel k c0 s1 c" "nmode c = Reading" "on_line peer r w (got @ [b]) sent s1"
    by (simp_all add: cart_line_def)
  obtain s2 where s2: "program_bytes (of_nat off) [b] s1 = (True, s2)" "flash_rel k c0 s2 (programmed off [b] c)"
    using program_bytes_done [OF c(1-3), of off "[b]"] Cons.prems(3) by auto
  then have p: "pioflash_program_byte (of_nat off) b s1 = (True, s2)"
    by (auto split: prod.splits bool.splits)
  have off: "unat (of_nat off :: u32) < 0x800000"
    using Cons.prems(3) c(1) by (simp add: chip_ok_def unat_small)
  have "cart_line k c0 (programmed off [b] c) peer r w (got @ [b]) sent s2"
    using c s2(2) on_line_pio [OF program_byte_pio [OF off, of s1 b] c(4)] p by (simp add: cart_line_def programmed_def)
  from Cons.IH [OF this, of "Suc off"] Cons.prems obtain s3 where
    "load_bytes (of_nat (Suc off)) (length bs) s2 = (True, s3)"
    "cart_line k c0 (programmed (Suc off) bs (programmed off [b] c)) peer r w ((got @ [b]) @ bs) sent s3"
    by auto
  then show ?case
    using s1(1) p by (simp add: add.commute programmed_Cons)
qed

lemma xfer_hdr_fields:
  "length (pioflash_xfer_hdr sz m d) = 16" "le32_at (pioflash_xfer_hdr sz m d @ bs) 0 = PIOFLASH_MAGIC" "le32_at (pioflash_xfer_hdr sz m d @ bs) 4 = sz"
  by (simp_all add: pioflash_xfer_hdr_def le32_at_append2)

text \<open>
  C23: Saving a cartridge. What \<^verbatim>\<open>pioflash_dump_serial\<close> sends, received by
  \<^verbatim>\<open>pioflash_recv.py\<close>, is the contents of the chip.
\<close>

theorem pioflash_dump_roundtrip:
  assumes "chip_ok k" "flash_rel k c0 s c" "nmode c = Reading" "on_line peer r w got [] s" "unat (fi_size info) \<le> c_size k"
  shows "\<exists>s' tx. pioflash_dump_serial info s = Some s' \<and> on_line peer r w got tx s' \<and>
    pioflash_recv tx = Some (map (\<lambda>i. cells c (of_nat i)) [0..<unat (fi_size info)])"
proof -
  let ?h = "pioflash_xfer_hdr (fi_size info) (fi_mfr_id info) (fi_dev_id info)" and ?d = "map (\<lambda>i. cells c (of_nat i)) [0..<unat (fi_size info)]"
  have "cart_line k c0 c peer r w got [] s"
    using assms by (simp add: cart_line_def)
  then obtain s1 where s1: "serial_puts ?h s = Some s1" "cart_line k c0 c peer r w got ?h s1"
    using cline.send_all_at [where bs = ?h] unfolding puts_send_all by force
  obtain s' where s': "dump_bytes 0 (unat (fi_size info)) s1 = Some s'" "cart_line k c0 c peer r w got (?h @ ?d) s'"
    using dump_bytes_done [OF s1(2), of 0] assms(5) by auto
  have "pioflash_recv (?h @ ?d) = Some ?d"
    by (simp add: pioflash_recv_def xfer_hdr_fields Let_def)
  then show ?thesis
    using s1(1) s' by (auto simp: pioflash_dump_serial_def cart_line_def)
qed


lemma nor_chip_line:
  assumes "chip_ok k"
  shows "nor_chip (serial_line peer r w (nor_env k c0)) k c0"
proof -
  have "serial_line peer r w (nor_env k c0) t (PIO_FLASH_BASE + a) = nor_env k c0 t (PIO_FLASH_BASE + a)" if "unat a < c_size k" for t a
  proof -
    have "unat a < 0x800000"
      using that assms by (simp add: chip_ok_def)
    then have "PIO_FLASH_BASE + a \<noteq> SIO1_STAT" "PIO_FLASH_BASE + a \<noteq> SIO1_DATA"
      by (auto simp: add.commute [of _ a] simp flip: eq_diff_eq)
    then show ?thesis
      by (simp add: serial_line_def)
  qed
  then show ?thesis
    using nor_env_chip [of k c0] unfolding nor_chip_def by (simp add: Let_def)
qed

definition hw_line_demo :: "u8 list \<Rightarrow> hw" where
  "hw_line_demo tx = \<lparr>hw_env = serial_line (\<lambda>_. tx) 0 0 (nor_env chip_demo nor_demo), hw_trace = []\<rparr>"

lemma line_demo:
  "flash_rel chip_demo nor_demo (hw_line_demo tx) nor_demo" "on_line (\<lambda>_. tx) 0 0 [] [] (hw_line_demo tx)"
  using nor_chip_line [OF flash_demo(1)] by (auto simp: hw_line_demo_def flash_rel_def on_line_def line_out_def)

theorem pioflash_dump_roundtrip_witness:
  "\<exists>s' tx. pioflash_dump_serial info_demo (hw_line_demo []) = Some s' \<and> on_line (\<lambda>_. []) 0 0 [] tx s' \<and>
    pioflash_recv tx = Some (map ucast (map of_nat [0..<0x20000] :: u32 list))"
proof -
  have "unat (fi_size info_demo) \<le> c_size chip_demo"
    by (simp add: info_demo_def chip_demo_def)
  from pioflash_dump_roundtrip [OF flash_demo(1) line_demo(1) flash_demo(3) line_demo(2) this] show ?thesis
    by (simp add: info_demo_def nor_demo_def comp_def)
qed


text \<open>On a device that ignores writes the code takes every byte for programmed.\<close>

theorem rom_programs_successfully:
  fixes s :: "'a hw_scheme"
  assumes "\<forall>t. hw_env s t (PIO_FLASH_BASE + offset) = v"
  shows "fst (pioflash_program_byte offset b s)"
proof -
  have *: "fst (flash_poll_toggle offset (Suc n) s')" if "hw_env s' = hw_env s" for n and s' :: "'a hw_scheme"
    using assms that by (simp add: flash_poll_toggle_def flash_read_def in8_def Let_def)
  have "hw_env (flash_write offset b (flash_write FLASH_CMD_ADDR1 FLASH_CMD_PROGRAM (flash_unlock s))) = hw_env s"
    by (simp add: flash_write_def flash_unlock_def out8_def)
  then show ?thesis
    using * [of _ 499999] by (simp add: pioflash_program_byte_def del: flash_poll.simps)
qed

end
