(* ===== verification/Spec2Isabelle.thy ===== *)
theory Spec2Isabelle
  imports PsxcdBlk Psxkbd Memcard BinfmtFixed ShellLine ImageTools PsxSerial PioFlash
begin

text \<open>
  BlackRoo Linux: a uClinux 2.4 port for the PlayStation, with its boot loader,
  drivers, user programs and host tools. File names below are relative to \<^verbatim>\<open>src/\<close>.

  \<^bold>\<open>How the parts meet.\<close> The host turns the linked kernel into a PS-EXE and appends a
  ram disk (\<^verbatim>\<open>tools/elf2psexe.c\<close>, \<^verbatim>\<open>tools/addpsexe_initrd.c\<close>). The boot loader
  (\<^verbatim>\<open>bootloader/src\<close>) takes it from the disc, or over the serial line from
  \<^verbatim>\<open>tools/host/blackroo-serial.py\<close>, leaves a command line and the memory size in low
  memory and jumps. The kernel (\<^verbatim>\<open>blackroo\<close>) reads them back, reserves the ram disk
  and a window for user programs, sets up its interrupt table and consoles, and
  drives the disc, the memory cards, the keyboard and the serial port. Cards and
  keyboard share one bus. Programs are loaded at fixed addresses.

  \<^bold>\<open>Conventions.\<close> Hardware and code outside the repository are parameters: a device
  is an arbitrary function \<open>hw_env\<close> of the bus history, and where a theorem needs a
  device to behave, that is a named hypothesis of the theorem (\<open>cd_ack_clears\<close>,
  \<open>bu_answers\<close>, \<open>on_line\<close>, \<open>nor_chip\<close>) with a witness at a concrete device. State is
  passed explicitly in records that extend \<open>hw\<close>; C integers keep their width; an
  access outside an array, a null call and \<^verbatim>\<open>BUG()\<close> are \<open>None\<close>. Loops with a limit in
  the source are recursive functions with that limit, so no fuel is chosen
  anywhere; loops without one are \<open>partial_function (option)\<close>, and the theorems
  about them say that they return.

  \<^bold>\<open>The theories and what they show.\<close>
  \<^item> \<open>Prelude\<close>: integer types, little-endian encodings, the locales \<open>step_system\<close>
    (invariants of a step function) and \<open>forward_sim\<close> (refinement). \<open>Bus\<close>: the bus, its
    frame lemmas, the locales \<open>bus_arbiter\<close> and \<open>byte_port\<close>. \<open>Mem\<close>: memory by physical
    address. \<open>Klib\<close>: \<^verbatim>\<open>lib/ctype.c\<close> and the parsers of \<^verbatim>\<open>lib/vsprintf.c\<close> and \<^verbatim>\<open>lib/cmdline.c\<close>.
    \<open>Blkreq\<close>: \<^verbatim>\<open>end_request\<close> of \<^verbatim>\<open>ll_rw_blk.c\<close>.
  \<^item> \<open>Psxcd\<close>, \<open>PsxcdBlk\<close>: \<^verbatim>\<open>drivers/block/psxcd.c\<close>. The streaming state is truthful, the
    commands are the right ones, the interrupt mask is given back, reads end when
    acknowledging works (and need not otherwise); the ISO9660 lookup is sound and
    ends; the request function serves its queue.
  \<^item> \<open>Bu\<close>, \<open>BuDrv\<close>, \<open>BuProbe\<close>: \<^verbatim>\<open>drivers/block/bu.c\<close>. The interrupt-driven byte machine is
    safe, finite and correct for reads and writes; in every interleaving no request is
    lost, the bus has one owner and a dead card does not block the queue; the joined
    device maps blocks one to one; what the probe records was read.
  \<^item> \<open>Psxkbd\<close>: \<^verbatim>\<open>drivers/char/psxkbd.c\<close>. The scan-code decoder inverts the key encoding under
    any framing, frames stay in their buffer, a poll respects the bus lock.
  \<^item> \<open>PsIrq\<close>: \<^verbatim>\<open>arch/mipsnommu/ps/irq.c\<close>, \<^verbatim>\<open>setup.c\<close> and \<^verbatim>\<open>int-handler.S\<close>. Enabled sources are
    exactly the registered ones; the first pending source is acknowledged and its
    handlers run. \<open>Tty\<close>: the flip buffer of \<^verbatim>\<open>tty_flip.h\<close> and \<^verbatim>\<open>tty_io.c\<close> refines a bounded
    queue. \<open>PsxSerial\<close>: \<^verbatim>\<open>ps/siocon.c\<close> and \<^verbatim>\<open>drivers/char/serial_psx.c\<close>, and the way of a byte
    from the wire through the interrupt dispatch to the line discipline.
  \<^item> \<open>Psxcon\<close>: \<^verbatim>\<open>drivers/video/psxcon.c\<close> refines a plain grid of characters.
  \<^item> \<open>Settings\<close>, \<open>Memcard\<close>, \<open>KernelBoot\<close>, \<open>Serial\<close>, \<open>Shell\<close>: the files of those names in
    \<^verbatim>\<open>bootloader/src\<close>. Settings survive the card; a block read is what the card sent; a
    PS-EXE from the disc is in memory unchanged; an upload that reports success has
    stored the announced bytes. \<open>HostTool\<close>, \<open>ShellLine\<close>: the host script at the other
    end of the line, and an upload followed byte by byte to the running kernel.
  \<^item> \<open>PioFlash\<close>: \<^verbatim>\<open>bootloader/src/pioflash.c\<close> and its two host scripts. On a chip that keeps
    its data sheet, programming leaves the buffer in the cells and nothing else
    changed but the rest of the touched sectors; dumping and loading over the serial
    line invert each other's formats.
  \<^item> \<open>Prom\<close>, \<open>Bootmem\<close>, \<open>BinfmtFixed\<close>, \<open>Handoff\<close>: \<^verbatim>\<open>arch/mipsnommu/ps/prom\<close>, \<^verbatim>\<open>kernel/setup.c\<close> with
    \<^verbatim>\<open>mm/bootmem.c\<close>, \<^verbatim>\<open>fs/binfmt_fixed.c\<close>. Command line and display mode reach the kernel, the
    ram disk survives, user programs and the page allocator share no page, and the
    argument block is well formed. \<open>ImageTools\<close>: the two packers, and that the image
    they make is one the loaders and the kernel agree on.
  \<^item> This theory: cards formatted by the boot loader or the host, as the kernel sees
    them.

  \<^bold>\<open>Not modelled.\<close> Stock Linux (scheduler, memory management, file systems, the rest of
  the tty and console layers), MIPS assembly below the interrupt dispatch, and
  third-party libraries: the modelled code meets them through parameters. The
  kernel monitor \<^verbatim>\<open>brmon.c\<close> and the user shell \<^verbatim>\<open>userland/brsh.c\<close> are interactive front ends over
  ports and system calls. The screens of the boot loader (\<^verbatim>\<open>main.c\<close>, \<^verbatim>\<open>menu.c\<close>, \<^verbatim>\<open>hwinfo.c\<close>,
  \<^verbatim>\<open>logo.c\<close> and the menus) are drawing through a library that is not in the repository.
  Timing is not modelled: a delay is an event without a duration.
\<close>

section \<open>Memory cards from the boot loader to the kernel\<close>

text \<open>
  C33: A card formatted by the boot loader is what the kernel driver looks for,
  if its number fits. When a card that holds the block \<^verbatim>\<open>memcard_format\<close> writes for
  sequence number \<open>n\<close> answers the driver's polled read, the driver finds it with
  1024 blocks and number \<open>n\<close>; the sweep adds its 127 KB and 1016 data blocks to the
  joined device exactly if \<open>n\<close> is below two and neither the number nor the serial
  has been claimed before, and otherwise gives the slot size zero. (The boot
  loader's manager formats the card in port 2 with number 4.)
\<close>
theorem formatted_card_joins:
  assumes "bu_answers (hw_env s) (length (reads BU_DATA (hw_trace s))) (bu_card_reply (memcard_format_block n))"
    "bu_ack s = (\<lambda>_. True)" "length (bu_devices s) = 2" "length (bu_sizes s) = 2" "i < 2" "length seen = 2" "length (bu_serials s) < 2"
  shows "\<exists>s'. bu_read_first_block i s = Some (True, s') \<and> fb_size (bu_devices s' ! i) = 1024 \<and> fb_number (bu_devices s' ! i) = n \<and>
    (case bu_judge i seen kb s' of (seen', kb', s'') \<Rightarrow>
       if n < 2 \<and> \<not> seen ! unat n \<and> 0xABCD0000 + n \<notin> set (bu_serials s)
       then kb' = kb + 127 \<and> bu_total s'' = bu_total s + 1016 \<and> bu_sizes s'' ! i = 127 \<and> seen' = seen[unat n := True]
       else kb' = kb \<and> bu_total s'' = bu_total s \<and> bu_sizes s'' ! i = 0)"
proof -
  have id: "le32_at (memcard_format_block n) 0 = BU_ID"
    using format_block(2) [of n] by (simp add: hdr_read_def)
  obtain s' where r: "bu_read_first_block i s = Some (True, s')" "bu_devices s' = (bu_devices s)[i := fb_load (memcard_format_block n) (bu_devices s ! i)]"
      "bu_probes s s'"
    using bu_read_first_block_live [OF assms(1) format_block(1) assms(2) id] by blast
  then have dev: "fb_size (bu_devices s' ! i) = 1024" "fb_number (bu_devices s' ! i) = n" "fb_serial (bu_devices s' ! i) = 0xABCD0000 + n"
    using assms(3,5) by (simp_all add: fb_load_hdr format_block(2))
  have fr: "bu_serials s' = bu_serials s" "bu_total s' = bu_total s" "length (bu_sizes s') = 2"
    using r(3) assms(4) by (simp_all add: bu_probes_def)
  have "sint (127 :: u32) = 127"
    by simp
  then show ?thesis
    using r(1) dev fr assms(5,7)
    by (intro exI [of _ s']) (auto simp: bu_judge_def Let_def bu_serial_seen_def bu_join_def drop_bit_eq_div not_less)
qed

definition card4_probe :: bud where
  "card4_probe = bu_boot\<lparr>hw_env := (\<lambda>t a. if a = BU_DATA then ucast (bu_card_reply (memcard_format_block 4) (length (reads BU_DATA t))) else 7),
     bu_ack := (\<lambda>_. True), bu_serials := []\<rparr>"

theorem formatted_card_joins_witness:
  "\<exists>s'. bu_read_first_block 1 card4_probe = Some (True, s') \<and> fb_number (bu_devices s' ! 1) = 4 \<and>
    (case bu_judge 1 [False, False] 0 s' of (seen', kb', s'') \<Rightarrow> kb' = 0 \<and> bu_sizes s'' ! 1 = 0)"
  using formatted_card_joins [of card4_probe 4 1 "[False, False]" 0]
  by (auto simp: card4_probe_def bu_boot_def bu_answers_def)

lemma create_card_hdr: "hdr_read (create_card serial n None) = \<lparr>hdr_id = BU_ID, hdr_size = 1024, hdr_serial = serial, hdr_number = n\<rparr>"
  by (simp add: create_card_def hdr_read_bytes)

text \<open>
  A card set made in one run of \<^verbatim>\<open>mkmemcard --raid\<close> is not joined by the
  kernel. The tool seeds its generator with the time at every card, so two cards
  made within the same second carry the same serial; the kernel's sweep takes the
  second for an echo of the first and joins only one card.
\<close>
theorem raid_serials_collide:
  assumes "mkmemcard_raid rnd clock pid count = Some imgs" "2 \<le> count" "clock 0 = clock 1"
    "bu_devices s = [fb_load (imgs ! 0) d, fb_load (imgs ! 1) e]" "bu_serials s = []" "length (bu_sizes s) = 2"
  shows "case bu_judge 0 [False, False] 0 s of (seen1, kb1, s1) \<Rightarrow>
    case bu_judge 1 seen1 kb1 s1 of (seen2, kb2, s2) \<Rightarrow>
      kb2 = 127 \<and> bu_total s2 = bu_total s + 1016 \<and> bu_sizes s2 ! 1 = 0"
proof -
  have imgs: "imgs ! i = create_card (make_serial rnd (clock i) pid) (of_nat i) None" if "i < 2" for i
    using assms(1,2) that by (auto simp: mkmemcard_raid_def split: if_splits)
  have "sint (127 :: u32) = 127"
    by simp
  then show ?thesis
    using assms(3-6) imgs [of 0] imgs [of 1]
    by (simp add: bu_judge_def Let_def bu_serial_seen_def bu_join_def drop_bit_eq_div fb_load_hdr create_card_hdr)
qed

theorem raid_serials_collide_witness:
  "case bu_judge 0 [False, False] 0 (bu_boot\<lparr>bu_serials := [], bu_devices := map (\<lambda>i. fb_load (create_card 0 (of_nat i) None) (bu_devices bu_boot ! i)) [0, 1]\<rparr>) of
     (seen1, kb1, s1) \<Rightarrow> case bu_judge 1 seen1 kb1 s1 of (seen2, kb2, s2) \<Rightarrow> kb2 = 127 \<and> bu_sizes s2 ! 1 = 0"
  using raid_serials_collide [of "\<lambda>_ _. 0" "\<lambda>_. 1" 2 2 "map (\<lambda>i. create_card 0 (of_nat i) None) [0, 1]"
      "bu_boot\<lparr>bu_serials := [], bu_devices := map (\<lambda>i. fb_load (create_card 0 (of_nat i) None) (bu_devices bu_boot ! i)) [0, 1]\<rparr>"
      "bu_devices bu_boot ! 0" "bu_devices bu_boot ! 1"]
  by (simp add: mkmemcard_raid_def make_serial_def upt_rec bu_boot_def split_beta)

end
